(* ===== verification/Prelude.thy ===== *)
theory Prelude
  imports Complex_Main "HOL-Library.Sublist"
begin

text \<open>
  What every component shares: the type of Python text, the exceptions the source raises or
  catches, and the small error-state monad in which the effectful functions are written.

  Text is a list of Unicode code points, each an \<open>int\<close>, because the source counts code points
  in some places (slices, \<open>len\<close>) and UTF-8 bytes in others. \<open>lit\<close> embeds a string literal.

  A function of the source that may raise and that talks to a sandbox, a model or a module
  global is a \<open>prog\<close>: it takes the world and returns either an exception or a value, together
  with the new world. The world survives an exception, as in Python.
\<close>

named_theorems prog_simps \<open>unfolding rules of the error-state monad\<close>
named_theorems py_simps \<open>definitions of the Python library functions\<close>

section \<open>Text\<close>

type_synonym str = "int list"

definition lit :: "string \<Rightarrow> str" where
  "lit s = map of_char s"

lemma of_char_int_inj: "(of_char a :: int) = of_char b \<longleftrightarrow> a = b"
  by (rule of_char_eq_iff)

lemma inj_of_char_int: "inj (of_char :: char \<Rightarrow> int)"
  by (rule injI) (simp add: of_char_int_inj)

lemma lit_eq_iff [simp]: "lit a = lit b \<longleftrightarrow> a = b"
  by (simp add: lit_def inj_map_eq_map [OF inj_of_char_int])

lemma lit_eq_Nil_iff [simp]: "lit a = [] \<longleftrightarrow> a = []"
  by (simp add: lit_def)

lemma lit_Nil [simp]: "lit [] = []"
  by (simp add: lit_def)

lemma Nil_eq_lit_iff [simp]: "[] = lit a \<longleftrightarrow> a = []"
  by (auto simp: lit_def)

lemma length_lit [simp]: "length (lit a) = length a"
  by (simp add: lit_def)

lemma lit_append: "lit (a @ b) = lit a @ lit b"
  by (simp add: lit_def)

section \<open>Exceptions\<close>

text \<open>
  The exception classes that occur on the modelled paths. The text is the exception's message
  (\<open>str(exc)\<close>). \<open>JSONDecodeError\<close> and \<open>UnicodeEncodeError\<close> are subclasses of
  \<open>ValueError\<close> in Python, which matters where the source catches \<open>ValueError\<close>.
\<close>

datatype exc =
    FileNotFoundError str
  | ValueError str
  | JSONDecodeError str
  | UnicodeEncodeError str
  | KeyError str
  | TypeError str
  | AttributeError str
  | IndexError str
  | RuntimeError str
  | AssertionError str
  | ExternalError str

fun exc_message :: "exc \<Rightarrow> str" where
  "exc_message (FileNotFoundError m) = m"
| "exc_message (ValueError m) = m"
| "exc_message (JSONDecodeError m) = m"
| "exc_message (UnicodeEncodeError m) = m"
| "exc_message (KeyError m) = m"
| "exc_message (TypeError m) = m"
| "exc_message (AttributeError m) = m"
| "exc_message (IndexError m) = m"
| "exc_message (RuntimeError m) = m"
| "exc_message (AssertionError m) = m"
| "exc_message (ExternalError m) = m"

fun is_value_error :: "exc \<Rightarrow> bool" where
  "is_value_error (ValueError _) = True"
| "is_value_error (JSONDecodeError _) = True"
| "is_value_error (UnicodeEncodeError _) = True"
| "is_value_error _ = False"

fun is_file_not_found :: "exc \<Rightarrow> bool" where
  "is_file_not_found (FileNotFoundError _) = True"
| "is_file_not_found _ = False"

section \<open>Programs: state passing with exceptions\<close>

type_synonym ('w, 'a) prog = "'w \<Rightarrow> (exc + 'a) \<times> 'w"

definition ret :: "'a \<Rightarrow> ('w, 'a) prog" where
  "ret a = (\<lambda>w. (Inr a, w))"

definition raise :: "exc \<Rightarrow> ('w, 'a) prog" where
  "raise e = (\<lambda>w. (Inl e, w))"

definition bnd :: "('w, 'a) prog \<Rightarrow> ('a \<Rightarrow> ('w, 'b) prog) \<Rightarrow> ('w, 'b) prog" where
  "bnd m f = (\<lambda>w. case m w of (r, w') \<Rightarrow>
     (case r of Inl e \<Rightarrow> (Inl e, w') | Inr a \<Rightarrow> f a w'))"

definition of_result :: "exc + 'a \<Rightarrow> ('w, 'a) prog" where
  "of_result r = (\<lambda>w. (r, w))"

text \<open>\<open>catch m p h\<close> is \<open>try: m except p as exc: h(exc)\<close>.\<close>

definition catch :: "('w, 'a) prog \<Rightarrow> (exc \<Rightarrow> bool) \<Rightarrow> (exc \<Rightarrow> ('w, 'a) prog) \<Rightarrow> ('w, 'a) prog" where
  "catch m p h = (\<lambda>w. case m w of (r, w') \<Rightarrow>
     (case r of Inl e \<Rightarrow> (if p e then h e w' else (Inl e, w')) | Inr a \<Rightarrow> (Inr a, w')))"

text \<open>\<open>finally_do m c\<close> is \<open>try: m finally: c\<close>; an exception of \<open>c\<close> replaces what \<open>m\<close> gave.\<close>

definition finally_do :: "('w, 'a) prog \<Rightarrow> ('w, unit) prog \<Rightarrow> ('w, 'a) prog" where
  "finally_do m c = (\<lambda>w. case m w of (r, w') \<Rightarrow>
     (case c w' of (Inl e, w'') \<Rightarrow> (Inl e, w'') | (Inr _, w'') \<Rightarrow> (r, w'')))"

lemma finally_eq_InrE:
  assumes "finally_do m c w = (Inr r, w')"
  obtains w1 where "m w = (Inr r, w1)" and "c w1 = (Inr (), w')"
  using assms unfolding finally_do_def by (auto split: prod.splits sum.splits)

text \<open>
  \<open>assert c, text\<close> of the verification scripts. Of an f-string only the constant beginning is kept
  as the message: what it goes on to print is a \<open>repr\<close> for the reader of the console.
\<close>

definition py_assert :: "bool \<Rightarrow> string \<Rightarrow> ('w, unit) prog" where
  "py_assert c text = (if c then ret () else raise (AssertionError (lit text)))"

lemma ret_app [simp]: "ret a w = (Inr a, w)"
  by (simp add: ret_def)

lemma raise_app [simp]: "raise e w = (Inl e, w)"
  by (simp add: raise_def)

lemma of_result_app [simp]: "of_result r w = (r, w)"
  by (simp add: of_result_def)

lemma bnd_app [prog_simps]:
  "bnd m f w = (case m w of (Inl e, w') \<Rightarrow> (Inl e, w') | (Inr a, w') \<Rightarrow> f a w')"
  by (simp add: bnd_def split: prod.splits sum.splits)

lemma bnd_Inr [simp]: "m w = (Inr a, w') \<Longrightarrow> bnd m f w = f a w'"
  by (simp add: bnd_def)

lemma bnd_Inl [simp]: "m w = (Inl e, w') \<Longrightarrow> bnd m f w = (Inl e, w')"
  by (simp add: bnd_def)

lemma bnd_ret [simp]: "bnd (ret a) f = f a"
  by (simp add: bnd_def fun_eq_iff)

lemma bnd_raise [simp]: "bnd (raise e) f = raise e"
  by (simp add: bnd_def fun_eq_iff)

lemma bnd_assert_True [simp]: "c \<Longrightarrow> bnd (py_assert c t) f = f ()"
  by (simp add: py_assert_def bnd_def fun_eq_iff)

lemma bnd_assert_Inr_iff [prog_simps]:
  "bnd (py_assert c t) f w = (Inr b, w'') \<longleftrightarrow> c \<and> f () w = (Inr b, w'')"
  by (simp add: py_assert_def bnd_def)

lemma bnd_assoc: "bnd (bnd m f) g = bnd m (\<lambda>x. bnd (f x) g)"
  by (auto simp: bnd_def fun_eq_iff split: prod.splits sum.splits)

text \<open>Inversion of a program that returned: the shape in which the node proofs use it.\<close>

lemma bnd_eq_InrE:
  assumes "bnd m f w = (Inr b, w'')"
  obtains a w' where "m w = (Inr a, w')" and "f a w' = (Inr b, w'')"
  using assms by (auto simp: bnd_def split: prod.splits sum.splits)

lemma bnd_eq_Inr_iff:
  "bnd m f w = (Inr b, w'') \<longleftrightarrow> (\<exists>a w'. m w = (Inr a, w') \<and> f a w' = (Inr b, w''))"
  by (auto simp: bnd_def split: prod.splits sum.splits)

lemma catch_Inr [simp]: "m w = (Inr a, w') \<Longrightarrow> catch m p h w = (Inr a, w')"
  by (simp add: catch_def)

lemma catch_Inl [simp]:
  "m w = (Inl e, w') \<Longrightarrow> catch m p h w = (if p e then h e w' else (Inl e, w'))"
  by (simp add: catch_def)

lemma bnd_cong [fundef_cong]:
  assumes "m w = m' w" and "\<And>a w'. m' w = (Inr a, w') \<Longrightarrow> f a w' = f' a w'"
  shows "bnd m f w = bnd m' f' w"
  using assms by (auto simp: bnd_def split: prod.splits sum.splits)

lemma py_assert_app: "py_assert c t w = (if c then Inr () else Inl (AssertionError (lit t)), w)"
  by (simp add: py_assert_def)

lemma py_assert_ok [simp]: "c \<Longrightarrow> py_assert c t w = (Inr (), w)"
  by (simp add: py_assert_app)

lemma py_assert_Inr_iff: "py_assert c t w = (Inr u, w') \<longleftrightarrow> c \<and> w' = w"
  by (auto simp: py_assert_app)

text \<open>
  A small total-correctness logic: \<open>always m Q\<close> says that from every world \<open>m\<close> returns, with a value
  that satisfies \<open>Q\<close>.
\<close>

definition always :: "('w, 'a) prog \<Rightarrow> ('a \<Rightarrow> bool) \<Rightarrow> bool" where
  "always m Q \<longleftrightarrow> (\<forall>w. \<exists>r w'. m w = (Inr r, w') \<and> Q r)"

lemma alwaysE:
  assumes "always m Q"
  obtains r w' where "m w = (Inr r, w')" and "Q r"
  using assms unfolding always_def by blast

lemma always_ret [simp]: "always (ret a) Q \<longleftrightarrow> Q a"
  by (simp add: always_def)

lemma always_Pair [simp]: "always (Pair (Inr a)) Q \<longleftrightarrow> Q a"
  by (simp add: always_def)

lemma always_bnd: "always m Q \<Longrightarrow> (\<And>r. Q r \<Longrightarrow> always (f r) R) \<Longrightarrow> always (bnd m f) R"
  unfolding always_def by (metis bnd_Inr)

lemma always_catch: "always m Q \<Longrightarrow> always (catch m p h) Q"
  unfolding always_def by (metis catch_Inr)

lemma always_finally:
  assumes "always m Q" and "always c R"
  shows "always (finally_do m c) Q"
  unfolding always_def
proof
  fix w
  from assms(1) obtain r w1 where "m w = (Inr r, w1)" "Q r" by (rule alwaysE)
  moreover from assms(2) obtain u w2 where "c w1 = (Inr u, w2)" by (rule alwaysE)
  ultimately show "\<exists>r w'. finally_do m c w = (Inr r, w') \<and> Q r" by (simp add: finally_do_def)
qed

lemma always_weaken: "always m Q \<Longrightarrow> (\<And>r. Q r \<Longrightarrow> R r) \<Longrightarrow> always m R"
  unfolding always_def by meson

section \<open>Generic list facts\<close>

lemma take_last_length: "length (drop (length xs - n) xs) \<le> n"
  by simp

lemma suffix_drop_le: "suffix (drop n xs) xs"
  by (rule suffix_drop)

definition last_n :: "nat \<Rightarrow> 'a list \<Rightarrow> 'a list" where
  \<comment> \<open>the Python slice \<open>xs[-n:]\<close> for positive \<open>n\<close>\<close>
  "last_n n xs = drop (length xs - n) xs"

lemma length_last_n [simp]: "length (last_n n xs) = min n (length xs)"
  by (simp add: last_n_def)

lemma suffix_last_n: "suffix (last_n n xs) xs"
  by (simp add: last_n_def suffix_drop)

lemma last_n_all: "length xs \<le> n \<Longrightarrow> last_n n xs = xs"
  by (simp add: last_n_def)

lemma set_last_n_subset: "set (last_n n xs) \<subseteq> set xs"
  by (simp add: last_n_def set_drop_subset)

end
