(* ===== verification/Py_Str.thy ===== *)
theory Py_Str
  imports Prelude
begin

text \<open>
  The part of Python's \<open>str\<close> that the source uses, as executable functions on code-point lists:
  decimal numerals, searching, counting and replacing, line splitting, stripping, splitting and
  \<open>int()\<close>. The lemmas are the facts the components rest on: what \<open>count\<close> and the single
  replacement do, that line splitting leaves no line break behind, and how many line breaks a
  join of lines has.
\<close>

section \<open>Decimal numerals\<close>

fun nat_digits :: "nat \<Rightarrow> str" where
  "nat_digits n = (if n < 10 then [48 + int n] else nat_digits (n div 10) @ [48 + int (n mod 10)])"

declare nat_digits.simps [simp del]

definition int_str :: "int \<Rightarrow> str" where
  "int_str i = (if i < 0 then 45 # nat_digits (nat (- i)) else nat_digits (nat i))"

lemma nat_digits_ascii: "c \<in> set (nat_digits n) \<Longrightarrow> 48 \<le> c \<and> c \<le> 57"
proof (induction n rule: nat_digits.induct)
  case (1 n)
  show ?case
  proof (cases "n < 10")
    case True
    with 1 show ?thesis by (auto simp: nat_digits.simps [of n])
  next
    case False
    with 1 show ?thesis by (auto simp: nat_digits.simps [of n])
  qed
qed

lemma nat_digits_nonempty [simp]: "nat_digits n \<noteq> []"
  by (subst nat_digits.simps) simp

lemma int_str_ascii: "c \<in> set (int_str i) \<Longrightarrow> c = 45 \<or> 48 \<le> c \<and> c \<le> 57"
  by (auto simp: int_str_def dest: nat_digits_ascii split: if_splits)

section \<open>Searching\<close>

fun is_prefix :: "str \<Rightarrow> str \<Rightarrow> bool" where
  "is_prefix [] s = True"
| "is_prefix (x # xs) [] = False"
| "is_prefix (x # xs) (y # ys) = (x = y \<and> is_prefix xs ys)"

lemma is_prefix_iff: "is_prefix p s \<longleftrightarrow> prefix p s"
  by (induction p s rule: is_prefix.induct) auto

lemma is_prefix_ex: "is_prefix p s \<longleftrightarrow> (\<exists>r. s = p @ r)"
  by (simp add: is_prefix_iff prefix_def)

lemma is_prefix_append [simp]: "is_prefix p (p @ s)"
  by (simp add: is_prefix_ex)

fun py_in :: "str \<Rightarrow> str \<Rightarrow> bool" where
  \<comment> \<open>\<open>sub in s\<close>\<close>
  "py_in sub [] = (sub = [])"
| "py_in sub (c # cs) = (is_prefix sub (c # cs) \<or> py_in sub cs)"

lemma py_in_iff: "py_in sub s \<longleftrightarrow> (\<exists>p q. s = p @ sub @ q)"
proof (induction sub s rule: py_in.induct)
  case (2 sub c cs)
  show ?case
  proof
    assume "py_in sub (c # cs)"
    then consider "is_prefix sub (c # cs)" | "py_in sub cs" by auto
    then show "\<exists>p q. c # cs = p @ sub @ q"
    proof cases
      case 1
      then obtain r where "c # cs = [] @ sub @ r" by (auto simp: is_prefix_ex)
      then show ?thesis by blast
    next
      case 2
      then obtain p q where "cs = p @ sub @ q" using "2.IH" by (cases "is_prefix sub (c # cs)") auto
      then have "c # cs = (c # p) @ sub @ q" by simp
      then show ?thesis by blast
    qed
  next
    assume "\<exists>p q. c # cs = p @ sub @ q"
    then obtain p q where "c # cs = p @ sub @ q" by blast
    then have "is_prefix sub (c # cs) \<or> (\<exists>p q. cs = p @ sub @ q)"
      by (cases p) (auto simp: is_prefix_ex)
    with 2 show "py_in sub (c # cs)" by auto
  qed
qed simp

lemma py_in_append: "py_in p s \<Longrightarrow> py_in p (a @ s @ b)"
  by (auto simp: py_in_iff) (metis append.assoc)

lemma py_in_prefix: "py_in p (p @ s)"
  using py_in_iff by (metis append_Nil)

text \<open>Prefixes of literals, decided character by character.\<close>

lemma is_prefix_lit:
  "is_prefix (lit (c # a)) (lit (d # b)) \<longleftrightarrow> c = d \<and> is_prefix (lit a) (lit b)"
  "is_prefix (lit (c # a)) (lit (d # b) @ x) \<longleftrightarrow> c = d \<and> is_prefix (lit a) (lit b @ x)"
  "is_prefix (lit []) s"
  by (simp_all add: lit_def of_char_int_inj)

text \<open>\<open>s.partition\<close>-like: the text before and after the first occurrence of \<open>sub\<close>.\<close>

fun split_first :: "str \<Rightarrow> str \<Rightarrow> (str \<times> str) option" where
  "split_first sub [] = (if sub = [] then Some ([], []) else None)"
| "split_first sub (c # cs) =
     (if is_prefix sub (c # cs) then Some ([], drop (length sub) (c # cs))
      else map_option (\<lambda>(p, q). (c # p, q)) (split_first sub cs))"

lemma split_first_Some: "split_first sub s = Some (p, q) \<Longrightarrow> s = p @ sub @ q"
proof (induction sub s arbitrary: p rule: split_first.induct)
  case (2 sub c cs)
  then show ?case
    by (auto simp: is_prefix_ex split: if_splits)
qed (simp split: if_splits)

lemma split_first_None: "split_first sub s = None \<longleftrightarrow> \<not> py_in sub s"
  by (induction sub s rule: split_first.induct) auto

lemma split_first_length: "split_first sub s = Some (p, q) \<Longrightarrow> length q + length sub \<le> length s"
  by (drule split_first_Some) simp

function count_nonempty :: "str \<Rightarrow> str \<Rightarrow> nat" where
  "count_nonempty sub s =
     (if sub = [] then 0
      else case split_first sub s of None \<Rightarrow> 0 | Some (p, q) \<Rightarrow> Suc (count_nonempty sub q))"
  by pat_completeness auto
termination
  by (relation "measure (\<lambda>(sub, s). length s)")
     (auto dest!: split_first_length simp flip: length_greater_0_conv)

declare count_nonempty.simps [simp del]

definition py_count :: "str \<Rightarrow> str \<Rightarrow> nat" where
  \<comment> \<open>\<open>s.count(sub)\<close>: non-overlapping occurrences; an empty \<open>sub\<close> counts every gap\<close>
  "py_count sub s = (if sub = [] then length s + 1 else count_nonempty sub s)"

definition py_replace_first :: "str \<Rightarrow> str \<Rightarrow> str \<Rightarrow> str" where
  \<comment> \<open>\<open>s.replace(old, new, 1)\<close>\<close>
  "py_replace_first s old new =
     (case split_first old s of None \<Rightarrow> s | Some (p, q) \<Rightarrow> p @ new @ q)"

definition py_replace_char :: "int \<Rightarrow> str \<Rightarrow> str \<Rightarrow> str" where
  \<comment> \<open>\<open>s.replace(c, new)\<close> for a single character \<open>c\<close>\<close>
  "py_replace_char c new s = concat (map (\<lambda>x. if x = c then new else [x]) s)"

lemma count_nonempty_pos: "sub \<noteq> [] \<Longrightarrow> 0 < count_nonempty sub s \<longleftrightarrow> py_in sub s"
  using split_first_None [of sub s]
  by (subst count_nonempty.simps) (auto split: option.splits)

lemma py_count_one:
  assumes "py_count old s = 1"
  obtains p q where "split_first old s = Some (p, q)" and "s = p @ old @ q"
    and "old \<noteq> [] \<Longrightarrow> \<not> py_in old q"
proof (cases "old = []")
  case True
  with assms have "s = []" by (simp add: py_count_def)
  with True that show ?thesis by simp
next
  case False
  with assms have c: "count_nonempty old s = 1" by (simp add: py_count_def)
  then obtain p q where pq: "split_first old s = Some (p, q)"
    and "count_nonempty old q = 0"
    using False by (subst (asm) count_nonempty.simps) (auto split: option.splits)
  then have "\<not> py_in old q" using count_nonempty_pos [OF False, of q] by simp
  with pq split_first_Some [OF pq] that show ?thesis by blast
qed

section \<open>Joining, splitting, stripping\<close>

fun py_join :: "str \<Rightarrow> str list \<Rightarrow> str" where
  "py_join sep [] = []"
| "py_join sep [s] = s"
| "py_join sep (s # t # ts) = s @ sep @ py_join sep (t # ts)"

text \<open>The code points at which \<open>str.splitlines\<close> breaks, and those \<open>str.strip\<close> removes.\<close>

definition is_linebreak :: "int \<Rightarrow> bool" where
  "is_linebreak c \<longleftrightarrow> (10 \<le> c \<and> c \<le> 13) \<or> (28 \<le> c \<and> c \<le> 30) \<or> c = 133 \<or> c = 8232 \<or> c = 8233"

definition is_space :: "int \<Rightarrow> bool" where
  "is_space c \<longleftrightarrow> (9 \<le> c \<and> c \<le> 13) \<or> (28 \<le> c \<and> c \<le> 32) \<or> c = 133 \<or> c = 160 \<or> c = 5760
     \<or> (8192 \<le> c \<and> c \<le> 8202) \<or> c = 8232 \<or> c = 8233 \<or> c = 8239 \<or> c = 8287 \<or> c = 12288"

function py_splitlines :: "str \<Rightarrow> str list" where
  "py_splitlines [] = []"
| "py_splitlines (c # cs) =
     (if is_linebreak c
      then [] # py_splitlines (if c = 13 \<and> is_prefix [10] cs then tl cs else cs)
      else case py_splitlines cs of [] \<Rightarrow> [[c]] | l # ls \<Rightarrow> (c # l) # ls)"
  by pat_completeness auto
termination
  by (relation "measure length") (auto simp: less_Suc_eq_le diff_le_self)

definition py_strip :: "str \<Rightarrow> str" where
  "py_strip s = rev (dropWhile is_space (rev (dropWhile is_space s)))"

definition py_rstrip_char :: "int \<Rightarrow> str \<Rightarrow> str" where
  "py_rstrip_char c s = rev (dropWhile (\<lambda>x. x = c) (rev s))"

function py_split :: "str \<Rightarrow> str list" where
  \<comment> \<open>\<open>s.split()\<close>\<close>
  "py_split s =
     (case dropWhile is_space s of
        [] \<Rightarrow> []
      | c # cs \<Rightarrow> takeWhile (\<lambda>x. \<not> is_space x) (c # cs)
                   # py_split (dropWhile (\<lambda>x. \<not> is_space x) cs))"
  by pat_completeness auto
termination
proof (relation "measure length", goal_cases)
  case (2 s c cs)
  have "length (dropWhile is_space s) \<le> length s" by (rule length_dropWhile_le)
  moreover have "length (dropWhile (\<lambda>x. \<not> is_space x) cs) \<le> length cs" by (rule length_dropWhile_le)
  ultimately show ?case using 2 by simp
qed simp

declare py_split.simps [simp del]

definition py_rsplit_last :: "int \<Rightarrow> str \<Rightarrow> str" where
  \<comment> \<open>\<open>s.rsplit(c, 1)[-1]\<close>\<close>
  "py_rsplit_last c s = rev (takeWhile (\<lambda>x. x \<noteq> c) (rev s))"

text \<open>
  \<open>int(s)\<close> for text over ASCII digits (Python also accepts the other Unicode decimal digits,
  which no modelled caller produces): surrounding blanks, a sign, digits with single
  underscores between them.
\<close>

definition is_digit :: "int \<Rightarrow> bool" where
  "is_digit c \<longleftrightarrow> 48 \<le> c \<and> c \<le> 57"

fun digits_value :: "int \<Rightarrow> str \<Rightarrow> int option" where
  "digits_value acc [] = Some acc"
| "digits_value acc (c # cs) =
     (if is_digit c then digits_value (10 * acc + (c - 48)) cs
      else if c = 95 then
        (case cs of d # ds \<Rightarrow> if is_digit d then digits_value (10 * acc + (d - 48)) ds else None
                  | [] \<Rightarrow> None)
      else None)"

definition py_int :: "str \<Rightarrow> int option" where
  "py_int s =
     (case py_strip s of
        [] \<Rightarrow> None
      | c # cs \<Rightarrow>
          (let (sgn, ds) = (if c = 45 then (-1, cs) else if c = 43 then (1, cs) else (1, c # cs))
           in case ds of
                [] \<Rightarrow> None
              | d # rest \<Rightarrow> if is_digit d then map_option (\<lambda>v. sgn * v) (digits_value 0 ds) else None))"

lemma py_in_join: "l \<in> set ls \<Longrightarrow> py_in p l \<Longrightarrow> py_in p (py_join sep ls)"
proof (induction sep ls rule: py_join.induct)
  case (3 sep x y ys)
  then show ?case
    using py_in_append [of p x "[]"] py_in_append [of p "py_join sep (y # ys)" "x @ sep" "[]"] by auto
qed auto

lemma py_join_Nil_iff: "py_join sep xs = [] \<Longrightarrow> xs = [] \<or> xs = [[]] \<or> (\<forall>x \<in> set xs. x = [])"
  by (induction sep xs rule: py_join.induct) auto

lemma set_py_join: "set (py_join sep xs) \<subseteq> set sep \<union> \<Union> (set ` set xs)"
  by (induction sep xs rule: py_join.induct) auto

lemma splitlines_no_break: "l \<in> set (py_splitlines s) \<Longrightarrow> c \<in> set l \<Longrightarrow> \<not> is_linebreak c"
proof (induction s arbitrary: l c rule: py_splitlines.induct)
  case (2 x xs)
  show ?case
  proof (cases "is_linebreak x")
    case True
    with 2 show ?thesis by auto
  next
    case False
    with 2 show ?thesis
      by (cases "py_splitlines xs") fastforce+
  qed
qed simp

lemma count_join_newlines:
  assumes "\<And>l. l \<in> set ls \<Longrightarrow> x \<notin> set l"
  shows "length (filter (\<lambda>c. c = x) (py_join [x] ls)) = length ls - 1"
  using assms
proof (induction "[x]" ls rule: py_join.induct)
  case (3 s t ts)
  have "filter (\<lambda>c. c = x) s = []" using 3(2) by (auto simp: filter_empty_conv)
  with 3 show ?case by simp
next
  case (2 s)
  then show ?case by (auto simp: filter_empty_conv)
qed simp

end
