(* ===== verification/State.thy ===== *)
theory State
  imports Py_Str
begin

text \<open>
  The data of \<open>syndicate/state.py\<close>: the two status enums, \<open>DecisionSummary\<close>, the issue and
  the agent state, and the dynamically typed Python values that travel in tickets, tool inputs
  and event payloads. A node of the graph returns a partial state; it is a list of \<open>update\<close>s in
  the order in which the node's dict literal has its keys, and \<open>merge\<close> overwrites the keys
  that are present, as \<open>state.update(result)\<close> does in the scripts and tests.
\<close>

section \<open>Enums and DecisionSummary\<close>

datatype ticket_status = PENDING | IN_PROGRESS | LOCAL_PASS | DONE | ESCALATED

datatype run_status = RUNNING | HALTED_ESCALATION_BUDGET

fun ticket_status_value :: "ticket_status \<Rightarrow> str" where
  "ticket_status_value PENDING = lit ''pending''"
| "ticket_status_value IN_PROGRESS = lit ''in_progress''"
| "ticket_status_value LOCAL_PASS = lit ''local_pass''"
| "ticket_status_value DONE = lit ''done''"
| "ticket_status_value ESCALATED = lit ''escalated''"

fun run_status_value :: "run_status \<Rightarrow> str" where
  "run_status_value RUNNING = lit ''running''"
| "run_status_value HALTED_ESCALATION_BUDGET = lit ''halted_escalation_budget''"

instantiation ticket_status :: enum
begin
definition "enum_class.enum = [PENDING, IN_PROGRESS, LOCAL_PASS, DONE, ESCALATED]"
definition "enum_class.enum_all P \<longleftrightarrow> P PENDING \<and> P IN_PROGRESS \<and> P LOCAL_PASS \<and> P DONE \<and> P ESCALATED"
definition "enum_class.enum_ex P \<longleftrightarrow> P PENDING \<or> P IN_PROGRESS \<or> P LOCAL_PASS \<or> P DONE \<or> P ESCALATED"
instance
proof
  have all: "s \<in> set [PENDING, IN_PROGRESS, LOCAL_PASS, DONE, ESCALATED]" for s
    by (cases s) simp_all
  show "(UNIV :: ticket_status set) = set enum_class.enum"
    using all by (auto simp: enum_ticket_status_def)
  show "distinct (enum_class.enum :: ticket_status list)"
    by (simp add: enum_ticket_status_def)
  show "enum_class.enum_all P = Ball UNIV P" for P :: "ticket_status \<Rightarrow> bool"
    unfolding enum_all_ticket_status_def by (metis UNIV_I ticket_status.exhaust)
  show "enum_class.enum_ex P = Bex UNIV P" for P :: "ticket_status \<Rightarrow> bool"
    unfolding enum_ex_ticket_status_def by (metis UNIV_I ticket_status.exhaust)
qed
end

lemma ticket_status_value_inj: "ticket_status_value a = ticket_status_value b \<longleftrightarrow> a = b"
  by (cases a; cases b) simp_all

record decision_summary =
  summary :: str
  attempt_count :: int

section \<open>Python values\<close>

text \<open>
  What \<open>Any\<close> ranges over on the modelled paths: JSON values, the two enums and
  \<open>DecisionSummary\<close>. A float is carried as its numeral. A dict is an association list in
  insertion order.
\<close>

datatype pyval =
    PNone
  | PBool bool
  | PInt int
  | PFloat str
  | PStr str
  | PList "pyval list"
  | PDict "(str \<times> pyval) list"
  | PTicketStatus ticket_status
  | PRunStatus run_status
  | PSummary decision_summary

type_synonym dict = "(str \<times> pyval) list"

definition dget :: "dict \<Rightarrow> string \<Rightarrow> pyval" where
  \<comment> \<open>\<open>d.get(k)\<close>\<close>
  "dget d k = (case map_of d (lit k) of None \<Rightarrow> PNone | Some v \<Rightarrow> v)"

definition ditem :: "dict \<Rightarrow> string \<Rightarrow> exc + pyval" where
  \<comment> \<open>\<open>d[k]\<close>: a missing key raises \<open>KeyError\<close>\<close>
  "ditem d k = (case map_of d (lit k) of None \<Rightarrow> Inl (KeyError ([39] @ lit k @ [39])) | Some v \<Rightarrow> Inr v)"

fun truthy :: "pyval \<Rightarrow> bool" where
  "truthy PNone = False"
| "truthy (PBool b) = b"
| "truthy (PInt i) = (i \<noteq> 0)"
| "truthy (PFloat t) = list_ex (\<lambda>c. 49 \<le> c \<and> c \<le> 57 \<or> c = 78 \<or> c = 73) (takeWhile (\<lambda>c. c \<noteq> 101 \<and> c \<noteq> 69) t)"
| "truthy (PStr s) = (s \<noteq> [])"
| "truthy (PList xs) = (xs \<noteq> [])"
| "truthy (PDict d) = (d \<noteq> [])"
| "truthy (PTicketStatus _) = True"
| "truthy (PRunStatus _) = True"
| "truthy (PSummary _) = True"

definition py_or :: "pyval \<Rightarrow> pyval \<Rightarrow> pyval" where
  "py_or a b = (if truthy a then a else b)"

text \<open>
  \<open>repr\<close> and \<open>str\<close>. Whether a code point beyond Latin-1 is printable is the interpreter's
  Unicode table, the parameter \<open>P\<close>.
\<close>

definition is_printable :: "(int \<Rightarrow> bool) \<Rightarrow> int \<Rightarrow> bool" where
  "is_printable P c \<longleftrightarrow>
     (if c < 32 then False else if c < 127 then True else if c < 161 then False
      else if c < 256 then c \<noteq> 173 else P c)"

definition hex_nibble :: "int \<Rightarrow> int \<Rightarrow> int" where
  \<comment> \<open>the \<open>n\<close>-th hexadecimal digit of \<open>c\<close>, as a code point\<close>
  "hex_nibble c n = (let d = c div 16 ^ nat n mod 16 in if d < 10 then 48 + d else 87 + d)"

definition repr_char :: "(int \<Rightarrow> bool) \<Rightarrow> int \<Rightarrow> int \<Rightarrow> str" where
  "repr_char P q c =
     (if c = q \<or> c = 92 then [92, c]
      else if c = 9 then lit [CHR 0x5C, CHR ''t'']
      else if c = 10 then lit [CHR 0x5C, CHR ''n'']
      else if c = 13 then lit [CHR 0x5C, CHR ''r'']
      else if is_printable P c then [c]
      else if c < 256 then [92, 120] @ map (hex_nibble c) [1, 0]
      else if c < 65536 then [92, 117] @ map (hex_nibble c) [3, 2, 1, 0]
      else [92, 85] @ map (hex_nibble c) [7, 6, 5, 4, 3, 2, 1, 0])"

definition str_repr :: "(int \<Rightarrow> bool) \<Rightarrow> str \<Rightarrow> str" where
  "str_repr P s =
     (let q = (if 39 \<in> set s \<and> 34 \<notin> set s then 34 else 39)
      in [q] @ concat (map (repr_char P q) s) @ [q])"

fun enum_repr :: "pyval \<Rightarrow> str" where
  "enum_repr (PTicketStatus s) =
     lit ''<TicketStatus.'' @ map (\<lambda>c. if 97 \<le> c then c - 32 else c) (ticket_status_value s)
     @ lit '': '' @ [39] @ ticket_status_value s @ [39] @ lit ''>''"
| "enum_repr (PRunStatus s) =
     lit ''<RunStatus.'' @ map (\<lambda>c. if 97 \<le> c then c - 32 else c) (run_status_value s)
     @ lit '': '' @ [39] @ run_status_value s @ [39] @ lit ''>''"
| "enum_repr _ = []"

text \<open>
  In the enum's \<open>repr\<close> the member name is the upper-case form of its value; \<open>_\<close> (code point 95)
  lies below 97 and is kept.
\<close>

fun py_repr :: "(int \<Rightarrow> bool) \<Rightarrow> pyval \<Rightarrow> str"
and py_repr_list :: "(int \<Rightarrow> bool) \<Rightarrow> pyval list \<Rightarrow> str list"
and py_repr_items :: "(int \<Rightarrow> bool) \<Rightarrow> dict \<Rightarrow> str list" where
  "py_repr P PNone = lit ''None''"
| "py_repr P (PBool b) = (if b then lit ''True'' else lit ''False'')"
| "py_repr P (PInt i) = int_str i"
| "py_repr P (PFloat t) = t"
| "py_repr P (PStr s) = str_repr P s"
| "py_repr P (PList xs) = lit ''['' @ py_join (lit '', '') (py_repr_list P xs) @ lit '']''"
| "py_repr P (PDict d) = lit ''{'' @ py_join (lit '', '') (py_repr_items P d) @ lit ''}''"
| "py_repr P (PTicketStatus s) = enum_repr (PTicketStatus s)"
| "py_repr P (PRunStatus s) = enum_repr (PRunStatus s)"
| "py_repr P (PSummary d) = lit ''DecisionSummary(summary='' @ str_repr P (summary d)
     @ lit '', attempt_count='' @ int_str (attempt_count d) @ lit '')''"
| "py_repr_list P [] = []"
| "py_repr_list P (x # xs) = py_repr P x # py_repr_list P xs"
| "py_repr_items P [] = []"
| "py_repr_items P ((k, v) # d) = (str_repr P k @ lit '': '' @ py_repr P v) # py_repr_items P d"

fun enum_str :: "pyval \<Rightarrow> str" where
  "enum_str (PTicketStatus s) =
     lit ''TicketStatus.'' @ map (\<lambda>c. if 97 \<le> c then c - 32 else c) (ticket_status_value s)"
| "enum_str (PRunStatus s) =
     lit ''RunStatus.'' @ map (\<lambda>c. if 97 \<le> c then c - 32 else c) (run_status_value s)"
| "enum_str _ = []"

fun py_str :: "(int \<Rightarrow> bool) \<Rightarrow> pyval \<Rightarrow> str" where
  \<comment> \<open>\<open>str(v)\<close>, also what an f-string inserts\<close>
  "py_str P (PStr s) = s"
| "py_str P (PTicketStatus s) = enum_str (PTicketStatus s)"
| "py_str P (PRunStatus s) = enum_str (PRunStatus s)"
| "py_str P v = py_repr P v"

text \<open>\<open>for x in v\<close>: lists give their elements, strings their characters, dicts their keys.\<close>

fun py_iter :: "pyval \<Rightarrow> exc + pyval list" where
  "py_iter (PList xs) = Inr xs"
| "py_iter (PStr s) = Inr (map (\<lambda>c. PStr [c]) s)"
| "py_iter (PDict d) = Inr (map (\<lambda>(k, v). PStr k) d)"
| "py_iter (PTicketStatus s) = Inr (map (\<lambda>c. PStr [c]) (ticket_status_value s))"
| "py_iter (PRunStatus s) = Inr (map (\<lambda>c. PStr [c]) (run_status_value s))"
| "py_iter _ = Inl (TypeError (lit ''object is not iterable''))"

section \<open>The issue and the agent state\<close>

text \<open>\<open>TypedDict(total=False)\<close>: every key may be absent, so every field is an option.\<close>

record github_issue =
  gi_repo :: "str option"
  gi_number :: "int option"
  gi_title :: "str option"
  gi_body :: "str option"
  gi_workspace_dir :: "str option"

record agent_state =
  issue :: "github_issue option"
  issue_analysis :: "dict option"
  active_ticket :: "dict option"
  attempt_log :: "str list option"
  decision_ledger :: "decision_summary list option"
  ticket_status :: "ticket_status option"
  last_validation_passed :: "bool option"
  strike_count :: "int option"
  validation_diagnosis :: "str option option"
  escalation_count :: "int option"
  run_status :: "run_status option"

definition empty_state :: agent_state where
  "empty_state = \<lparr>issue = None, issue_analysis = None, active_ticket = None, attempt_log = None,
     decision_ledger = None, ticket_status = None, last_validation_passed = None,
     strike_count = None, validation_diagnosis = None, escalation_count = None, run_status = None\<rparr>"

text \<open>The reads \<open>state.get(k) or default\<close> that the nodes share.\<close>

definition ticket_of :: "agent_state \<Rightarrow> dict" where
  "ticket_of s = (case active_ticket s of None \<Rightarrow> [] | Some t \<Rightarrow> t)"

definition log_of :: "agent_state \<Rightarrow> str list" where
  "log_of s = (case attempt_log s of None \<Rightarrow> [] | Some l \<Rightarrow> l)"

definition ledger_of :: "agent_state \<Rightarrow> decision_summary list" where
  "ledger_of s = (case decision_ledger s of None \<Rightarrow> [] | Some l \<Rightarrow> l)"

definition strikes :: "agent_state \<Rightarrow> int" where
  "strikes s = (case strike_count s of None \<Rightarrow> 0 | Some n \<Rightarrow> n)"

definition escalations :: "agent_state \<Rightarrow> int" where
  "escalations s = (case escalation_count s of None \<Rightarrow> 0 | Some n \<Rightarrow> n)"

definition feedback_of :: "agent_state \<Rightarrow> str option" where
  "feedback_of s = (case validation_diagnosis s of None \<Rightarrow> None | Some d \<Rightarrow> d)"

definition validated :: "agent_state \<Rightarrow> bool" where
  "validated s = (last_validation_passed s = Some True)"

section \<open>Updates\<close>

datatype update =
    Set_issue_analysis dict
  | Set_active_ticket dict
  | Set_attempt_log "str list"
  | Set_decision_ledger "decision_summary list"
  | Set_ticket_status ticket_status
  | Set_last_validation_passed bool
  | Set_strike_count int
  | Set_validation_diagnosis "str option"
  | Set_escalation_count int
  | Set_run_status run_status

type_synonym delta = "update list"

fun apply_update :: "agent_state \<Rightarrow> update \<Rightarrow> agent_state" where
  "apply_update s (Set_issue_analysis d) = s\<lparr>issue_analysis := Some d\<rparr>"
| "apply_update s (Set_active_ticket d) = s\<lparr>active_ticket := Some d\<rparr>"
| "apply_update s (Set_attempt_log l) = s\<lparr>attempt_log := Some l\<rparr>"
| "apply_update s (Set_decision_ledger l) = s\<lparr>decision_ledger := Some l\<rparr>"
| "apply_update s (Set_ticket_status t) = s\<lparr>ticket_status := Some t\<rparr>"
| "apply_update s (Set_last_validation_passed b) = s\<lparr>last_validation_passed := Some b\<rparr>"
| "apply_update s (Set_strike_count n) = s\<lparr>strike_count := Some n\<rparr>"
| "apply_update s (Set_validation_diagnosis d) = s\<lparr>validation_diagnosis := Some d\<rparr>"
| "apply_update s (Set_escalation_count n) = s\<lparr>escalation_count := Some n\<rparr>"
| "apply_update s (Set_run_status r) = s\<lparr>run_status := Some r\<rparr>"

definition merge :: "agent_state \<Rightarrow> delta \<Rightarrow> agent_state" where
  "merge s d = foldl apply_update s d"

fun update_item :: "update \<Rightarrow> str \<times> pyval" where
  "update_item (Set_issue_analysis d) = (lit ''issue_analysis'', PDict d)"
| "update_item (Set_active_ticket d) = (lit ''active_ticket'', PDict d)"
| "update_item (Set_attempt_log l) = (lit ''attempt_log'', PList (map PStr l))"
| "update_item (Set_decision_ledger l) = (lit ''decision_ledger'', PList (map PSummary l))"
| "update_item (Set_ticket_status t) = (lit ''ticket_status'', PTicketStatus t)"
| "update_item (Set_last_validation_passed b) = (lit ''last_validation_passed'', PBool b)"
| "update_item (Set_strike_count n) = (lit ''strike_count'', PInt n)"
| "update_item (Set_validation_diagnosis d) =
     (lit ''validation_diagnosis'', case d of None \<Rightarrow> PNone | Some t \<Rightarrow> PStr t)"
| "update_item (Set_escalation_count n) = (lit ''escalation_count'', PInt n)"
| "update_item (Set_run_status r) = (lit ''run_status'', PRunStatus r)"

definition delta_dict :: "delta \<Rightarrow> dict" where
  "delta_dict d = map update_item d"

lemma merge_Nil [simp]: "merge s [] = s"
  by (simp add: merge_def)

lemma merge_Cons [simp]: "merge s (u # d) = merge (apply_update s u) d"
  by (simp add: merge_def)

lemma merge_append: "merge s (d @ e) = merge (merge s d) e"
  by (simp add: merge_def)

lemmas state_reads = ticket_of_def log_of_def ledger_of_def strikes_def escalations_def
  feedback_of_def validated_def

text \<open>
  The updates that concern the current ticket only. A node whose delta consists of these leaves
  the issue, the analysis, the ticket itself, the ledger and the run-wide fields alone.
\<close>

fun is_ticket_update :: "update \<Rightarrow> bool" where
  "is_ticket_update (Set_attempt_log _) = True"
| "is_ticket_update (Set_ticket_status _) = True"
| "is_ticket_update (Set_last_validation_passed _) = True"
| "is_ticket_update (Set_strike_count _) = True"
| "is_ticket_update (Set_validation_diagnosis _) = True"
| "is_ticket_update _ = False"

lemma apply_ticket_update:
  assumes "is_ticket_update u"
  shows "issue (apply_update s u) = issue s" "issue_analysis (apply_update s u) = issue_analysis s"
    "active_ticket (apply_update s u) = active_ticket s"
    "decision_ledger (apply_update s u) = decision_ledger s"
    "escalation_count (apply_update s u) = escalation_count s"
    "run_status (apply_update s u) = run_status s"
  using assms by (cases u; simp)+

lemma merge_ticket_updates:
  assumes "list_all is_ticket_update d"
  shows "issue (merge s d) = issue s" "issue_analysis (merge s d) = issue_analysis s"
    "active_ticket (merge s d) = active_ticket s"
    "decision_ledger (merge s d) = decision_ledger s"
    "escalation_count (merge s d) = escalation_count s"
    "run_status (merge s d) = run_status s"
  using assms by (induction d arbitrary: s) (simp_all add: apply_ticket_update)

lemma ticket_status_value_not_empty: "ticket_status_value s \<noteq> []"
  by (cases s) simp_all

end
