(* ===== verification/Utf8.thy ===== *)
theory Utf8
  imports Py_Str
begin

text \<open>
  Python's UTF-8 codec as the source uses it: \<open>s.encode()\<close> (strict: a surrogate raises) and
  \<open>b.decode(errors='replace')\<close>, which puts one U+FFFD for every maximal ill-formed part. The
  lemmas are the round trip and what decoding a byte suffix of well-formed text gives, which is
  what truncating a diagnosis by bytes does.
\<close>

section \<open>Encoding\<close>

definition is_surrogate :: "int \<Rightarrow> bool" where
  "is_surrogate c \<longleftrightarrow> 55296 \<le> c \<and> c \<le> 57343"

definition is_scalar :: "int \<Rightarrow> bool" where
  "is_scalar c \<longleftrightarrow> 0 \<le> c \<and> c \<le> 1114111 \<and> \<not> is_surrogate c"

definition enc1 :: "int \<Rightarrow> int list" where
  "enc1 c =
     (if c < 128 then [c]
      else if c < 2048 then [192 + c div 64, 128 + c mod 64]
      else if c < 65536 then [224 + c div 4096, 128 + c div 64 mod 64, 128 + c mod 64]
      else [240 + c div 262144, 128 + c div 4096 mod 64, 128 + c div 64 mod 64, 128 + c mod 64])"

definition utf8_bytes :: "str \<Rightarrow> int list" where
  "utf8_bytes s = concat (map enc1 s)"

definition hex_digit :: "int \<Rightarrow> int" where
  "hex_digit d = (if d < 10 then 48 + d else 87 + d)"

definition hex4 :: "int \<Rightarrow> str" where
  "hex4 c = [hex_digit (c div 4096 mod 16), hex_digit (c div 256 mod 16),
             hex_digit (c div 16 mod 16), hex_digit (c mod 16)]"

definition surrogate_error :: "str \<Rightarrow> exc" where
  "surrogate_error s =
     (let i = length (takeWhile (\<lambda>c. \<not> is_surrogate c) s);
          run = takeWhile is_surrogate (drop i s)
      in UnicodeEncodeError
           (if length run = 1
            then [39] @ lit ''utf-8'' @ [39] @ lit '' codec can'' @ [39] @ lit ''t encode character ''
                 @ [39, 92, 117] @ hex4 (hd run) @ [39]
                 @ lit '' in position '' @ int_str (int i) @ lit '': surrogates not allowed''
            else [39] @ lit ''utf-8'' @ [39] @ lit '' codec can'' @ [39]
                 @ lit ''t encode characters in position '' @ int_str (int i)
                 @ lit ''-'' @ int_str (int i + int (length run) - 1)
                 @ lit '': surrogates not allowed''))"

definition py_encode :: "str \<Rightarrow> exc + int list" where
  "py_encode s = (if list_ex is_surrogate s then Inl (surrogate_error s) else Inr (utf8_bytes s))"

section \<open>Decoding with replacement\<close>

definition is_cont :: "int \<Rightarrow> bool" where
  "is_cont b \<longleftrightarrow> 128 \<le> b \<and> b \<le> 191"

definition second_ok :: "int \<Rightarrow> int \<Rightarrow> bool" where
  "second_ok b0 b1 \<longleftrightarrow>
     is_cont b1 \<and> (b0 = 224 \<longrightarrow> 160 \<le> b1) \<and> (b0 = 237 \<longrightarrow> b1 \<le> 159)
     \<and> (b0 = 240 \<longrightarrow> 144 \<le> b1) \<and> (b0 = 244 \<longrightarrow> b1 \<le> 143)"

definition replacement :: int where
  "replacement = 65533"

text \<open>One decoding step: the code point (or U+FFFD) and the number of bytes it takes.\<close>

fun utf8_next :: "int list \<Rightarrow> int \<times> nat" where
  "utf8_next [] = (replacement, 1)"
| "utf8_next (b0 # bs) =
     (if b0 < 128 then (b0, 1)
      else if 194 \<le> b0 \<and> b0 \<le> 223 then
        (case bs of
           b1 # _ \<Rightarrow> if is_cont b1 then ((b0 - 192) * 64 + (b1 - 128), 2) else (replacement, 1)
         | [] \<Rightarrow> (replacement, 1))
      else if 224 \<le> b0 \<and> b0 \<le> 239 then
        (case bs of
           b1 # bs1 \<Rightarrow>
             if \<not> second_ok b0 b1 then (replacement, 1)
             else (case bs1 of
                     b2 # _ \<Rightarrow> if is_cont b2
                       then ((b0 - 224) * 4096 + (b1 - 128) * 64 + (b2 - 128), 3)
                       else (replacement, 2)
                   | [] \<Rightarrow> (replacement, 2))
         | [] \<Rightarrow> (replacement, 1))
      else if 240 \<le> b0 \<and> b0 \<le> 244 then
        (case bs of
           b1 # bs1 \<Rightarrow>
             if \<not> second_ok b0 b1 then (replacement, 1)
             else (case bs1 of
                     b2 # bs2 \<Rightarrow>
                       if \<not> is_cont b2 then (replacement, 2)
                       else (case bs2 of
                               b3 # _ \<Rightarrow> if is_cont b3
                                 then ((b0 - 240) * 262144 + (b1 - 128) * 4096
                                       + (b2 - 128) * 64 + (b3 - 128), 4)
                                 else (replacement, 3)
                             | [] \<Rightarrow> (replacement, 3))
                   | [] \<Rightarrow> (replacement, 2))
         | [] \<Rightarrow> (replacement, 1))
      else (replacement, 1))"

declare utf8_next.simps [simp del]

function py_decode_replace :: "int list \<Rightarrow> str" where
  "py_decode_replace [] = []"
| "py_decode_replace (b # bs) =
     (case utf8_next (b # bs) of (c, n) \<Rightarrow> c # py_decode_replace (drop (n - 1) bs))"
  by pat_completeness auto
termination
  by (relation "measure length") (auto simp: less_Suc_eq_le)

section \<open>The codec's laws\<close>

lemma length_enc1: "1 \<le> length (enc1 c) \<and> length (enc1 c) \<le> 4"
  by (simp add: enc1_def)

lemma enc1_nonempty [simp]: "enc1 c \<noteq> []"
  by (simp add: enc1_def)

lemma utf8_bytes_simps [simp]:
  "utf8_bytes [] = []"
  "utf8_bytes (c # s) = enc1 c @ utf8_bytes s"
  "utf8_bytes (s @ t) = utf8_bytes s @ utf8_bytes t"
  by (simp_all add: utf8_bytes_def)

lemma div_4096: "(c::int) div 4096 = c div 64 div 64"
  by (simp add: zdiv_zmult2_eq [of 64 c 64, simplified])

lemma div_262144: "(c::int) div 262144 = c div 64 div 64 div 64"
  by (simp add: zdiv_zmult2_eq [of 4096 c 64, simplified] div_4096)

lemma utf8_next_2:
  "2 \<le> q \<Longrightarrow> q \<le> 31 \<Longrightarrow> 0 \<le> r \<Longrightarrow> r < 64 \<Longrightarrow>
   utf8_next ([192 + q, 128 + r] @ rest) = (64 * q + r, 2)"
  by (simp add: utf8_next.simps is_cont_def)

lemma utf8_next_3:
  "0 \<le> q \<Longrightarrow> q \<le> 15 \<Longrightarrow> 0 \<le> r1 \<Longrightarrow> r1 < 64 \<Longrightarrow> 0 \<le> r0 \<Longrightarrow> r0 < 64 \<Longrightarrow>
   (q = 0 \<longrightarrow> 32 \<le> r1) \<Longrightarrow> (q = 13 \<longrightarrow> r1 \<le> 31) \<Longrightarrow>
   utf8_next ([224 + q, 128 + r1, 128 + r0] @ rest) = (4096 * q + 64 * r1 + r0, 3)"
  by (simp add: utf8_next.simps is_cont_def second_ok_def)

lemma utf8_next_4:
  "0 \<le> q \<Longrightarrow> q \<le> 4 \<Longrightarrow> 0 \<le> r2 \<Longrightarrow> r2 < 64 \<Longrightarrow> 0 \<le> r1 \<Longrightarrow> r1 < 64 \<Longrightarrow> 0 \<le> r0 \<Longrightarrow> r0 < 64 \<Longrightarrow>
   (q = 0 \<longrightarrow> 16 \<le> r2) \<Longrightarrow> (q = 4 \<longrightarrow> r2 \<le> 15) \<Longrightarrow>
   utf8_next ([240 + q, 128 + r2, 128 + r1, 128 + r0] @ rest)
     = (262144 * q + 4096 * r2 + 64 * r1 + r0, 4)"
  by (simp add: utf8_next.simps is_cont_def second_ok_def)

lemma div_mod_split:
  obtains q r where "(c::int) div 64 = q" and "c mod 64 = r" and "c = 64 * q + r"
    and "0 \<le> r" and "r < 64"
  using that [of "c div 64" "c mod 64"] by simp

lemma utf8_next_enc1:
  assumes "is_scalar c"
  shows "utf8_next (enc1 c @ rest) = (c, length (enc1 c))"
proof -
  obtain q1 r0 where e0: "c div 64 = q1" "c mod 64 = r0" "c = 64 * q1 + r0" "0 \<le> r0" "r0 < 64"
    by (rule div_mod_split)
  obtain q2 r1 where e1: "q1 div 64 = q2" "q1 mod 64 = r1" "q1 = 64 * q2 + r1" "0 \<le> r1" "r1 < 64"
    by (rule div_mod_split)
  obtain q3 r2 where e2: "q2 div 64 = q3" "q2 mod 64 = r2" "q2 = 64 * q3 + r2" "0 \<le> r2" "r2 < 64"
    by (rule div_mod_split)
  have c: "0 \<le> c" "c \<le> 1114111" "c < 55296 \<or> 57343 < c"
    using assms by (auto simp: is_scalar_def is_surrogate_def)
  have d: "c div 4096 = q2" "c div 262144 = q3"
    using e0(1) e1(1) e2(1) by (simp_all add: div_4096 div_262144)
  consider "c < 128" | "128 \<le> c" "c < 2048" | "2048 \<le> c" "c < 65536" | "65536 \<le> c"
    by linarith
  then show ?thesis
  proof cases
    case 1
    then show ?thesis by (simp add: enc1_def utf8_next.simps)
  next
    case 2
    then have en: "enc1 c = [192 + q1, 128 + r0]" by (simp add: enc1_def e0(1,2))
    have "2 \<le> q1" "q1 \<le> 31" using 2 e0(3-5) by linarith+
    from utf8_next_2 [OF this e0(4,5), of rest] show ?thesis
      unfolding en using e0(3) by simp
  next
    case 3
    then have en: "enc1 c = [224 + q2, 128 + r1, 128 + r0]"
      by (simp add: enc1_def d e0(1,2) e1(2))
    have "0 \<le> q2" "q2 \<le> 15" "q2 = 0 \<longrightarrow> 32 \<le> r1" "q2 = 13 \<longrightarrow> r1 \<le> 31"
      using 3 c e0(3-5) e1(3-5) by linarith+
    from utf8_next_3 [OF this(1,2) e1(4,5) e0(4,5) this(3,4), of rest] show ?thesis
      unfolding en using e0(3) e1(3) by simp
  next
    case 4
    then have en: "enc1 c = [240 + q3, 128 + r2, 128 + r1, 128 + r0]"
      by (simp add: enc1_def d e0(1,2) e1(2) e2(2))
    have "0 \<le> q3" "q3 \<le> 4" "q3 = 0 \<longrightarrow> 16 \<le> r2" "q3 = 4 \<longrightarrow> r2 \<le> 15"
      using 4 c e0(3-5) e1(3-5) e2(3-5) by linarith+
    from utf8_next_4 [OF this(1,2) e2(4,5) e1(4,5) e0(4,5) this(3,4), of rest] show ?thesis
      unfolding en using e0(3) e1(3) e2(3) by simp
  qed
qed

lemma decode_enc1:
  assumes "is_scalar c"
  shows "py_decode_replace (enc1 c @ rest) = c # py_decode_replace rest"
proof -
  obtain b bs where e: "enc1 c = b # bs" by (cases "enc1 c") auto
  with utf8_next_enc1 [OF assms, of rest] show ?thesis by simp
qed

lemma decode_utf8_bytes_append:
  "\<forall>c \<in> set s. is_scalar c \<Longrightarrow> py_decode_replace (utf8_bytes s @ rest) = s @ py_decode_replace rest"
  by (induction s) (simp_all add: decode_enc1)

lemma decode_utf8_bytes: "\<forall>c \<in> set s. is_scalar c \<Longrightarrow> py_decode_replace (utf8_bytes s) = s"
  using decode_utf8_bytes_append [of s "[]"] by simp

lemma decode_cont: "is_cont b \<Longrightarrow> py_decode_replace (b # bs) = replacement # py_decode_replace bs"
  by (simp add: utf8_next.simps is_cont_def)

lemma decode_conts:
  "\<forall>b \<in> set bs. is_cont b \<Longrightarrow>
   py_decode_replace (bs @ rest) = replicate (length bs) replacement @ py_decode_replace rest"
  by (induction bs) (simp_all add: decode_cont del: py_decode_replace.simps)

lemma enc1_tail_cont: "b \<in> set (tl (enc1 c)) \<Longrightarrow> is_cont b"
  by (auto simp: enc1_def is_cont_def split: if_splits)

lemma drop_enc1_cont: "0 < n \<Longrightarrow> b \<in> set (drop n (enc1 c)) \<Longrightarrow> is_cont b"
  by (rule enc1_tail_cont [of b c]) (cases n; auto simp: drop_Suc dest: in_set_dropD)

text \<open>
  Dropping bytes from the front of well-formed text and decoding with replacement gives a
  suffix of the text, preceded by at most three replacement characters.
\<close>

lemma decode_drop_bytes:
  assumes "\<forall>c \<in> set s. is_scalar c"
  obtains j t where "py_decode_replace (drop n (utf8_bytes s)) = replicate j replacement @ t"
    and "suffix t s" and "j \<le> 3" and "length (drop n (utf8_bytes s)) = j + length (utf8_bytes t)"
  using assms
proof (induction s arbitrary: n thesis)
  case Nil
  show ?case by (rule Nil.prems(1) [of 0 "[]"]) simp_all
next
  case (Cons c s)
  consider "length (enc1 c) \<le> n" | "n = 0" | "0 < n" "n < length (enc1 c)" by linarith
  then show ?case
  proof cases
    case 1
    obtain j t where
      "py_decode_replace (drop (n - length (enc1 c)) (utf8_bytes s)) = replicate j replacement @ t"
      "suffix t s" "j \<le> 3"
      "length (drop (n - length (enc1 c)) (utf8_bytes s)) = j + length (utf8_bytes t)"
      using Cons.IH [of "n - length (enc1 c)"] Cons.prems(2) by (metis list.set_intros(2))
    with 1 show ?thesis by (intro Cons.prems(1) [of j t]) (simp_all add: suffix_ConsI)
  next
    case 2
    then show ?thesis
      using decode_utf8_bytes [OF Cons.prems(2)] by (intro Cons.prems(1) [of 0 "c # s"]) simp_all
  next
    case 3
    let ?d = "drop n (enc1 c)"
    have "\<forall>b \<in> set ?d. is_cont b" using drop_enc1_cont [OF 3(1)] by blast
    moreover have "py_decode_replace (utf8_bytes s) = s"
      using Cons.prems(2) by (intro decode_utf8_bytes) simp
    ultimately have "py_decode_replace (drop n (utf8_bytes (c # s)))
                     = replicate (length ?d) replacement @ s"
      using 3 by (simp add: decode_conts)
    then show ?thesis
      using 3 length_enc1 [of c] by (intro Cons.prems(1) [of "length ?d" s]) (simp_all add: suffix_ConsI)
  qed
qed

lemma length_utf8_replicate: "length (utf8_bytes (replicate j replacement)) = 3 * j"
  by (induction j) (simp_all add: enc1_def replacement_def)

lemma length_utf8_ascii: "\<forall>c \<in> set s. c < 128 \<Longrightarrow> length (utf8_bytes s) = length s"
  by (induction s) (simp_all add: enc1_def)

lemma py_encode_scalar: "\<forall>c \<in> set s. is_scalar c \<Longrightarrow> py_encode s = Inr (utf8_bytes s)"
  by (auto simp: py_encode_def is_scalar_def list_ex_iff)

end
