(* ===== verification/Json.thy ===== *)
theory Json
  imports State Utf8
begin

text \<open>
  \<open>json.dumps\<close> with its default separators and \<open>ensure_ascii\<close>, and \<open>json.loads\<close>: whitespace,
  literals (with \<open>NaN\<close> and the infinities), numbers, strings with escapes and surrogate pairs,
  arrays and objects with the last value of a duplicated key. The parser takes fuel; the length
  of the text plus one is enough (\<open>json_fuel\<close>). The printer's output is ASCII, and printing a
  text inside a value at most doubles its length, which bounds what \<open>cap_payload\<close> can produce.
\<close>

section \<open>dumps\<close>

definition json_u :: "int \<Rightarrow> str" where
  "json_u c = [92, 117] @ hex4 c"

definition json_esc :: "int \<Rightarrow> str" where
  "json_esc c =
     (if c = 34 then [92, 34] else if c = 92 then [92, 92]
      else if c = 10 then [92, 110] else if c = 13 then [92, 114] else if c = 9 then [92, 116]
      else if c = 12 then [92, 102] else if c = 8 then [92, 98]
      else if 32 \<le> c \<and> c \<le> 126 then [c]
      else if c < 65536 then json_u c
      else json_u (55296 + (c - 65536) div 1024) @ json_u (56320 + (c - 65536) mod 1024))"

definition json_str :: "str \<Rightarrow> str" where
  "json_str s = [34] @ concat (map json_esc s) @ [34]"

text \<open>
  \<open>DecisionSummary\<close> is not serialisable by itself: \<open>default=str\<close> turns it into its \<open>repr\<close>.
\<close>

fun json_dumps :: "(int \<Rightarrow> bool) \<Rightarrow> pyval \<Rightarrow> str"
and json_dumps_list :: "(int \<Rightarrow> bool) \<Rightarrow> pyval list \<Rightarrow> str list"
and json_dumps_items :: "(int \<Rightarrow> bool) \<Rightarrow> dict \<Rightarrow> str list" where
  "json_dumps P PNone = lit ''null''"
| "json_dumps P (PBool b) = (if b then lit ''true'' else lit ''false'')"
| "json_dumps P (PInt i) = int_str i"
| "json_dumps P (PFloat t) = t"
| "json_dumps P (PStr s) = json_str s"
| "json_dumps P (PList xs) = [91] @ py_join [44, 32] (json_dumps_list P xs) @ [93]"
| "json_dumps P (PDict d) = [123] @ py_join [44, 32] (json_dumps_items P d) @ [125]"
| "json_dumps P (PTicketStatus s) = json_str (ticket_status_value s)"
| "json_dumps P (PRunStatus s) = json_str (run_status_value s)"
| "json_dumps P (PSummary d) = json_str (py_repr P (PSummary d))"
| "json_dumps_list P [] = []"
| "json_dumps_list P (x # xs) = json_dumps P x # json_dumps_list P xs"
| "json_dumps_items P [] = []"
| "json_dumps_items P ((k, v) # d) = (json_str k @ [58, 32] @ json_dumps P v) # json_dumps_items P d"

section \<open>loads\<close>

definition json_ws :: "str \<Rightarrow> str" where
  "json_ws s = dropWhile (\<lambda>c. c = 32 \<or> c = 9 \<or> c = 10 \<or> c = 13) s"

definition hex_value :: "int \<Rightarrow> int option" where
  "hex_value c =
     (if 48 \<le> c \<and> c \<le> 57 then Some (c - 48)
      else if 97 \<le> c \<and> c \<le> 102 then Some (c - 87)
      else if 65 \<le> c \<and> c \<le> 70 then Some (c - 55) else None)"

definition hex4_value :: "str \<Rightarrow> int option" where
  "hex4_value s =
     (case s of
        a # b # c # d # _ \<Rightarrow>
          (case (hex_value a, hex_value b, hex_value c, hex_value d) of
             (Some w, Some x, Some y, Some z) \<Rightarrow> Some (4096 * w + 256 * x + 16 * y + z)
           | _ \<Rightarrow> None)
      | _ \<Rightarrow> None)"

definition simple_escape :: "int \<Rightarrow> int option" where
  "simple_escape c =
     (if c = 34 \<or> c = 92 \<or> c = 47 then Some c
      else if c = 98 then Some 8 else if c = 102 then Some 12 else if c = 110 then Some 10
      else if c = 114 then Some 13 else if c = 116 then Some 9 else None)"

text \<open>
  After the backslash: the code point of an escape and how many characters it took. A high
  surrogate followed by an escaped low surrogate is one code point.
\<close>

definition json_escape :: "str \<Rightarrow> (int \<times> nat) option" where
  "json_escape s =
     (case s of
        [] \<Rightarrow> None
      | e # es \<Rightarrow>
          if e = 117 then
            (case hex4_value es of
               None \<Rightarrow> None
             | Some u \<Rightarrow>
                 if 55296 \<le> u \<and> u \<le> 56319 \<and> is_prefix [92, 117] (drop 4 es) then
                   (case hex4_value (drop 6 es) of
                      None \<Rightarrow> None
                    | Some l \<Rightarrow> if 56320 \<le> l \<and> l \<le> 57343
                                then Some (65536 + (u - 55296) * 1024 + (l - 56320), 11)
                                else Some (u, 5))
                 else Some (u, 5))
          else map_option (\<lambda>x. (x, 1)) (simple_escape e))"

function json_string :: "str \<Rightarrow> (str \<times> str) option" where
  \<comment> \<open>the rest of a string after its opening quote\<close>
  "json_string [] = None"
| "json_string (c # cs) =
     (if c = 34 then Some ([], cs)
      else if c = 92 then
        (case json_escape cs of
           None \<Rightarrow> None
         | Some (x, n) \<Rightarrow> map_option (\<lambda>(s, r). (x # s, r)) (json_string (drop n cs)))
      else if c < 32 then None
      else map_option (\<lambda>(s, r). (c # s, r)) (json_string cs))"
  by pat_completeness auto
termination
  by (relation "measure length") (auto simp: less_Suc_eq_le)

text \<open>How many characters a fraction and an exponent take at the front of the text; 0 if there is none.\<close>

definition frac_len :: "str \<Rightarrow> nat" where
  "frac_len s =
     (if is_prefix [46] s \<and> takeWhile is_digit (drop 1 s) \<noteq> [] then 1 + length (takeWhile is_digit (drop 1 s))
      else 0)"

definition exp_len :: "str \<Rightarrow> nat" where
  "exp_len s =
     (if is_prefix [101] s \<or> is_prefix [69] s then
        (let sg = (if is_prefix [43] (drop 1 s) \<or> is_prefix [45] (drop 1 s) then 2 else 1);
             ds = takeWhile is_digit (drop sg s)
         in if ds = [] then 0 else sg + length ds)
      else 0)"

definition int_part :: "str \<Rightarrow> str" where
  "int_part s = (if is_prefix [48] s then [48] else takeWhile is_digit s)"

definition json_number :: "str \<Rightarrow> (pyval \<times> str) option" where
  "json_number s =
     (let s1 = (if is_prefix [45] s then drop 1 s else s);
          ip = int_part s1;
          s2 = drop (length ip) s1;
          s3 = drop (frac_len s2) s2;
          s4 = drop (exp_len s3) s3
      in if ip = [] then None
         else if frac_len s2 = 0 \<and> exp_len s3 = 0
           then Some (PInt (let v = the (digits_value 0 ip) in if is_prefix [45] s then - v else v), s4)
         else Some (PFloat (take (length s - length s4) s), s4))"

definition dict_set :: "dict \<Rightarrow> str \<Rightarrow> pyval \<Rightarrow> dict" where
  \<comment> \<open>\<open>d[k] = v\<close>: an existing key keeps its position\<close>
  "dict_set d k v =
     (if k \<in> fst ` set d then map (\<lambda>(k', v'). if k' = k then (k, v) else (k', v')) d else d @ [(k, v)])"

definition dict_of_pairs :: "(str \<times> pyval) list \<Rightarrow> dict" where
  "dict_of_pairs ps = foldl (\<lambda>d (k, v). dict_set d k v) [] ps"

definition json_literal :: "str \<Rightarrow> (pyval \<times> str) option" where
  "json_literal s =
     (if is_prefix (lit ''null'') s then Some (PNone, drop 4 s)
      else if is_prefix (lit ''true'') s then Some (PBool True, drop 4 s)
      else if is_prefix (lit ''false'') s then Some (PBool False, drop 5 s)
      else case json_number s of
             Some r \<Rightarrow> Some r
           | None \<Rightarrow>
               (if is_prefix (lit ''NaN'') s then Some (PFloat (lit ''NaN''), drop 3 s)
                else if is_prefix (lit ''Infinity'') s then Some (PFloat (lit ''Infinity''), drop 8 s)
                else if is_prefix (lit ''-Infinity'') s then Some (PFloat (lit ''-Infinity''), drop 9 s)
                else None))"

text \<open>
  \<open>json_value\<close> parses a value with no leading whitespace, \<open>json_elements\<close> the elements of a
  non-empty array up to its bracket, \<open>json_members\<close> the members of a non-empty object, starting
  at the quote of a key.
\<close>

fun json_value :: "nat \<Rightarrow> str \<Rightarrow> (pyval \<times> str) option"
and json_elements :: "nat \<Rightarrow> str \<Rightarrow> (pyval list \<times> str) option"
and json_members :: "nat \<Rightarrow> str \<Rightarrow> ((str \<times> pyval) list \<times> str) option" where
  "json_value 0 s = None"
| "json_value (Suc n) s =
     (case s of
        [] \<Rightarrow> None
      | c # cs \<Rightarrow>
          if c = 34 then map_option (\<lambda>(t, r). (PStr t, r)) (json_string cs)
          else if c = 123 then
            (case json_ws cs of
               [] \<Rightarrow> None
             | d # ds \<Rightarrow>
                 if d = 125 then Some (PDict [], ds)
                 else map_option (\<lambda>(ps, r). (PDict (dict_of_pairs ps), r)) (json_members n (d # ds)))
          else if c = 91 then
            (case json_ws cs of
               [] \<Rightarrow> None
             | d # ds \<Rightarrow>
                 if d = 93 then Some (PList [], ds)
                 else map_option (\<lambda>(xs, r). (PList xs, r)) (json_elements n (d # ds)))
          else json_literal (c # cs))"
| "json_elements 0 s = None"
| "json_elements (Suc n) s =
     (case json_value n s of
        None \<Rightarrow> None
      | Some (x, r) \<Rightarrow>
          (case json_ws r of
             [] \<Rightarrow> None
           | d # ds \<Rightarrow>
               if d = 93 then Some ([x], ds)
               else if d = 44
                 then map_option (\<lambda>(xs, r'). (x # xs, r')) (json_elements n (json_ws ds))
               else None))"
| "json_members 0 s = None"
| "json_members (Suc n) s =
     (case s of
        [] \<Rightarrow> None
      | c # cs \<Rightarrow>
          if c \<noteq> 34 then None
          else (case json_string cs of
                  None \<Rightarrow> None
                | Some (k, r) \<Rightarrow>
                    (case json_ws r of
                       [] \<Rightarrow> None
                     | d # ds \<Rightarrow>
                         if d \<noteq> 58 then None
                         else (case json_value n (json_ws ds) of
                                 None \<Rightarrow> None
                               | Some (v, r1) \<Rightarrow>
                                   (case json_ws r1 of
                                      [] \<Rightarrow> None
                                    | e # es \<Rightarrow>
                                        if e = 125 then Some ([(k, v)], es)
                                        else if e = 44
                                          then map_option (\<lambda>(ps, r'). ((k, v) # ps, r'))
                                                 (json_members n (json_ws es))
                                        else None)))))"

definition json_loads :: "str \<Rightarrow> pyval option" where
  \<comment> \<open>\<open>None\<close> is \<open>JSONDecodeError\<close>\<close>
  "json_loads s =
     (if is_prefix [65279] s then None
      else case json_value (Suc (length s)) (json_ws s) of
             None \<Rightarrow> None
           | Some (v, r) \<Rightarrow> if json_ws r = [] then Some v else None)"

section \<open>The printer's output\<close>

definition ascii_text :: "str \<Rightarrow> bool" where
  "ascii_text s \<longleftrightarrow> (\<forall>c \<in> set s. 32 \<le> c \<and> c \<le> 126)"

lemma ascii_text_simps [simp]:
  "ascii_text []"
  "ascii_text (c # s) \<longleftrightarrow> (32 \<le> c \<and> c \<le> 126) \<and> ascii_text s"
  "ascii_text (s @ t) \<longleftrightarrow> ascii_text s \<and> ascii_text t"
  by (auto simp: ascii_text_def)

lemma ascii_text_concat: "(\<And>x. x \<in> set xs \<Longrightarrow> ascii_text (f x)) \<Longrightarrow> ascii_text (concat (map f xs))"
  by (auto simp: ascii_text_def)

lemma hex_digit_range: "0 \<le> d \<Longrightarrow> d < 16 \<Longrightarrow> 48 \<le> hex_digit d \<and> hex_digit d \<le> 102"
  by (simp add: hex_digit_def)

lemma ascii_json_u: "ascii_text (json_u c)"
  using hex_digit_range [of "c div 4096 mod 16"] hex_digit_range [of "c div 256 mod 16"]
    hex_digit_range [of "c div 16 mod 16"] hex_digit_range [of "c mod 16"]
  by (simp add: json_u_def hex4_def)

lemma ascii_json_esc: "ascii_text (json_esc c)"
  by (simp add: json_esc_def ascii_json_u)

lemma ascii_json_str: "ascii_text (json_str s)"
  by (simp add: json_str_def ascii_text_concat ascii_json_esc)

lemma ascii_int_str: "ascii_text (int_str i)"
  by (auto simp: ascii_text_def dest: int_str_ascii)

lemma ascii_join: "ascii_text sep \<Longrightarrow> \<forall>x \<in> set xs. ascii_text x \<Longrightarrow> ascii_text (py_join sep xs)"
  using set_py_join [of sep xs] by (fastforce simp: ascii_text_def)

text \<open>Floats are carried as numerals, so their text must be a numeral for the output to be ASCII.\<close>

fun floats_ascii :: "pyval \<Rightarrow> bool" and floats_ascii_list :: "pyval list \<Rightarrow> bool"
and floats_ascii_items :: "dict \<Rightarrow> bool" where
  "floats_ascii (PFloat t) = ascii_text t"
| "floats_ascii (PList xs) = floats_ascii_list xs"
| "floats_ascii (PDict d) = floats_ascii_items d"
| "floats_ascii _ = True"
| "floats_ascii_list [] = True"
| "floats_ascii_list (x # xs) = (floats_ascii x \<and> floats_ascii_list xs)"
| "floats_ascii_items [] = True"
| "floats_ascii_items ((k, v) # d) = (floats_ascii v \<and> floats_ascii_items d)"

lemma lit_ascii: "(\<forall>c \<in> set s. 32 \<le> (of_char c :: int) \<and> (of_char c :: int) \<le> 126) \<Longrightarrow> ascii_text (lit s)"
  by (auto simp: ascii_text_def lit_def)

lemma json_dumps_ascii:
  "floats_ascii v \<Longrightarrow> ascii_text (json_dumps P v)"
  "floats_ascii_list xs \<Longrightarrow> \<forall>x \<in> set (json_dumps_list P xs). ascii_text x"
  "floats_ascii_items d \<Longrightarrow> \<forall>x \<in> set (json_dumps_items P d). ascii_text x"
  by (induction P v and P xs and P d rule: json_dumps_json_dumps_list_json_dumps_items.induct)
     (auto simp: ascii_json_str ascii_int_str ascii_join intro!: lit_ascii)

text \<open>Printing ASCII text inside a value at most doubles it.\<close>

lemma json_esc_ascii_length: "32 \<le> c \<Longrightarrow> c \<le> 126 \<Longrightarrow> length (json_esc c) \<le> 2"
  by (simp add: json_esc_def)

lemma json_str_ascii_length: "ascii_text s \<Longrightarrow> length (json_str s) \<le> 2 * length s + 2"
  by (induction s) (use json_esc_ascii_length in \<open>fastforce simp: json_str_def\<close>)+

lemma json_string_esc:
  "json_string (c # s) = map_option (\<lambda>(t, r). (c # t, r)) (json_string s)"
  if "32 \<le> c" "c \<noteq> 34" "c \<noteq> 92" for c
  using that by simp

section \<open>The fuel is enough\<close>

text \<open>
  Every parser consumes a character when it succeeds, and needs no more fuel than the number of
  characters it consumes. So one more than the length of the text gives the result of any larger
  fuel (\<open>json_fuel\<close>).
\<close>

lemma json_ws_length: "length (json_ws s) \<le> length s"
  by (simp add: json_ws_def length_dropWhile_le)

lemma json_string_length: "json_string s = Some (t, r) \<Longrightarrow> length r < length s"
proof (induction s arbitrary: t r rule: json_string.induct)
  case (2 c cs)
  show ?case
  proof (cases "c = 34 \<or> c < 32 \<and> c \<noteq> 92")
    case True
    with 2(3) show ?thesis by (auto split: if_splits)
  next
    case False
    show ?thesis
    proof (cases "c = 92")
      case True
      with 2(3) obtain x n t' where e: "json_escape cs = Some (x, n)" "json_string (drop n cs) = Some (t', r)"
        by (auto split: option.splits)
      from 2(1) [OF _ True e(1) refl e(2)] True show ?thesis by simp
    next
      case False
      with \<open>\<not> (c = 34 \<or> c < 32 \<and> c \<noteq> 92)\<close> 2(3) obtain t' where "json_string cs = Some (t', r)" by auto
      from 2(2) [OF _ False _ this] False \<open>\<not> (c = 34 \<or> c < 32 \<and> c \<noteq> 92)\<close> show ?thesis by simp
    qed
  qed
qed simp

lemma json_number_length: "json_number s = Some (v, r) \<Longrightarrow> length r < length s"
proof -
  assume a: "json_number s = Some (v, r)"
  define s1 where "s1 = (if is_prefix [45] s then drop 1 s else s)"
  define s2 where "s2 = drop (length (int_part s1)) s1"
  define s3 where "s3 = drop (frac_len s2) s2"
  from a have ip: "int_part s1 \<noteq> []" and r: "r = drop (exp_len s3) s3"
    unfolding json_number_def Let_def s1_def [symmetric] s2_def [symmetric] s3_def [symmetric]
    by (simp_all split: if_splits)
  from ip have "s1 \<noteq> []" by (auto simp: int_part_def split: if_splits)
  with ip have "length s2 < length s1" by (simp add: s2_def diff_less)
  moreover have "length s1 \<le> length s" by (simp add: s1_def)
  moreover have "length r \<le> length s2" by (simp add: r s3_def)
  ultimately show ?thesis by linarith
qed

lemma is_prefix_length: "is_prefix p s \<Longrightarrow> length p \<le> length s"
  by (auto simp: is_prefix_ex)

lemma json_literal_length: "json_literal s = Some (v, r) \<Longrightarrow> length r < length s"
  by (auto simp: json_literal_def lit_def dest!: is_prefix_length json_number_length split: if_splits option.splits)

definition fuelled :: "(nat \<Rightarrow> str \<Rightarrow> ('a \<times> str) option) \<Rightarrow> str \<Rightarrow> 'a \<Rightarrow> str \<Rightarrow> bool" where
  "fuelled f s x r \<longleftrightarrow> length r < length s \<and> (\<forall>m. length s \<le> m + length r \<longrightarrow> f m s = Some (x, r))"

lemma fuelledI:
  assumes "length r < length s" and "\<And>m. length s \<le> Suc m + length r \<Longrightarrow> f (Suc m) s = Some (x, r)"
  shows "fuelled f s x r"
  unfolding fuelled_def
proof (intro conjI allI impI)
  fix m assume m: "length s \<le> m + length r"
  with assms(1) obtain k where "m = Suc k" by (cases m) auto
  with m assms(2) show "f m s = Some (x, r)" by simp
qed (rule assms(1))

lemma fuelledD:
  assumes "fuelled f s x r"
  shows "length r < length s" and "length s \<le> m + length r \<Longrightarrow> f m s = Some (x, r)"
  using assms by (simp_all add: fuelled_def)

lemma json_parsers_fuel:
  "(\<forall>s v r. json_value k s = Some (v, r) \<longrightarrow> fuelled json_value s v r)
   \<and> (\<forall>s xs r. json_elements k s = Some (xs, r) \<longrightarrow> fuelled json_elements s xs r)
   \<and> (\<forall>s ps r. json_members k s = Some (ps, r) \<longrightarrow> fuelled json_members s ps r)"
proof (induction k)
  case (Suc k)
  then have IHv: "\<And>s v r. json_value k s = Some (v, r) \<Longrightarrow> fuelled json_value s v r"
    and IHe: "\<And>s xs r. json_elements k s = Some (xs, r) \<Longrightarrow> fuelled json_elements s xs r"
    and IHm: "\<And>s ps r. json_members k s = Some (ps, r) \<Longrightarrow> fuelled json_members s ps r"
    by blast+
  have "fuelled json_value s v r" if a: "json_value (Suc k) s = Some (v, r)" for s v r
  proof -
    from a obtain c cs where s: "s = c # cs" by (cases s) auto
    consider (str) "c = 34" | (obj) "c = 123" | (arr) "c = 91" | (lit) "c \<noteq> 34" "c \<noteq> 123" "c \<noteq> 91" by blast
    then show ?thesis
    proof cases
      case str
      with a s obtain t where "json_string cs = Some (t, r)" "v = PStr t" by auto
      with str s json_string_length [OF this(1)] show ?thesis by (intro fuelledI) simp_all
    next
      case obj
      with a s obtain d ds where w: "json_ws cs = d # ds" by (auto split: list.splits)
      then have len: "length (d # ds) \<le> length cs" by (metis json_ws_length)
      show ?thesis
      proof (cases "d = 125")
        case True
        with a s obj w len show ?thesis by (intro fuelledI) auto
      next
        case False
        with a s obj w obtain ps where ps: "json_members k (d # ds) = Some (ps, r)" "v = PDict (dict_of_pairs ps)"
          by auto
        from fuelledD [OF IHm [OF ps(1)]] False s obj w len ps(2) show ?thesis by (intro fuelledI) auto
      qed
    next
      case arr
      with a s obtain d ds where w: "json_ws cs = d # ds" by (auto split: list.splits)
      then have len: "length (d # ds) \<le> length cs" by (metis json_ws_length)
      show ?thesis
      proof (cases "d = 93")
        case True
        with a s arr w len show ?thesis by (intro fuelledI) auto
      next
        case False
        with a s arr w obtain xs where xs: "json_elements k (d # ds) = Some (xs, r)" "v = PList xs"
          by auto
        from fuelledD [OF IHe [OF xs(1)]] False s arr w len xs(2) show ?thesis by (intro fuelledI) auto
      qed
    next
      case lit
      with a s have "json_literal s = Some (v, r)" by simp
      with lit s json_literal_length [OF this] show ?thesis by (intro fuelledI) simp_all
    qed
  qed
  moreover have "fuelled json_elements s xs r" if a: "json_elements (Suc k) s = Some (xs, r)" for s xs r
  proof -
    from a obtain x r1 d ds where x: "json_value k s = Some (x, r1)" and w: "json_ws r1 = d # ds"
      by (auto split: option.splits list.splits)
    from w have len: "length (d # ds) \<le> length r1" by (metis json_ws_length)
    note v = fuelledD [OF IHv [OF x]]
    show ?thesis
    proof (cases "d = 93")
      case True
      with a x w v len show ?thesis by (intro fuelledI) auto
    next
      case False
      with a x w obtain ys where ys: "json_elements k (json_ws ds) = Some (ys, r)" "xs = x # ys" "d = 44"
        by (auto split: if_splits)
      from fuelledD [OF IHe [OF ys(1)]] json_ws_length [of ds] v False w len ys(2,3)
      show ?thesis by (intro fuelledI) auto
    qed
  qed
  moreover have "fuelled json_members s ps r" if a: "json_members (Suc k) s = Some (ps, r)" for s ps r
  proof -
    from a obtain cs where s: "s = 34 # cs" by (cases s) (auto split: if_splits)
    from a s obtain key r0 ds0 x r1 e es where
      k: "json_string cs = Some (key, r0)" and w0: "json_ws r0 = 58 # ds0"
      and x: "json_value k (json_ws ds0) = Some (x, r1)" and w: "json_ws r1 = e # es"
      by (auto split: option.splits list.splits if_splits)
    from w have len: "length (e # es) \<le> length r1" by (metis json_ws_length)
    from w0 have len0: "length (58 # ds0) \<le> length r0" by (metis json_ws_length)
    note v = fuelledD [OF IHv [OF x]] json_ws_length [of ds0] json_string_length [OF k]
    show ?thesis
    proof (cases "e = 125")
      case True
      with a s k w0 x w v len len0 show ?thesis by (intro fuelledI) auto
    next
      case False
      with a s k w0 x w obtain qs where qs: "json_members k (json_ws es) = Some (qs, r)" "ps = (key, x) # qs" "e = 44"
        by (auto split: if_splits)
      from fuelledD [OF IHm [OF qs(1)]] json_ws_length [of es] v False s k w0 w len len0 qs(2,3)
      show ?thesis by (intro fuelledI) auto
    qed
  qed
  ultimately show ?case by blast
qed simp

lemma json_fuel:
  assumes "length s < m" and "length s < n"
  shows "json_value m (json_ws s) = json_value n (json_ws s)"
proof -
  have "json_value j (json_ws s) = Some (v, r)"
    if "json_value i (json_ws s) = Some (v, r)" and "length s < j" for i j v r
  proof -
    from json_parsers_fuel [of i] that(1) have "fuelled json_value (json_ws s) v r" by blast
    from fuelledD(2) [OF this] json_ws_length [of s] that(2) show ?thesis by simp
  qed
  with assms show ?thesis by (metis not_None_eq surj_pair)
qed

end
