(* ===== verification/Events.thy ===== *)
theory Events
  imports Json
begin

text \<open>
  \<open>server/events.py\<close>: redaction of secret-shaped text, the cap on payloads, the envelope and its
  SSE frame. The five regular expressions are terms of a small expression type; \<open>rx_rests\<close> is a
  backtracking matcher that lists, in Python's order of preference, what each match leaves of the
  text, and \<open>rx_sub\<close> is \<open>pattern.sub\<close>. The order decides how much a match covers; whether there
  is one is the language \<open>rx_lang\<close> (\<open>set_rx_rests\<close>). The lemmas show that a pass of one pattern
  removes its matches and brings none of another back.
\<close>

section \<open>Regular expressions\<close>

datatype rx =
    Cls "int \<Rightarrow> bool"
  | Rep "int \<Rightarrow> bool" nat "nat option"
  | LazyRep "int \<Rightarrow> bool"
  | Opt rx
  | Seq rx rx
  | Alt rx rx

text \<open>\<open>Rep P m n\<close> is \<open>[P]{m,n}\<close>, \<open>LazyRep P\<close> is \<open>[P]*?\<close>.\<close>

definition rep_max :: "(int \<Rightarrow> bool) \<Rightarrow> nat option \<Rightarrow> str \<Rightarrow> nat" where
  "rep_max P n s =
     (case n of None \<Rightarrow> length (takeWhile P s) | Some k \<Rightarrow> min k (length (takeWhile P s)))"

fun rx_rests :: "rx \<Rightarrow> str \<Rightarrow> str list" where
  "rx_rests (Cls P) s = (case s of [] \<Rightarrow> [] | c # r \<Rightarrow> if P c then [r] else [])"
| "rx_rests (Rep P m n) s = map (\<lambda>k. drop k s) (rev [m..<Suc (rep_max P n s)])"
| "rx_rests (LazyRep P) s = map (\<lambda>k. drop k s) [0..<Suc (length (takeWhile P s))]"
| "rx_rests (Opt a) s = rx_rests a s @ [s]"
| "rx_rests (Seq a b) s = concat (map (rx_rests b) (rx_rests a s))"
| "rx_rests (Alt a b) s = rx_rests a s @ rx_rests b s"

fun rx_lang :: "rx \<Rightarrow> str \<Rightarrow> bool" where
  "rx_lang (Cls P) u = (\<exists>c. u = [c] \<and> P c)"
| "rx_lang (Rep P m n) u =
     (list_all P u \<and> m \<le> length u \<and> (case n of None \<Rightarrow> True | Some k \<Rightarrow> length u \<le> k))"
| "rx_lang (LazyRep P) u = list_all P u"
| "rx_lang (Opt a) u = (u = [] \<or> rx_lang a u)"
| "rx_lang (Seq a b) u = (\<exists>v w. u = v @ w \<and> rx_lang a v \<and> rx_lang b w)"
| "rx_lang (Alt a b) u = (rx_lang a u \<or> rx_lang b u)"

lemma takeWhile_prefix_iff:
  "k \<le> length (takeWhile P s) \<longleftrightarrow> k \<le> length s \<and> list_all P (take k s)"
proof (induction s arbitrary: k)
  case (Cons c s)
  then show ?case by (cases k) auto
qed simp

lemma le_rep_max:
  "k \<le> rep_max P n s \<longleftrightarrow> k \<le> length (takeWhile P s) \<and> (case n of None \<Rightarrow> True | Some m \<Rightarrow> k \<le> m)"
  by (auto simp: rep_max_def split: option.splits)

lemma split_at: "(\<exists>u. s = u @ r \<and> Q u) \<longleftrightarrow> (\<exists>k \<le> length s. r = drop k s \<and> Q (take k s))"
proof
  assume "\<exists>u. s = u @ r \<and> Q u"
  then obtain u where "s = u @ r" "Q u" by blast
  then show "\<exists>k \<le> length s. r = drop k s \<and> Q (take k s)"
    by (intro exI [of _ "length u"]) simp
next
  assume "\<exists>k \<le> length s. r = drop k s \<and> Q (take k s)"
  then show "\<exists>u. s = u @ r \<and> Q u" by (metis append_take_drop_id)
qed

text \<open>The matcher finds exactly the words of the language.\<close>

lemma set_rx_rests: "r \<in> set (rx_rests p s) \<longleftrightarrow> (\<exists>u. s = u @ r \<and> rx_lang p u)"
proof (induction p arbitrary: r s)
  case (Cls P)
  then show ?case by (cases s) (auto simp: append_eq_Cons_conv)
next
  case (Rep P m n)
  have "r \<in> set (rx_rests (Rep P m n) s) \<longleftrightarrow> (\<exists>k \<le> rep_max P n s. m \<le> k \<and> r = drop k s)"
    by (auto simp: less_Suc_eq_le image_iff simp del: upt_Suc)
  also have "\<dots> \<longleftrightarrow> (\<exists>k \<le> length s. r = drop k s \<and> rx_lang (Rep P m n) (take k s))"
    by (simp add: le_rep_max takeWhile_prefix_iff conj_ac cong: conj_cong split: option.splits)
  also have "\<dots> \<longleftrightarrow> (\<exists>u. s = u @ r \<and> rx_lang (Rep P m n) u)" by (rule split_at [symmetric])
  finally show ?case .
next
  case (LazyRep P)
  have "r \<in> set (rx_rests (LazyRep P) s) \<longleftrightarrow> (\<exists>k \<le> length (takeWhile P s). r = drop k s)"
    by (auto simp: less_Suc_eq_le image_iff simp del: upt_Suc)
  also have "\<dots> \<longleftrightarrow> (\<exists>k \<le> length s. r = drop k s \<and> rx_lang (LazyRep P) (take k s))"
    unfolding takeWhile_prefix_iff by auto
  also have "\<dots> \<longleftrightarrow> (\<exists>u. s = u @ r \<and> rx_lang (LazyRep P) u)" by (rule split_at [symmetric])
  finally show ?case .
next
  case (Seq a b)
  have "r \<in> set (rx_rests (Seq a b) s) \<longleftrightarrow> (\<exists>t. (\<exists>u. s = u @ t \<and> rx_lang a u) \<and> (\<exists>v. t = v @ r \<and> rx_lang b v))"
    unfolding rx_rests.simps set_concat set_map by (auto simp: Seq.IH) 
  also have "\<dots> \<longleftrightarrow> (\<exists>u. s = u @ r \<and> rx_lang (Seq a b) u)"
    unfolding rx_lang.simps by (metis append.assoc)
  finally show ?case .
qed auto

text \<open>
  \<open>pattern.sub(new, s)\<close> for a pattern that matches no empty text: the first match at the leftmost
  position is replaced and the search goes on behind it.
\<close>

function rx_sub :: "rx \<Rightarrow> str \<Rightarrow> str \<Rightarrow> str" where
  "rx_sub p new [] = []"
| "rx_sub p new (c # cs) =
     (case rx_rests p (c # cs) of
        r # _ \<Rightarrow> if length r \<le> length cs then new @ rx_sub p new r else c # rx_sub p new cs
      | [] \<Rightarrow> c # rx_sub p new cs)"
  by pat_completeness auto
termination by (relation "measure (\<lambda>(p, new, s). length s)") auto

declare rx_sub.simps(2) [simp del]

fun rx_lit :: "str \<Rightarrow> rx \<Rightarrow> rx" where
  "rx_lit [] p = p"
| "rx_lit (c # cs) p = Seq (Cls (\<lambda>x. x = c)) (rx_lit cs p)"

text \<open>
  A letter under \<open>(?i)\<close>. Python compares lower case forms; the Kelvin sign, the dotted capital I,
  the dotless i and the long s count as k, i, i and s.
\<close>

definition icase :: "int \<Rightarrow> int \<Rightarrow> bool" where
  "icase c x \<longleftrightarrow> x = c \<or> (97 \<le> c \<and> c \<le> 122 \<and> x = c - 32)
     \<or> (c = 107 \<and> x = 8490) \<or> (c = 105 \<and> (x = 304 \<or> x = 305)) \<or> (c = 115 \<and> x = 383)"

fun rx_ilit :: "str \<Rightarrow> rx \<Rightarrow> rx" where
  "rx_ilit [] p = p"
| "rx_ilit (c # cs) p = Seq (Cls (icase c)) (rx_ilit cs p)"

section \<open>The secret patterns\<close>

definition is_upper :: "int \<Rightarrow> bool" where
  "is_upper c \<longleftrightarrow> 65 \<le> c \<and> c \<le> 90"

definition is_alnum :: "int \<Rightarrow> bool" where
  "is_alnum c \<longleftrightarrow> is_upper c \<or> (97 \<le> c \<and> c \<le> 122) \<or> (48 \<le> c \<and> c \<le> 57)"

definition is_key_char :: "int \<Rightarrow> bool" where
  \<comment> \<open>\<open>[A-Za-z0-9_-]\<close>\<close>
  "is_key_char c \<longleftrightarrow> is_alnum c \<or> c = 95 \<or> c = 45"

definition is_itoken_char :: "int \<Rightarrow> bool" where
  \<comment> \<open>\<open>[A-Za-z0-9_\-\.]\<close> under \<open>(?i)\<close>\<close>
  "is_itoken_char c \<longleftrightarrow> is_alnum c \<or> c = 95 \<or> c = 45 \<or> c = 46 \<or> c = 8490 \<or> c = 304 \<or> c = 305 \<or> c = 383"

definition is_quote :: "int \<Rightarrow> bool" where
  "is_quote c \<longleftrightarrow> c = 39 \<or> c = 34"

definition RX_ANTHROPIC :: rx where
  "RX_ANTHROPIC = rx_lit (lit ''sk-ant-'') (Rep is_key_char 10 None)"

definition RX_ASSIGNMENT :: rx where
  "RX_ASSIGNMENT =
     Seq (Alt (rx_ilit (lit ''api'') (Seq (Opt (Cls (\<lambda>c. c = 95 \<or> c = 45))) (rx_ilit (lit ''ke'') (Cls (icase 121)))))
         (Alt (rx_ilit (lit ''toke'') (Cls (icase 110))) (rx_ilit (lit ''secre'') (Cls (icase 116)))))
     (Seq (Rep is_space 0 None)
     (Seq (Cls (\<lambda>c. c = 58 \<or> c = 61))
     (Seq (Rep is_space 0 None)
     (Seq (Opt (Cls is_quote))
     (Seq (Rep is_itoken_char 12 None) (Opt (Cls is_quote)))))))"

definition RX_BEARER :: rx where
  "RX_BEARER = rx_ilit (lit ''bearer'') (Seq (Rep is_space 1 None) (Rep is_itoken_char 12 None))"

definition RX_AWS :: rx where
  "RX_AWS = rx_lit (lit ''AKIA'') (Rep (\<lambda>c. is_upper c \<or> 48 \<le> c \<and> c \<le> 57) 16 (Some 16))"

definition PEM_BEGIN :: rx where
  "PEM_BEGIN = rx_lit (lit ''-----BEGIN '')
     (Seq (Rep (\<lambda>c. is_upper c \<or> c = 32) 0 None) (rx_lit (lit ''PRIVATE KEY----'') (Cls (\<lambda>c. c = 45))))"

definition PEM_END :: rx where
  "PEM_END = rx_lit (lit ''-----END '')
     (Seq (Rep (\<lambda>c. is_upper c \<or> c = 32) 0 None) (rx_lit (lit ''PRIVATE KEY----'') (Cls (\<lambda>c. c = 45))))"

definition RX_PEM :: rx where
  "RX_PEM = Seq PEM_BEGIN (Seq (LazyRep (\<lambda>c. True)) PEM_END)"

definition SECRET_PATTERNS :: "rx list" where
  "SECRET_PATTERNS = [RX_ANTHROPIC, RX_ASSIGNMENT, RX_BEARER, RX_AWS, RX_PEM]"

definition REDACTED :: str where
  "REDACTED = lit ''[REDACTED]''"

definition redact_text :: "str \<Rightarrow> str" where
  "redact_text t = foldl (\<lambda>t pattern. rx_sub pattern REDACTED t) t SECRET_PATTERNS"

section \<open>Values, payloads and envelopes\<close>

definition asdict :: "decision_summary \<Rightarrow> dict" where
  "asdict d = [(lit ''summary'', PStr (summary d)), (lit ''attempt_count'', PInt (attempt_count d))]"

fun redact_value :: "pyval \<Rightarrow> pyval" and redact_values :: "pyval list \<Rightarrow> pyval list"
and redact_items :: "dict \<Rightarrow> dict" where
  "redact_value (PStr s) = PStr (redact_text s)"
| "redact_value (PTicketStatus s) = PStr (redact_text (ticket_status_value s))"
| "redact_value (PRunStatus s) = PStr (redact_text (run_status_value s))"
| "redact_value (PDict d) = PDict (redact_items d)"
| "redact_value (PList vs) = PList (redact_values vs)"
| "redact_value (PSummary d) =
     PDict [(lit ''summary'', PStr (redact_text (summary d))), (lit ''attempt_count'', PInt (attempt_count d))]"
| "redact_value v = v"
| "redact_values [] = []"
| "redact_values (v # vs) = redact_value v # redact_values vs"
| "redact_items [] = []"
| "redact_items ((k, v) # d) = (k, redact_value v) # redact_items d"

definition MAX_PAYLOAD_BYTES :: nat where
  "MAX_PAYLOAD_BYTES = 8192"

definition cap_payload :: "(int \<Rightarrow> bool) \<Rightarrow> dict \<Rightarrow> nat \<Rightarrow> dict" where
  "cap_payload P payload max_bytes =
     (let encoded = json_dumps P (PDict payload)
      in if length (utf8_bytes encoded) \<le> max_bytes then payload
         else [(lit ''truncated'', PBool True),
               (lit ''original_size_bytes'', PInt (int (length (utf8_bytes encoded)))),
               (lit ''preview'', PStr (take (max_bytes - 200) encoded))])"

datatype event_kind =
    Run_started | Node_update | Attempt | Escalation | Run_completed | Run_failed | Heartbeat

fun event_kind_value :: "event_kind \<Rightarrow> str" where
  "event_kind_value Run_started = lit ''run_started''"
| "event_kind_value Node_update = lit ''node_update''"
| "event_kind_value Attempt = lit ''attempt''"
| "event_kind_value Escalation = lit ''escalation''"
| "event_kind_value Run_completed = lit ''run_completed''"
| "event_kind_value Run_failed = lit ''run_failed''"
| "event_kind_value Heartbeat = lit ''heartbeat''"

record envelope =
  ev_seq :: int
  ev_ts :: str
  ev_run_id :: str
  ev_kind :: event_kind
  ev_node :: "str option"
  ev_payload :: dict

text \<open>\<open>ts\<close> is the reading of the clock.\<close>

definition make_envelope ::
  "(int \<Rightarrow> bool) \<Rightarrow> str \<Rightarrow> int \<Rightarrow> str \<Rightarrow> event_kind \<Rightarrow> str option \<Rightarrow> dict \<Rightarrow> envelope" where
  "make_envelope P ts sq run_id kind node payload =
     \<lparr>ev_seq = sq, ev_ts = ts, ev_run_id = run_id, ev_kind = kind, ev_node = node,
      ev_payload = cap_payload P (redact_items payload) MAX_PAYLOAD_BYTES\<rparr>"

definition envelope_dict :: "envelope \<Rightarrow> dict" where
  "envelope_dict e =
     [(lit ''seq'', PInt (ev_seq e)), (lit ''ts'', PStr (ev_ts e)), (lit ''run_id'', PStr (ev_run_id e)),
      (lit ''kind'', PStr (event_kind_value (ev_kind e))),
      (lit ''node'', case ev_node e of None \<Rightarrow> PNone | Some n \<Rightarrow> PStr n),
      (lit ''payload'', PDict (ev_payload e))]"

definition format_sse :: "(int \<Rightarrow> bool) \<Rightarrow> envelope \<Rightarrow> str" where
  "format_sse P e = lit ''data: '' @ json_dumps P (PDict (envelope_dict e)) @ [10, 10]"

section \<open>What a pass of substitution leaves\<close>

definition rx_found :: "rx \<Rightarrow> str \<Rightarrow> bool" where
  \<comment> \<open>\<open>pattern.search(s)\<close> is a match\<close>
  "rx_found p s \<longleftrightarrow> (\<exists>a u b. s = a @ u @ b \<and> rx_lang p u)"

lemma no_match_here: "rx_rests p s = [] \<longleftrightarrow> (\<forall>u r. s = u @ r \<longrightarrow> \<not> rx_lang p u)"
  using set_rx_rests [of _ p s] by (metis empty_iff list.set(1) list.set_sel(1))

text \<open>A word without brackets.\<close>

definition plain :: "str \<Rightarrow> bool" where
  "plain u \<longleftrightarrow> 91 \<notin> set u \<and> 93 \<notin> set u"

lemma plain_simps [simp]:
  "plain []" "plain (c # u) \<longleftrightarrow> c \<noteq> 91 \<and> c \<noteq> 93 \<and> plain u" "plain (u @ v) \<longleftrightarrow> plain u \<and> plain v"
  by (auto simp: plain_def)

lemma REDACTED_split: "REDACTED = 91 # lit ''REDACTED'' @ [93]"
  by (simp add: REDACTED_def lit_def)

definition nonempty_rx :: "rx \<Rightarrow> bool" where
  "nonempty_rx p \<longleftrightarrow> (\<forall>u. rx_lang p u \<longrightarrow> u \<noteq> [])"

text \<open>The two ways a text begins: a match that is replaced, or a character that is kept.\<close>

lemma rx_sub_cases:
  assumes "nonempty_rx p"
  obtains (empty) "s = []" and "rx_sub p new s = []"
  | (match) u r where "s = u @ r" and "rx_lang p u" and "u \<noteq> []" and "rx_sub p new s = new @ rx_sub p new r"
  | (keep) c cs where "s = c # cs" and "\<And>u r. s = u @ r \<Longrightarrow> \<not> rx_lang p u"
      and "rx_sub p new s = c # rx_sub p new cs"
proof (cases s)
  case Nil
  with empty show thesis by simp
next
  case (Cons c cs)
  show thesis
  proof (cases "rx_rests p s")
    case Nil
    then have "\<And>u r. s = u @ r \<Longrightarrow> \<not> rx_lang p u" unfolding no_match_here by blast
    moreover have "rx_sub p new s = c # rx_sub p new cs"
      using Nil Cons by (simp add: rx_sub.simps(2))
    ultimately show thesis using keep Cons by blast
  next
    case (Cons r rs)
    then have "r \<in> set (rx_rests p s)" by simp
    then obtain u where u: "s = u @ r" "rx_lang p u" unfolding set_rx_rests by blast
    with assms have "u \<noteq> []" by (auto simp: nonempty_rx_def)
    with u \<open>s = c # cs\<close> have "length r \<le> length cs" by (cases u) auto
    with \<open>s = c # cs\<close> Cons have "rx_sub p new s = new @ rx_sub p new r" by (simp add: rx_sub.simps(2))
    with u \<open>u \<noteq> []\<close> match show thesis by blast
  qed
qed

text \<open>What is plain at the start of the result was at the start of the text.\<close>

lemma rx_sub_plain_prefix:
  assumes ne: "nonempty_rx p"
    and "rx_sub p REDACTED s = v @ t" and "plain v"
  shows "\<exists>t'. s = v @ t' \<and> t = rx_sub p REDACTED t'"
  using assms(2,3)
proof (induction v arbitrary: s)
  case (Cons x v)
  show ?case
  proof (rule rx_sub_cases [where p = p and s = s and new = REDACTED, OF ne], goal_cases empty match keep)
    case empty
    with Cons.prems show ?thesis by simp
  next
    case (match u r)
    with Cons.prems show ?thesis by (simp add: REDACTED_split)
  next
    case (keep c cs)
    with Cons.prems have "rx_sub p REDACTED cs = v @ t" "plain v" "x = c" by auto
    with Cons.IH keep(1) show ?thesis by auto
  qed
qed auto

text \<open>A plain word inside \<open>[REDACTED]rest\<close> that is longer than the marker's own word is in \<open>rest\<close>.\<close>

lemma plain_in_marked:
  assumes "REDACTED @ t = a @ u @ b" and "plain u" and "8 < length u"
  shows "\<exists>a'. t = a' @ u @ b"
proof -
  have "a \<noteq> []" using assms by (cases u) (auto simp: REDACTED_split)
  with assms(1) obtain a1 where a: "a = 91 # a1" "lit ''REDACTED'' @ 93 # t = a1 @ u @ b"
    by (cases a) (auto simp: REDACTED_split)
  from a(2) consider d where "a1 = lit ''REDACTED'' @ d" "93 # t = d @ u @ b"
    | d where "lit ''REDACTED'' = a1 @ d" "d @ 93 # t = u @ b"
    unfolding append_eq_append_conv2 by blast
  then show ?thesis
  proof cases
    case (1 d)
    then show ?thesis
    proof (cases d)
      case Nil
      with 1 assms(2,3) show ?thesis by (cases u) auto
    qed auto
  next
    case (2 d)
    have "length (lit ''REDACTED'') = length (a1 @ d)" by (rule arg_cong [OF 2(1)])
    then have "length d \<le> 8" by simp
    with assms(3) have "length d < length u" by simp
    moreover from 2(2) have "(d @ 93 # t) ! length d = (u @ b) ! length d" by simp
    ultimately have "u ! length d = 93" by (simp add: nth_append)
    with \<open>length d < length u\<close> assms(2) show ?thesis by (auto simp: plain_def in_set_conv_nth)
  qed
qed

lemma rx_sub_plain_factor:
  assumes ne: "nonempty_rx p"
    and "rx_sub p REDACTED s = a @ u @ b" and "plain u" and "8 < length u"
  shows "\<exists>a' b'. s = a' @ u @ b'"
  using assms(2)
proof (induction "length s" arbitrary: s a rule: less_induct)
  case less
  show ?case
  proof (rule rx_sub_cases [where p = p and s = s and new = REDACTED, OF ne], goal_cases empty match keep)
    case empty
    with less.prems assms(4) show ?thesis by simp
  next
    case (match v r)
    with less.prems plain_in_marked [OF _ assms(3,4)] obtain a' where "rx_sub p REDACTED r = a' @ u @ b"
      by metis
    with less.hyps [of r a'] match obtain a2 b2 where "r = a2 @ u @ b2" by auto
    with match have "s = (v @ a2) @ u @ b2" by simp
    then show ?thesis by blast
  next
    case (keep c cs)
    show ?thesis
    proof (cases a)
      case Nil
      with less.prems rx_sub_plain_prefix [OF ne _ assms(3), of s b] show ?thesis
        by (metis append_Nil)
    next
      case (Cons x a')
      with less.prems keep have "rx_sub p REDACTED cs = a' @ u @ b" by simp
      with less.hyps [of cs a'] keep obtain a2 b2 where "cs = a2 @ u @ b2" by auto
      with keep have "s = (c # a2) @ u @ b2" by simp
      then show ?thesis by blast
    qed
  qed
qed

text \<open>
  A pattern whose words are plain and longer than the marker: no pass brings one of its matches
  back, and its own pass removes them all.
\<close>

definition plain_rx :: "rx \<Rightarrow> bool" where
  "plain_rx p \<longleftrightarrow> (\<forall>u. rx_lang p u \<longrightarrow> plain u \<and> 8 < length u)"

lemma rx_sub_keeps_absent:
  assumes "nonempty_rx p" and "plain_rx q" and "\<not> rx_found q s"
  shows "\<not> rx_found q (rx_sub p REDACTED s)"
  using rx_sub_plain_factor [OF assms(1)] assms(2,3) unfolding rx_found_def plain_rx_def by metis

lemma rx_sub_removes:
  assumes p: "plain_rx p"
  shows "\<not> rx_found p (rx_sub p REDACTED s)"
proof
  assume "rx_found p (rx_sub p REDACTED s)"
  then obtain a u b where "rx_sub p REDACTED s = a @ u @ b" and u: "rx_lang p u"
    unfolding rx_found_def by blast
  have ne: "nonempty_rx p" using p by (auto simp: plain_rx_def nonempty_rx_def)
  from p u have pl: "plain u" "8 < length u" by (auto simp: plain_rx_def)
  from \<open>rx_sub p REDACTED s = a @ u @ b\<close> show False
  proof (induction "length s" arbitrary: s a rule: less_induct)
    case less
    show ?case
    proof (rule rx_sub_cases [where p = p and s = s and new = REDACTED, OF ne], goal_cases empty match keep)
      case empty
      with less.prems pl show ?thesis by simp
    next
      case (match v r)
      with less.prems plain_in_marked [OF _ pl] obtain a' where "rx_sub p REDACTED r = a' @ u @ b"
        by metis
      with less.hyps [of r a'] match show ?thesis by simp
    next
      case (keep c cs)
      show ?thesis
      proof (cases a)
        case Nil
        with less.prems rx_sub_plain_prefix [OF ne _ pl(1), of s b] keep(2) u show ?thesis
          by (metis append_Nil)
      next
        case (Cons x a')
        with less.prems keep less.hyps [of cs a'] show ?thesis by simp
      qed
    qed
  qed
qed

text \<open>The PEM pattern may span anything, but its header and footer are plain.\<close>

lemma rx_sub_removes_span:
  assumes h: "plain_rx h" and f: "plain_rx f" and p: "p = Seq h (Seq (LazyRep (\<lambda>c. True)) f)"
  shows "\<not> rx_found p (rx_sub p REDACTED s)"
proof
  assume "rx_found p (rx_sub p REDACTED s)"
  then obtain a hd m ft b where "rx_sub p REDACTED s = a @ hd @ m @ ft @ b"
    and hd: "rx_lang h hd" and ft: "rx_lang f ft"
    unfolding rx_found_def p by auto
  have ne: "nonempty_rx p" using h by (auto simp: plain_rx_def nonempty_rx_def p)
  from h hd have ph: "plain hd" "8 < length hd" by (auto simp: plain_rx_def)
  from f ft have pf: "plain ft" "8 < length ft" by (auto simp: plain_rx_def)
  from \<open>rx_sub p REDACTED s = a @ hd @ m @ ft @ b\<close> show False
  proof (induction "length s" arbitrary: s a rule: less_induct)
    case less
    show ?case
    proof (rule rx_sub_cases [where p = p and s = s and new = REDACTED, OF ne], goal_cases empty match keep)
      case empty
      with less.prems ph show ?thesis by simp
    next
      case (match v r)
      with less.prems plain_in_marked [OF _ ph] obtain a'
        where "rx_sub p REDACTED r = a' @ hd @ m @ ft @ b" by metis
      with less.hyps [of r a'] match show ?thesis by simp
    next
      case (keep c cs)
      show ?thesis
      proof (cases a)
        case Nil
        with less.prems rx_sub_plain_prefix [OF ne _ ph(1), of s "m @ ft @ b"]
        obtain t where t: "s = hd @ t" "rx_sub p REDACTED t = m @ ft @ b" by auto
        from rx_sub_plain_factor [OF ne t(2) pf] obtain m' b' where "t = m' @ ft @ b'" by blast
        have "rx_lang p (hd @ m' @ ft)"
          unfolding p rx_lang.simps using hd ft by (fastforce simp: list_all_iff)
        with t(1) \<open>t = m' @ ft @ b'\<close> keep(2) [of "hd @ m' @ ft" b'] show ?thesis by simp
      next
        case (Cons x a')
        with less.prems keep less.hyps [of cs a'] show ?thesis by simp
      qed
    qed
  qed
qed

text \<open>Every pattern of the list but the last has plain words only; so have the two ends of the last.\<close>

fun plain_classes :: "rx \<Rightarrow> bool" where
  "plain_classes (Cls P) \<longleftrightarrow> \<not> P 91 \<and> \<not> P 93"
| "plain_classes (Rep P m n) \<longleftrightarrow> \<not> P 91 \<and> \<not> P 93"
| "plain_classes (LazyRep P) \<longleftrightarrow> \<not> P 91 \<and> \<not> P 93"
| "plain_classes (Opt a) \<longleftrightarrow> plain_classes a"
| "plain_classes (Seq a b) \<longleftrightarrow> plain_classes a \<and> plain_classes b"
| "plain_classes (Alt a b) \<longleftrightarrow> plain_classes a \<and> plain_classes b"

fun min_len :: "rx \<Rightarrow> nat" where
  "min_len (Cls P) = 1"
| "min_len (Rep P m n) = m"
| "min_len (LazyRep P) = 0"
| "min_len (Opt a) = 0"
| "min_len (Seq a b) = min_len a + min_len b"
| "min_len (Alt a b) = min (min_len a) (min_len b)"

lemma plain_list_all: "list_all Q u \<Longrightarrow> \<not> Q 91 \<Longrightarrow> \<not> Q 93 \<Longrightarrow> plain u"
  by (auto simp: plain_def list_all_iff)

lemma rx_lang_plain: "rx_lang p u \<Longrightarrow> plain_classes p \<Longrightarrow> plain u"
  by (induction p arbitrary: u) (auto intro: plain_list_all)

lemma rx_lang_min_len: "rx_lang p u \<Longrightarrow> min_len p \<le> length u"
  by (induction p arbitrary: u) (fastforce simp: add_mono)+

lemma plain_rxI: "plain_classes p \<Longrightarrow> 8 < min_len p \<Longrightarrow> plain_rx p"
  unfolding plain_rx_def using rx_lang_plain rx_lang_min_len by (metis order_less_le_trans)

lemma plain_lits:
  "plain_classes (rx_lit l p) \<longleftrightarrow> plain l \<and> plain_classes p"
  "plain_classes (rx_ilit l p) \<longleftrightarrow> list_all (\<lambda>c. \<not> icase c 91 \<and> \<not> icase c 93) l \<and> plain_classes p"
  "min_len (rx_lit l p) = length l + min_len p" "min_len (rx_ilit l p) = length l + min_len p"
  by (induction l) auto

lemmas char_classes = is_key_char_def is_itoken_char_def is_alnum_def is_upper_def is_space_def is_quote_def

lemma plain_patterns:
  "plain_rx RX_ANTHROPIC" "plain_rx RX_ASSIGNMENT" "plain_rx RX_BEARER" "plain_rx RX_AWS"
  "plain_rx PEM_BEGIN" "plain_rx PEM_END"
  by (rule plain_rxI; simp add: RX_ANTHROPIC_def RX_ASSIGNMENT_def RX_BEARER_def RX_AWS_def
        PEM_BEGIN_def PEM_END_def plain_lits char_classes icase_def lit_def)+

lemma nonempty_patterns: "p \<in> set SECRET_PATTERNS \<Longrightarrow> nonempty_rx p"
proof -
  have "nonempty_rx RX_PEM"
    using plain_patterns(5) by (auto simp: plain_rx_def nonempty_rx_def RX_PEM_def)
  then show "p \<in> set SECRET_PATTERNS \<Longrightarrow> nonempty_rx p"
    using plain_patterns by (auto simp: SECRET_PATTERNS_def plain_rx_def nonempty_rx_def)
qed

lemma redact_text_clean: "p \<in> set SECRET_PATTERNS \<Longrightarrow> \<not> rx_found p (redact_text t)"
proof -
  note keep = rx_sub_keeps_absent [OF nonempty_patterns]
  note pl = plain_patterns
  assume "p \<in> set SECRET_PATTERNS"
  then consider "p = RX_ANTHROPIC" | "p = RX_ASSIGNMENT" | "p = RX_BEARER" | "p = RX_AWS" | "p = RX_PEM"
    by (auto simp: SECRET_PATTERNS_def)
  then show ?thesis
    by cases (simp_all add: redact_text_def SECRET_PATTERNS_def rx_sub_removes rx_sub_removes_span [OF pl(5,6) RX_PEM_def] keep pl)
qed

text \<open>A text without matches is returned as it is.\<close>

lemma rx_sub_absent: "\<not> rx_found p s \<Longrightarrow> rx_sub p new s = s"
proof (induction s)
  case (Cons c cs)
  have "\<not> rx_lang p u" if "c # cs = u @ r" for u r
    using Cons.prems that unfolding rx_found_def by (metis append_Nil)
  then have "rx_rests p (c # cs) = []" unfolding no_match_here by blast
  moreover have "\<not> rx_found p cs"
    using Cons.prems unfolding rx_found_def by (metis append_Cons)
  ultimately show ?case using Cons.IH by (simp add: rx_sub.simps(2))
qed simp

lemma redact_text_absent: "(\<And>p. p \<in> set SECRET_PATTERNS \<Longrightarrow> \<not> rx_found p t) \<Longrightarrow> redact_text t = t"
  by (simp add: redact_text_def SECRET_PATTERNS_def rx_sub_absent)

lemma redact_text_idem: "redact_text (redact_text t) = redact_text t"
  by (rule redact_text_absent) (rule redact_text_clean)

section \<open>Properties\<close>

text \<open>
  C10: redaction is complete. Whatever the text, no part of the redacted text matches any of the five
  secret patterns, not even across the places where something was replaced.
\<close>

theorem redaction_complete:
  "\<forall>p \<in> set SECRET_PATTERNS. \<not> (\<exists>before secret after. redact_text t = before @ secret @ after \<and> rx_lang p secret)"
  using redact_text_clean unfolding rx_found_def by blast

theorem redaction_complete_witness:
  "\<not> rx_lang RX_BEARER (redact_text (lit ''bearer abcdefghijklmnop''))"
proof -
  have "RX_BEARER \<in> set SECRET_PATTERNS" by (simp add: SECRET_PATTERNS_def)
  with redaction_complete [of "lit ''bearer abcdefghijklmnop''"]
  have "\<not> (\<exists>before secret after. redact_text (lit ''bearer abcdefghijklmnop'') = before @ secret @ after
      \<and> rx_lang RX_BEARER secret)" by (rule bspec)
  then show ?thesis by (metis append_Nil append_Nil2)
qed

text \<open>
  Redaction of text is idempotent and touches nothing else: text without a match is returned as
  it is, so redacting what is already redacted changes nothing.
\<close>

theorem redaction_idempotent:
  "redact_text (redact_text t) = redact_text t"
  by (rule redact_text_idem)

text \<open>The strings inside a value, the keys of its dicts left out.\<close>

fun strings_in :: "pyval \<Rightarrow> str list" and strings_in_list :: "pyval list \<Rightarrow> str list"
and strings_in_items :: "dict \<Rightarrow> str list" where
  "strings_in (PStr s) = [s]"
| "strings_in (PTicketStatus s) = [ticket_status_value s]"
| "strings_in (PRunStatus s) = [run_status_value s]"
| "strings_in (PSummary d) = [summary d]"
| "strings_in (PList vs) = strings_in_list vs"
| "strings_in (PDict d) = strings_in_items d"
| "strings_in _ = []"
| "strings_in_list [] = []"
| "strings_in_list (v # vs) = strings_in v @ strings_in_list vs"
| "strings_in_items [] = []"
| "strings_in_items ((k, v) # d) = strings_in v @ strings_in_items d"

fun json_plain :: "pyval \<Rightarrow> bool" and json_plain_list :: "pyval list \<Rightarrow> bool"
and json_plain_items :: "dict \<Rightarrow> bool" where
  "json_plain (PTicketStatus s) = False"
| "json_plain (PRunStatus s) = False"
| "json_plain (PSummary d) = False"
| "json_plain (PList vs) = json_plain_list vs"
| "json_plain (PDict d) = json_plain_items d"
| "json_plain _ = True"
| "json_plain_list [] = True"
| "json_plain_list (v # vs) = (json_plain v \<and> json_plain_list vs)"
| "json_plain_items [] = True"
| "json_plain_items ((k, v) # d) = (json_plain v \<and> json_plain_items d)"

lemma redacted_strings:
  "t \<in> set (strings_in (redact_value v)) \<Longrightarrow> \<exists>s. t = redact_text s"
  "t \<in> set (strings_in_list (redact_values vs)) \<Longrightarrow> \<exists>s. t = redact_text s"
  "t \<in> set (strings_in_items (redact_items d)) \<Longrightarrow> \<exists>s. t = redact_text s"
  by (induction v and vs and d rule: redact_value_redact_values_redact_items.induct) auto

lemma redacted_plain:
  "json_plain (redact_value v)" "json_plain_list (redact_values vs)" "json_plain_items (redact_items d)"
  by (induction v and vs and d rule: redact_value_redact_values_redact_items.induct) auto

lemma redacted_keys: "map fst (redact_items d) = map fst d"
  by (induction d) auto

text \<open>
  C32: what \<open>redact_value\<close> returns can be serialised by \<open>json.dumps\<close> as it is (no enum and no
  dataclass is left at any depth), and no string value in it, at any depth, contains a secret. The
  keys of dicts are not strings in this sense: they are kept.
\<close>

theorem redacted_value_safe:
  "json_plain (redact_value v)
   \<and> (\<forall>t \<in> set (strings_in (redact_value v)). \<forall>p \<in> set SECRET_PATTERNS. \<not> rx_found p t)"
  using redacted_plain(1) redacted_strings(1) redact_text_clean by blast

theorem redacted_value_safe_witness:
  "\<not> rx_found RX_AWS (redact_text (lit ''AKIA0123456789ABCDEF''))"
proof -
  let ?v = "PList [PStr (lit ''AKIA0123456789ABCDEF'')]"
  have "redact_text (lit ''AKIA0123456789ABCDEF'') \<in> set (strings_in (redact_value ?v))" by simp
  moreover have "RX_AWS \<in> set SECRET_PATTERNS" by (simp add: SECRET_PATTERNS_def)
  ultimately show ?thesis using redacted_value_safe [of ?v] by blast
qed

lemma json_dumps_cap:
  "json_dumps P (PDict [(lit ''truncated'', PBool True), (lit ''original_size_bytes'', PInt n), (lit ''preview'', PStr t)])
   = lit ''{'' @ json_str (lit ''truncated'') @ lit '': true, '' @ json_str (lit ''original_size_bytes'') @ lit '': ''
     @ int_str n @ lit '', '' @ json_str (lit ''preview'') @ lit '': '' @ json_str t @ lit ''}''"
  by (simp add: lit_def)

lemma ascii_take: "ascii_text s \<Longrightarrow> ascii_text (take n s)"
  by (auto simp: ascii_text_def dest: in_set_takeD)

lemma ascii_utf8: "ascii_text s \<Longrightarrow> length (utf8_bytes s) = length s"
  by (intro length_utf8_ascii) (auto simp: ascii_text_def)

text \<open>
  C33: what \<open>cap_payload\<close> returns is bounded. It is the payload itself when that is at most the cap in
  JSON, and otherwise a marker, the size and a preview, whose own JSON is at most twice the preview
  plus the marker: escaping the preview again may double it, so the cap itself is not a bound.
\<close>

theorem payload_cap_bound:
  assumes "floats_ascii_items payload" and "200 \<le> max_bytes"
  shows "length (json_dumps P (PDict (cap_payload P payload max_bytes)))
    \<le> (if length (json_dumps P (PDict payload)) \<le> max_bytes then max_bytes
       else 2 * (max_bytes - 200) + length (int_str (int (length (json_dumps P (PDict payload))))) + 64)"
proof -
  let ?e = "json_dumps P (PDict payload)"
  have a: "ascii_text ?e" using json_dumps_ascii(1) [of "PDict payload" P] assms(1) by simp
  then have b: "length (utf8_bytes ?e) = length ?e"
    by (rule ascii_utf8)
  have t: "ascii_text (take (max_bytes - 200) ?e)"
    using a by (rule ascii_take)
  have "length (json_str (take (max_bytes - 200) ?e)) \<le> 2 * (max_bytes - 200) + 2"
    by (rule order_trans [OF json_str_ascii_length [OF t]]) simp
  moreover have "length (json_str (lit ''truncated'')) = 11" "length (json_str (lit ''original_size_bytes'')) = 21"
    "length (json_str (lit ''preview'')) = 9"
    by (simp_all add: json_str_def json_esc_def lit_def)
  ultimately show ?thesis
    using b by (simp add: cap_payload_def Let_def json_dumps_cap del: json_dumps.simps)
qed

theorem payload_cap_bound_witness:
  "length (json_dumps (\<lambda>_. True) (PDict (cap_payload (\<lambda>_. True) [(lit ''raw_request'', PStr (lit ''hello''))] MAX_PAYLOAD_BYTES)))
     \<le> MAX_PAYLOAD_BYTES"
proof -
  have l: "length (json_dumps (\<lambda>_. True) (PDict [(lit ''raw_request'', PStr (lit ''hello''))])) \<le> MAX_PAYLOAD_BYTES"
    by (simp add: json_str_def json_esc_def lit_def MAX_PAYLOAD_BYTES_def)
  have "200 \<le> MAX_PAYLOAD_BYTES" by (simp add: MAX_PAYLOAD_BYTES_def)
  from payload_cap_bound [of "[(lit ''raw_request'', PStr (lit ''hello''))]" MAX_PAYLOAD_BYTES "\<lambda>_. True"] this l
  show ?thesis by (simp del: json_dumps.simps)
qed

end
