(* ===== verification/Registry.thy ===== *)
theory Registry
  imports Events
begin

text \<open>
  \<open>server/registry.py\<close>: the record of one run (backlog, sequence counter, wake signal and the
  bookkeeping of the runner) and the registry that admits one run at a time. The records are
  Python objects that the route handlers and the run's task share; the registry keeps them by
  run id in insertion order, and \<open>update_record\<close> is a mutation through any of the references.
  The locale \<open>run_slot\<close> is the contract of the admission: whatever the order of requests and
  completions, at most one run is open.
\<close>

section \<open>RunRecord\<close>

datatype run_state = Queued | Running | Completed | Run_failed_state | Escalated_state

fun run_state_value :: "run_state \<Rightarrow> str" where
  "run_state_value Queued = lit ''queued''"
| "run_state_value Running = lit ''running''"
| "run_state_value Completed = lit ''completed''"
| "run_state_value Run_failed_state = lit ''failed''"
| "run_state_value Escalated_state = lit ''escalated''"

definition BACKLOG_MAXLEN :: nat where
  "BACKLOG_MAXLEN = 2000"

record run_record =
  rr_run_id :: str
  rr_raw_request :: str
  rr_status :: run_state
  rr_created_at :: str
  rr_backlog :: "envelope list"
  rr_new_event :: bool
  rr_seq_counter :: int
  rr_has_task :: bool
  rr_last_attempt_log_len :: nat
  rr_last_escalation_count :: int
  rr_last_run_status :: pyval

definition new_record :: "str \<Rightarrow> str \<Rightarrow> str \<Rightarrow> run_record" where
  "new_record now run_id raw_request =
     \<lparr>rr_run_id = run_id, rr_raw_request = raw_request, rr_status = Queued, rr_created_at = now,
      rr_backlog = [], rr_new_event = False, rr_seq_counter = 0, rr_has_task = False,
      rr_last_attempt_log_len = 0, rr_last_escalation_count = 0, rr_last_run_status = PNone\<rparr>"

definition next_seq :: "run_record \<Rightarrow> int \<times> run_record" where
  "next_seq r = (rr_seq_counter r + 1, r\<lparr>rr_seq_counter := rr_seq_counter r + 1\<rparr>)"

definition emit :: "envelope \<Rightarrow> run_record \<Rightarrow> run_record" where
  "emit e r = r\<lparr>rr_backlog := last_n BACKLOG_MAXLEN (rr_backlog r @ [e]), rr_new_event := True\<rparr>"

text \<open>The call that every event of the runner makes: \<open>emit(make_envelope(seq=next_seq(), ...))\<close>.\<close>

definition emit_event ::
  "(int \<Rightarrow> bool) \<Rightarrow> (int \<Rightarrow> str) \<Rightarrow> event_kind \<Rightarrow> str option \<Rightarrow> dict \<Rightarrow> run_record \<Rightarrow> run_record" where
  "emit_event P clock kind node payload r =
     (let (sq, r1) = next_seq r
      in emit (make_envelope P (clock sq) sq (rr_run_id r1) kind node payload) r1)"

section \<open>RunRegistry\<close>

record registry =
  rg_runs :: "(str \<times> run_record) list"
  rg_active :: "str option"

definition new_registry :: registry where
  "new_registry = \<lparr>rg_runs = [], rg_active = None\<rparr>"

fun put_record :: "str \<Rightarrow> run_record \<Rightarrow> (str \<times> run_record) list \<Rightarrow> (str \<times> run_record) list" where
  "put_record i r [] = [(i, r)]"
| "put_record i r ((j, q) # rs) = (if j = i then (j, r) # rs else (j, q) # put_record i r rs)"

definition try_start :: "str \<Rightarrow> str \<Rightarrow> str \<Rightarrow> registry \<Rightarrow> run_record option \<times> registry" where
  "try_start now run_id raw_request g =
     (if rg_active g \<noteq> None then (None, g)
      else (let r = new_record now run_id raw_request
            in (Some r, g\<lparr>rg_runs := put_record run_id r (rg_runs g), rg_active := Some run_id\<rparr>)))"

definition finish :: "str \<Rightarrow> registry \<Rightarrow> registry" where
  "finish run_id g = (if rg_active g = Some run_id then g\<lparr>rg_active := None\<rparr> else g)"

definition get_record :: "str \<Rightarrow> registry \<Rightarrow> run_record option" where
  "get_record run_id g = map_of (rg_runs g) run_id"

definition all_known :: "registry \<Rightarrow> run_record list" where
  "all_known g = map snd (rg_runs g)"

definition update_record :: "str \<Rightarrow> (run_record \<Rightarrow> run_record) \<Rightarrow> registry \<Rightarrow> registry" where
  "update_record run_id f g =
     g\<lparr>rg_runs := map (\<lambda>(i, r). (i, if i = run_id then f r else r)) (rg_runs g)\<rparr>"

section \<open>Records and their sequence numbers\<close>

lemma map_of_put_record: "map_of (put_record i r rs) = (map_of rs)(i \<mapsto> r)"
  by (induction i r rs rule: put_record.induct) (auto simp: fun_eq_iff)

lemma map_of_map_snd:
  "map_of (map (\<lambda>(i, r). (i, h i r)) rs) j = map_option (h j) (map_of rs j)"
  by (induction rs) auto

lemma get_update_record:
  "get_record j (update_record i f g) = map_option (\<lambda>r. if j = i then f r else r) (get_record j g)"
  by (simp add: get_record_def update_record_def map_of_map_snd)

lemma update_record_active [simp]: "rg_active (update_record i f g) = rg_active g"
  by (simp add: update_record_def)

text \<open>
  The sequence numbers of the backlog are consecutive and end at the counter: this is what the
  cursor of a stream relies on.
\<close>

definition seqs_ok :: "run_record \<Rightarrow> bool" where
  "seqs_ok r \<longleftrightarrow> 0 \<le> rr_seq_counter r
     \<and> int (length (rr_backlog r)) = min (rr_seq_counter r) (int BACKLOG_MAXLEN)
     \<and> map ev_seq (rr_backlog r)
         = map (\<lambda>k. rr_seq_counter r - int (length (rr_backlog r)) + int k + 1) [0..<length (rr_backlog r)]
     \<and> (\<forall>e \<in> set (rr_backlog r). ev_run_id e = rr_run_id r)"

lemma seqs_ok_new [simp]: "seqs_ok (new_record now i raw)"
  by (simp add: seqs_ok_def new_record_def)

lemma last_n_snoc:
  "0 < n \<Longrightarrow> last_n n (xs @ [x]) = (if length xs < n then xs @ [x] else tl (last_n n xs) @ [x])"
  if "length xs \<le> n"
  using that by (auto simp: last_n_def Suc_diff_le drop_Suc le_Suc_eq) 

lemma emit_event_fields:
  "rr_seq_counter (emit_event P ck k nd p r) = rr_seq_counter r + 1"
  "rr_run_id (emit_event P ck k nd p r) = rr_run_id r"
  "rr_status (emit_event P ck k nd p r) = rr_status r"
  "rr_raw_request (emit_event P ck k nd p r) = rr_raw_request r"
  "rr_new_event (emit_event P ck k nd p r) = True"
  "rr_backlog (emit_event P ck k nd p r) = last_n BACKLOG_MAXLEN (rr_backlog r @
     [make_envelope P (ck (rr_seq_counter r + 1)) (rr_seq_counter r + 1) (rr_run_id r) k nd p])"
  "rr_last_attempt_log_len (emit_event P ck k nd p r) = rr_last_attempt_log_len r"
  "rr_last_escalation_count (emit_event P ck k nd p r) = rr_last_escalation_count r"
  "rr_last_run_status (emit_event P ck k nd p r) = rr_last_run_status r"
  "rr_has_task (emit_event P ck k nd p r) = rr_has_task r"
  by (simp_all add: emit_event_def next_seq_def emit_def)

lemma make_envelope_fields [simp]:
  "ev_seq (make_envelope P t sq i k nd p) = sq" "ev_run_id (make_envelope P t sq i k nd p) = i"
  "ev_kind (make_envelope P t sq i k nd p) = k" "ev_node (make_envelope P t sq i k nd p) = nd"
  by (simp_all add: make_envelope_def)

lemma map_ev_seq_cons:
  "map f [0..<Suc n] = f 0 # map (\<lambda>k. f (Suc k)) [0..<n]"
  by (simp add: upt_conv_Cons map_Suc_upt [symmetric] comp_def del: upt_Suc)

lemma seqs_ok_emit:
  assumes "seqs_ok r"
  shows "seqs_ok (emit_event P ck k nd p r)"
proof -
  let ?c = "rr_seq_counter r" and ?b = "rr_backlog r"
  let ?e = "make_envelope P (ck (?c + 1)) (?c + 1) (rr_run_id r) k nd p"
  from assms have c: "0 \<le> ?c" and l: "int (length ?b) = min ?c (int BACKLOG_MAXLEN)"
    and m: "map ev_seq ?b = map (\<lambda>k. ?c - int (length ?b) + int k + 1) [0..<length ?b]"
    and i: "\<forall>e \<in> set ?b. ev_run_id e = rr_run_id r"
    by (auto simp: seqs_ok_def)
  from l have len: "length ?b \<le> BACKLOG_MAXLEN" by linarith
  have pos: "0 < BACKLOG_MAXLEN" by (simp add: BACKLOG_MAXLEN_def)
  show ?thesis
  proof (cases "length ?b < BACKLOG_MAXLEN")
    case True
    then have b: "rr_backlog (emit_event P ck k nd p r) = ?b @ [?e]"
      using last_n_snoc [OF len pos] by (simp add: emit_event_fields)
    from True l have "?c = int (length ?b)" by linarith
    with m have "map ev_seq ?b = map (\<lambda>k. int k + 1) [0..<length ?b]" by simp
    with b i c True \<open>?c = int (length ?b)\<close> show ?thesis
      by (simp add: seqs_ok_def emit_event_fields(1,2))
  next
    case False
    with len have eq: "length ?b = BACKLOG_MAXLEN" by simp
    then obtain x b' where b: "?b = x # b'" using pos by (cases ?b) auto
    have bl: "rr_backlog (emit_event P ck k nd p r) = b' @ [?e]"
      using last_n_snoc [OF len pos] eq b by (simp add: emit_event_fields last_n_def)
    from m have "map ev_seq (x # b') = map (\<lambda>k. ?c - int (Suc (length b')) + int k + 1) [0..<Suc (length b')]"
      by (simp only: b list.size(4) add_Suc_right add_0_right)
    then have "map ev_seq b' = map (\<lambda>k. ?c - int (length b') + int k + 1) [0..<length b']"
      unfolding map_ev_seq_cons by (simp add: algebra_simps)
    then have q: "map ev_seq (b' @ [?e]) =
        map (\<lambda>k. (?c + 1) - int (length (b' @ [?e])) + int k + 1) [0..<length (b' @ [?e])]"
      by (simp add: algebra_simps)
    have "int (length (b' @ [?e])) = min (?c + 1) (int BACKLOG_MAXLEN)"
      using l eq b by simp
    with q i b c show ?thesis
      unfolding seqs_ok_def bl emit_event_fields(1,2) by simp
  qed
qed

lemma seqs_ok_cong:
  "seqs_ok r \<Longrightarrow> rr_seq_counter q = rr_seq_counter r \<Longrightarrow> rr_backlog q = rr_backlog r \<Longrightarrow> rr_run_id q = rr_run_id r
   \<Longrightarrow> seqs_ok q"
  by (simp add: seqs_ok_def)

section \<open>One run at a time\<close>

datatype slot_op = Start str str str | Finish str

locale run_slot =
  fixes start :: "str \<Rightarrow> str \<Rightarrow> str \<Rightarrow> 'g \<Rightarrow> 'r option \<times> 'g"
    and release :: "str \<Rightarrow> 'g \<Rightarrow> 'g"
    and active :: "'g \<Rightarrow> str option"
  assumes start_busy: "active g \<noteq> None \<Longrightarrow> start now i raw g = (None, g)"
    and start_free: "active g = None \<Longrightarrow>
          fst (start now i raw g) \<noteq> None \<and> active (snd (start now i raw g)) = Some i"
    and release_law: "active (release i g) = (if active g = Some i then None else active g)"
begin

text \<open>The runs that were admitted and not released, after a sequence of operations.\<close>

fun open_runs :: "slot_op list \<Rightarrow> 'g \<Rightarrow> str list \<Rightarrow> str list" where
  "open_runs [] g opn = opn"
| "open_runs (Start now i raw # ops) g opn =
     (case start now i raw g of
        (None, g') \<Rightarrow> open_runs ops g' opn
      | (Some _, g') \<Rightarrow> open_runs ops g' (i # opn))"
| "open_runs (Finish i # ops) g opn = open_runs ops (release i g) (filter (\<lambda>j. j \<noteq> i) opn)"

lemma open_runs_single:
  assumes "opn = (case active g of None \<Rightarrow> [] | Some i \<Rightarrow> [i])"
  shows "length (open_runs ops g opn) \<le> 1"
  using assms
proof (induction ops g opn rule: open_runs.induct)
  case (1 g opn)
  then show ?case by (auto split: option.splits)
next
  case (2 now i raw ops g opn)
  show ?case
  proof (cases "active g")
    case None
    obtain r g' where s: "start now i raw g = (r, g')" by (cases "start now i raw g")
    with None start_free [OF None, of now i raw] obtain q where "r = Some q" "active g' = Some i" by auto
    with s 2(2) [OF s [symmetric]] 2(3) None show ?thesis by simp
  next
    case (Some j)
    with start_busy [of g now i raw] have s: "start now i raw g = (None, g)" by simp
    with 2(1) [OF s [symmetric]] 2(3) show ?thesis by simp
  qed
next
  case (3 i ops g opn)
  then show ?case by (auto simp: release_law split: option.splits if_splits)
qed

end

interpretation registry_slot: run_slot try_start finish rg_active
  by unfold_locales (auto simp: try_start_def finish_def Let_def)

section \<open>Properties\<close>

text \<open>
  At most one run is open. Take any sequence of start requests and completions, in any order and
  with any ids: of the runs that were admitted, at most one has not been finished.
\<close>

theorem at_most_one_open_run:
  "length (registry_slot.open_runs ops new_registry []) \<le> 1"
  by (rule registry_slot.open_runs_single) (simp add: new_registry_def)

end
