(* ===== verification/Runtime.thy ===== *)
theory Runtime
  imports State Utf8
begin

text \<open>
  \<open>syndicate/runtime/\<close>: the \<open>RuntimeClient\<close> protocol, the in-memory mock and the adapter for
  the OpenHands agent server. A client is a record of its operations over a world \<open>'w\<close>. The
  HTTP library is a parameter (\<open>http\<close>): its functions take the client's configuration, the
  request, and return a response or raise. Two locales state what the callers rely on:
  \<open>sandbox_backend\<close> (an edit is a read, a unique replacement and a write; both backends) and
  \<open>file_store\<close> (the files behave as a map; the mock).
\<close>

section \<open>base.py\<close>

record action_result =
  exit_code :: int
  "output" :: str

definition str_replace :: "(int \<Rightarrow> bool) \<Rightarrow> pyval \<Rightarrow> pyval \<Rightarrow> pyval \<Rightarrow> pyval \<Rightarrow> exc + pyval" where
  "str_replace P content old_string new_string path =
     (case content of
        PStr c \<Rightarrow>
          (case old_string of
             PStr old \<Rightarrow>
               (if py_count old c \<noteq> 1
                then Inl (ValueError (lit ''expected exactly one occurrence of old_string in ''
                            @ py_repr P path @ lit '', found '' @ int_str (int (py_count old c))))
                else (case new_string of
                        PStr new \<Rightarrow> Inr (PStr (py_replace_first c old new))
                      | _ \<Rightarrow> Inl (TypeError (lit ''replace() argument 2 must be str''))))
           | _ \<Rightarrow> Inl (TypeError (lit ''must be str'')))
      | _ \<Rightarrow> Inl (AttributeError (lit ''object has no attribute count'')))"

record 'w runtime_client =
  rc_is_mock :: bool
  rc_run_action :: "pyval \<Rightarrow> pyval \<Rightarrow> rat option \<Rightarrow> ('w, action_result) prog"
  rc_read_file :: "pyval \<Rightarrow> ('w, pyval) prog"
  rc_write_file :: "pyval \<Rightarrow> pyval \<Rightarrow> ('w, unit) prog"
  rc_edit_file :: "pyval \<Rightarrow> pyval \<Rightarrow> pyval \<Rightarrow> ('w, unit) prog"
  rc_aclose :: "('w, unit) prog"

section \<open>mock.py\<close>

text \<open>
  The mock's state is its \<open>_files\<close> dict. A dict key must be hashable; \<open>True\<close> and \<open>1\<close> are the
  same key, and a \<open>str\<close> enum member is the same key as its value.
\<close>

type_synonym mock_files = "pyval \<Rightarrow> pyval option"

fun hash_key :: "pyval \<Rightarrow> exc + pyval" where
  "hash_key (PList _) = Inl (TypeError (lit ''unhashable type''))"
| "hash_key (PDict _) = Inl (TypeError (lit ''unhashable type''))"
| "hash_key (PSummary _) = Inl (TypeError (lit ''unhashable type''))"
| "hash_key (PBool b) = Inr (PInt (if b then 1 else 0))"
| "hash_key (PTicketStatus s) = Inr (PStr (ticket_status_value s))"
| "hash_key (PRunStatus s) = Inr (PStr (run_status_value s))"
| "hash_key v = Inr v"

definition mock_run_action ::
  "(int \<Rightarrow> bool) \<Rightarrow> pyval \<Rightarrow> pyval \<Rightarrow> rat option \<Rightarrow> (mock_files, action_result) prog" where
  "mock_run_action P action cwd timeout =
     ret \<lparr>exit_code = 0, output = lit ''[mock] '' @ py_str P action\<rparr>"

definition mock_read_file :: "(int \<Rightarrow> bool) \<Rightarrow> pyval \<Rightarrow> (mock_files, pyval) prog" where
  "mock_read_file P path = (\<lambda>files.
     case hash_key path of
       Inl e \<Rightarrow> (Inl e, files)
     | Inr k \<Rightarrow> (case files k of
                   None \<Rightarrow> (Inl (FileNotFoundError (py_str P path)), files)
                 | Some c \<Rightarrow> (Inr c, files)))"

definition mock_write_file :: "pyval \<Rightarrow> pyval \<Rightarrow> (mock_files, unit) prog" where
  "mock_write_file path content = (\<lambda>files.
     case hash_key path of
       Inl e \<Rightarrow> (Inl e, files)
     | Inr k \<Rightarrow> (Inr (), files(k \<mapsto> content)))"

definition mock_edit_file :: "(int \<Rightarrow> bool) \<Rightarrow> pyval \<Rightarrow> pyval \<Rightarrow> pyval \<Rightarrow> (mock_files, unit) prog" where
  "mock_edit_file P path old_string new_string =
     bnd (mock_read_file P path) (\<lambda>content.
     bnd (of_result (str_replace P content old_string new_string path)) (\<lambda>replaced.
       mock_write_file path replaced))"

definition mock_aclose :: "(mock_files, unit) prog" where
  "mock_aclose = ret ()"

definition mock_client :: "(int \<Rightarrow> bool) \<Rightarrow> mock_files runtime_client" where
  "mock_client P = \<lparr>rc_is_mock = True, rc_run_action = mock_run_action P,
     rc_read_file = mock_read_file P, rc_write_file = mock_write_file, rc_edit_file = mock_edit_file P,
     rc_aclose = mock_aclose\<rparr>"

section \<open>openhands.py\<close>

text \<open>
  The answer of \<open>POST /api/bash/execute_bash_command\<close> as the server's \<open>BashOutput\<close> types it,
  with the \<open>repr\<close> of the whole JSON object for the error message. \<open>http\<close> stands for
  \<open>httpx.AsyncClient\<close>: a response has a status code, a text and, for the bash endpoint, the
  parsed body.
\<close>

record bash_output =
  bo_exit_code :: "int option"
  bo_stdout :: "str option"
  bo_stderr :: "str option"
  bo_repr :: str

record http_response =
  status_code :: int
  resp_text :: str
  resp_json :: "exc + bash_output"

record http_config =
  hc_base_url :: str
  hc_headers :: "(str \<times> str) list"
  hc_timeout :: rat

record 'w http =
  http_post_json :: "http_config \<Rightarrow> str \<Rightarrow> dict \<Rightarrow> rat \<Rightarrow> ('w, http_response) prog"
  http_get :: "http_config \<Rightarrow> str \<Rightarrow> ('w, http_response) prog"
  http_post_file :: "http_config \<Rightarrow> str \<Rightarrow> str \<Rightarrow> int list \<Rightarrow> ('w, http_response) prog"
  http_aclose :: "http_config \<Rightarrow> ('w, unit) prog"

definition raise_for_status :: "http_response \<Rightarrow> exc + unit" where
  "raise_for_status r =
     (if 200 \<le> status_code r \<and> status_code r < 300 then Inr ()
      else Inl (ExternalError (lit ''HTTPStatusError '' @ int_str (status_code r))))"

definition openhands_init :: "str \<Rightarrow> str option \<Rightarrow> rat \<Rightarrow> http_config" where
  "openhands_init base_url session_api_key timeout =
     \<lparr>hc_base_url = py_rstrip_char 47 base_url,
      hc_headers = (case session_api_key of
          None \<Rightarrow> []
        | Some k \<Rightarrow> if k = [] then [] else [(lit ''X-Session-API-Key'', k)]),
      hc_timeout = timeout\<rparr>"

definition bash_payload :: "pyval \<Rightarrow> pyval \<Rightarrow> rat option \<Rightarrow> dict" where
  "bash_payload action cwd timeout =
     [(lit ''command'', action)]
     @ (if cwd = PNone then [] else [(lit ''cwd'', cwd)])
     @ (case timeout of
          None \<Rightarrow> []
        | Some t \<Rightarrow> [(lit ''timeout'', PInt (if 0 \<le> t then floor t else ceiling t))])"

definition openhands_run_action ::
  "(int \<Rightarrow> bool) \<Rightarrow> 'w http \<Rightarrow> http_config \<Rightarrow> pyval \<Rightarrow> pyval \<Rightarrow> rat option \<Rightarrow> ('w, action_result) prog" where
  "openhands_run_action P h cfg action cwd timeout =
     bnd (http_post_json h cfg (lit ''/api/bash/execute_bash_command'')
            (bash_payload action cwd timeout)
            (case timeout of None \<Rightarrow> hc_timeout cfg | Some t \<Rightarrow> t + 30)) (\<lambda>response.
     bnd (of_result (raise_for_status response)) (\<lambda>_.
     bnd (of_result (resp_json response)) (\<lambda>data.
       case bo_exit_code data of
         None \<Rightarrow> raise (RuntimeError (lit ''OpenHands runtime returned no exit_code for action ''
                   @ py_repr P action @ lit '': '' @ bo_repr data))
       | Some ec \<Rightarrow>
           ret \<lparr>exit_code = ec,
                output = (case bo_stdout data of None \<Rightarrow> [] | Some t \<Rightarrow> t)
                         @ (case bo_stderr data of None \<Rightarrow> [] | Some t \<Rightarrow> t)\<rparr>)))"

definition openhands_read_file ::
  "(int \<Rightarrow> bool) \<Rightarrow> 'w http \<Rightarrow> http_config \<Rightarrow> pyval \<Rightarrow> ('w, pyval) prog" where
  "openhands_read_file P h cfg path =
     bnd (http_get h cfg (lit ''/api/file/download/'' @ py_str P path)) (\<lambda>response.
       if status_code response = 404 then raise (FileNotFoundError (py_str P path))
       else bnd (of_result (raise_for_status response)) (\<lambda>_. ret (PStr (resp_text response))))"

definition openhands_write_file ::
  "(int \<Rightarrow> bool) \<Rightarrow> 'w http \<Rightarrow> http_config \<Rightarrow> pyval \<Rightarrow> pyval \<Rightarrow> ('w, unit) prog" where
  "openhands_write_file P h cfg path content =
     (case path of
        PStr p \<Rightarrow>
          (let filename = (if py_rsplit_last 47 p = [] then lit ''file'' else py_rsplit_last 47 p)
           in case content of
                PStr c \<Rightarrow>
                  bnd (of_result (py_encode c)) (\<lambda>bytes.
                  bnd (http_post_file h cfg (lit ''/api/file/upload/'' @ p) filename bytes) (\<lambda>response.
                    of_result (raise_for_status response)))
              | _ \<Rightarrow> raise (AttributeError (lit ''object has no attribute encode'')))
      | _ \<Rightarrow> raise (AttributeError (lit ''object has no attribute rsplit'')))"

definition openhands_edit_file ::
  "(int \<Rightarrow> bool) \<Rightarrow> 'w http \<Rightarrow> http_config \<Rightarrow> pyval \<Rightarrow> pyval \<Rightarrow> pyval \<Rightarrow> ('w, unit) prog" where
  "openhands_edit_file P h cfg path old_string new_string =
     bnd (openhands_read_file P h cfg path) (\<lambda>content.
     bnd (of_result (str_replace P content old_string new_string path)) (\<lambda>replaced.
       openhands_write_file P h cfg path replaced))"

definition openhands_aclose :: "'w http \<Rightarrow> http_config \<Rightarrow> ('w, unit) prog" where
  "openhands_aclose h cfg = http_aclose h cfg"

text \<open>
  \<open>async with client as c: body\<close>: \<open>__aenter__\<close> gives the client itself and \<open>__aexit__\<close> closes it
  and returns \<open>None\<close>, so that an exception of the body goes on.
\<close>

definition openhands_aenter :: "'w runtime_client \<Rightarrow> ('w, 'w runtime_client) prog" where
  "openhands_aenter self = ret self"

definition openhands_aexit :: "'w runtime_client \<Rightarrow> exc option \<Rightarrow> ('w, bool) prog" where
  "openhands_aexit self exc = bnd (rc_aclose self) (\<lambda>_. ret False)"

definition openhands_client :: "(int \<Rightarrow> bool) \<Rightarrow> 'w http \<Rightarrow> http_config \<Rightarrow> 'w runtime_client" where
  "openhands_client P h cfg = \<lparr>rc_is_mock = False, rc_run_action = openhands_run_action P h cfg,
     rc_read_file = openhands_read_file P h cfg, rc_write_file = openhands_write_file P h cfg,
     rc_edit_file = openhands_edit_file P h cfg, rc_aclose = openhands_aclose h cfg\<rparr>"

section \<open>The replacement\<close>

lemma str_replace_InrE:
  assumes "str_replace P content old_string new_string path = Inr v"
  obtains c old new p q where "content = PStr c" and "old_string = PStr old"
    and "new_string = PStr new" and "c = p @ old @ q" and "v = PStr (p @ new @ q)"
    and "py_count old c = 1"
proof -
  obtain c old new where e: "content = PStr c" "old_string = PStr old" "new_string = PStr new"
    "py_count old c = 1" "v = PStr (py_replace_first c old new)"
    using assms by (auto simp: str_replace_def split: pyval.splits if_splits)
  obtain p q where s: "split_first old c = Some (p, q)" "c = p @ old @ q"
    using py_count_one [OF e(4)] by metis
  show ?thesis
    by (rule that [OF e(1-3) s(2) _ e(4)]) (simp add: e(5) py_replace_first_def s(1))
qed

lemma str_replace_text:
  "str_replace P (PStr c) (PStr old) (PStr new) path =
     (if py_count old c = 1 then Inr (PStr (py_replace_first c old new))
      else Inl (ValueError (lit ''expected exactly one occurrence of old_string in ''
                  @ py_repr P path @ lit '', found '' @ int_str (int (py_count old c)))))"
  by (simp add: str_replace_def)

section \<open>The contract of an edit\<close>

locale sandbox_backend =
  fixes P :: "int \<Rightarrow> bool"
    and read :: "pyval \<Rightarrow> ('w, pyval) prog"
    and "write" :: "pyval \<Rightarrow> pyval \<Rightarrow> ('w, unit) prog"
    and edit :: "pyval \<Rightarrow> pyval \<Rightarrow> pyval \<Rightarrow> ('w, unit) prog"
  assumes edit_law: "edit path old new =
    bnd (read path) (\<lambda>content.
    bnd (of_result (str_replace P content old new path)) (\<lambda>replaced. write path replaced))"
begin

lemma edit_InrE:
  assumes "edit path old new w = (Inr (), w'')"
  obtains c o' n p q w' where "read path w = (Inr (PStr c), w')" and "old = PStr o'" and "new = PStr n"
    and "c = p @ o' @ q" and "py_count o' c = 1" and "write path (PStr (p @ n @ q)) w' = (Inr (), w'')"
proof -
  from assms obtain content w1 where r: "read path w = (Inr content, w1)"
    and e: "bnd (of_result (str_replace P content old new path)) (\<lambda>v. write path v) w1 = (Inr (), w'')"
    unfolding edit_law by (rule bnd_eq_InrE)
  from e obtain v where v: "str_replace P content old new path = Inr v"
    and wr: "write path v w1 = (Inr (), w'')"
    by (auto elim: bnd_eq_InrE)
  from v show ?thesis
    by (rule str_replace_InrE) (use r wr that in metis)
qed

lemma edit_ambiguous:
  assumes "read path w = (Inr (PStr c), w')" and "py_count o' c \<noteq> 1"
  shows "\<exists>m. edit path (PStr o') new w = (Inl (ValueError m), w')"
  using assms by (simp add: edit_law str_replace_def bnd_def)

lemma edit_read_fails:
  "read path w = (Inl e, w') \<Longrightarrow> edit path old new w = (Inl e, w')"
  by (simp add: edit_law)

end

text \<open>Files that behave as a map: what a read returns after a write.\<close>

locale file_store = sandbox_backend P read "write" edit
  for P :: "int \<Rightarrow> bool"
    and read :: "pyval \<Rightarrow> ('w, pyval) prog"
    and "write" :: "pyval \<Rightarrow> pyval \<Rightarrow> ('w, unit) prog"
    and edit :: "pyval \<Rightarrow> pyval \<Rightarrow> pyval \<Rightarrow> ('w, unit) prog" +
  fixes files :: "'w \<Rightarrow> str \<Rightarrow> pyval option"
  assumes read_spec: "read (PStr p) w =
      (case files w p of None \<Rightarrow> (Inl (FileNotFoundError p), w) | Some c \<Rightarrow> (Inr c, w))"
    and write_ok: "fst (write (PStr p) c w) = Inr ()"
    and write_spec: "files (snd (write (PStr p) c w)) = (files w)(p \<mapsto> c)"
begin

lemma read_after_write:
  "write (PStr p) c w = (r, w') \<Longrightarrow> read (PStr q) w' = (if q = p then (Inr c, w') else
     (case files w q of None \<Rightarrow> (Inl (FileNotFoundError q), w') | Some d \<Rightarrow> (Inr d, w')))"
  using write_spec [of p c w] by (simp add: read_spec)

lemma edit_success:
  assumes "files w p = Some (PStr (a @ old @ b))" and "py_count old (a @ old @ b) = 1"
    and "split_first old (a @ old @ b) = Some (a, b)"
  shows "fst (edit (PStr p) (PStr old) (PStr new) w) = Inr ()"
    and "files (snd (edit (PStr p) (PStr old) (PStr new) w)) = (files w)(p \<mapsto> PStr (a @ new @ b))"
  using assms
  by (simp_all add: edit_law read_spec str_replace_text py_replace_first_def write_ok write_spec bnd_app)

lemma edit_failure:
  assumes "edit (PStr p) old new w = (Inl e, w')"
  shows "w' = w"
proof (cases "files w p")
  case None
  with assms show ?thesis by (simp add: edit_law read_spec bnd_app)
next
  case (Some c)
  then have r: "read (PStr p) w = (Inr c, w)" by (simp add: read_spec)
  show ?thesis
  proof (cases "str_replace P c old new (PStr p)")
    case (Inl e')
    with assms r show ?thesis by (simp add: edit_law bnd_app)
  next
    case (Inr v)
    with assms r have "write (PStr p) v w = (Inl e, w')" by (simp add: edit_law bnd_app)
    with write_ok [of p v w] show ?thesis by simp
  qed
qed

end

interpretation mock_rc: sandbox_backend P "mock_read_file P" mock_write_file "mock_edit_file P"
  by unfold_locales (simp add: mock_edit_file_def)

interpretation mock_fs: file_store P "mock_read_file P" mock_write_file "mock_edit_file P"
  "\<lambda>files p. files (PStr p)"
  by unfold_locales
     (auto simp: mock_read_file_def mock_write_file_def fun_eq_iff split: option.splits)

interpretation openhands_rc: sandbox_backend P "openhands_read_file P h cfg"
  "openhands_write_file P h cfg" "openhands_edit_file P h cfg"
  by unfold_locales (simp add: openhands_edit_file_def)

section \<open>Properties\<close>

text \<open>
  An edit on the mock either fails and leaves every file as it was, or it found exactly one
  occurrence of the old text in the file and replaced that occurrence and nothing else.
\<close>

theorem mock_edit_atomic:
  "case mock_edit_file P (PStr p) old_string new_string files of
     (Inl e, files') \<Rightarrow> files' = files
   | (Inr u, files') \<Rightarrow>
       (\<exists>a old new b. old_string = PStr old \<and> new_string = PStr new
          \<and> files (PStr p) = Some (PStr (a @ old @ b)) \<and> py_count old (a @ old @ b) = 1
          \<and> files' = files(PStr p \<mapsto> PStr (a @ new @ b)))"
proof (cases "mock_edit_file P (PStr p) old_string new_string files")
  case (Pair r files')
  show ?thesis
  proof (cases r)
    case (Inl e)
    with Pair mock_fs.edit_failure [of P p old_string new_string files e files'] show ?thesis by simp
  next
    case (Inr u)
    with Pair have "mock_edit_file P (PStr p) old_string new_string files = (Inr (), files')" by simp
    then show ?thesis
    proof (rule mock_rc.edit_InrE)
      fix c old new a b f
      assume "mock_read_file P (PStr p) files = (Inr (PStr c), f)" and "old_string = PStr old"
        and "new_string = PStr new" and "c = a @ old @ b" and "py_count old c = 1"
        and "mock_write_file (PStr p) (PStr (a @ new @ b)) f = (Inr (), files')"
      with Pair Inr show ?thesis
        by (auto simp: mock_read_file_def mock_write_file_def split: option.splits)
    qed
  qed
qed

text \<open>
  An edit through the agent server whose old text does not occur exactly once raises
  \<open>ValueError\<close> and sends no upload: the world is the one the download left.
\<close>

theorem openhands_edit_rejects:
  assumes "openhands_read_file P h cfg path w = (Inr (PStr c), w')" and "py_count old c \<noteq> 1"
  shows "\<exists>m. openhands_edit_file P h cfg path (PStr old) new_string w = (Inl (ValueError m), w')"
  using assms by (rule openhands_rc.edit_ambiguous)

definition counting_http :: "nat http" where
  \<comment> \<open>a server with one file \<open>aa\<close> that counts its requests\<close>
  "counting_http =
     \<lparr>http_post_json = (\<lambda>c u d t n. (Inr \<lparr>status_code = 200, resp_text = [],
          resp_json = Inr \<lparr>bo_exit_code = Some 3, bo_stdout = Some [111], bo_stderr = Some [101], bo_repr = []\<rparr>\<rparr>, Suc n)),
      http_get = (\<lambda>c u n. (Inr \<lparr>status_code = 200, resp_text = [97, 97], resp_json = Inl (JSONDecodeError [])\<rparr>, Suc n)),
      http_post_file = (\<lambda>c u f b n. (Inr \<lparr>status_code = 200, resp_text = [], resp_json = Inl (JSONDecodeError [])\<rparr>, Suc n)),
      http_aclose = (\<lambda>c. ret ())\<rparr>"

theorem openhands_edit_rejects_witness:
  "\<exists>m. openhands_edit_file (\<lambda>_. True) counting_http (openhands_init [] None 300) (PStr [102]) (PStr [97]) (PStr [98]) 0
     = (Inl (ValueError m), 1)"
  by (rule openhands_edit_rejects [where c = "[97, 97]"])
     (simp add: openhands_read_file_def counting_http_def bnd_def raise_for_status_def,
      simp add: py_count_def count_nonempty.simps)

text \<open>
  An action result of the agent server is never invented. When \<open>run_action\<close> returns, the
  server answered 2xx with an exit code, that is the exit code returned, and the output is its
  stdout followed by its stderr. A missing exit code or an error status raises.
\<close>

theorem openhands_result_reported:
  assumes "openhands_run_action P h cfg action cwd timeout w = (Inr res, w')"
  shows "\<exists>response data.
    http_post_json h cfg (lit ''/api/bash/execute_bash_command'') (bash_payload action cwd timeout)
      (case timeout of None \<Rightarrow> hc_timeout cfg | Some t \<Rightarrow> t + 30) w = (Inr response, w')
    \<and> 200 \<le> status_code response \<and> status_code response < 300
    \<and> resp_json response = Inr data \<and> bo_exit_code data = Some (exit_code res)
    \<and> output res = (case bo_stdout data of None \<Rightarrow> [] | Some t \<Rightarrow> t)
                      @ (case bo_stderr data of None \<Rightarrow> [] | Some t \<Rightarrow> t)"
  using assms
  by (auto simp: openhands_run_action_def raise_for_status_def elim!: bnd_eq_InrE
        split: option.split_asm if_split_asm)

theorem openhands_result_reported_witness:
  "\<exists>response data.
    http_post_json counting_http (openhands_init [] None 300) (lit ''/api/bash/execute_bash_command'')
      (bash_payload (PStr [108]) PNone None) 300 (0 :: nat) = (Inr response, 1)
    \<and> 200 \<le> status_code response \<and> status_code response < 300
    \<and> resp_json response = Inr data \<and> bo_exit_code data = Some 3"
  using openhands_result_reported [of "\<lambda>_. True" counting_http "openhands_init [] None 300" "PStr [108]" PNone None 0
      "\<lparr>exit_code = 3, output = [111, 101]\<rparr>" 1]
  by (simp add: openhands_run_action_def counting_http_def bnd_def raise_for_status_def openhands_init_def)

end
