(* ===== verification/Llm.thy ===== *)
theory Llm
  imports Runtime
begin

text \<open>
  The one seam through which the nodes talk to a model: the message and block shapes of
  \<open>anthropic.AsyncAnthropic().messages.create\<close> and its scripted stand-in
  \<open>syndicate/stub_llm.py\<close>. The stub's module globals and its client objects are an explicit
  store: \<open>_client_history\<close> holds addresses into \<open>ss_heap\<close>, because the loop keeps mutating a
  client object that the history list also refers to.
\<close>

section \<open>Messages\<close>

datatype block =
    TextBlock str
  | ToolUseBlock (tu_id: str) (tu_name: str) (tu_input: dict)
  | OtherBlock str

record tool_result =
  tool_use_id :: str
  tr_content :: pyval
  is_error :: bool

datatype content =
    CText str
  | CBlocks "block list"
  | CResults "tool_result list"

datatype role = User | Assistant

record message =
  msg_role :: role
  msg_content :: content

record response =
  rsp_content :: "block list"
  stop_reason :: str

record 'w llm_client =
  messages_create :: "str \<Rightarrow> int \<Rightarrow> pyval list \<Rightarrow> message list \<Rightarrow> ('w, response) prog"

fun block_text :: "block \<Rightarrow> str" where
  "block_text (TextBlock t) = t"
| "block_text _ = []"

fun is_tool_use :: "block \<Rightarrow> bool" where
  "is_tool_use (ToolUseBlock _ _ _) = True"
| "is_tool_use _ = False"

definition text_of :: "block list \<Rightarrow> str" where
  \<comment> \<open>\<open>''.join(block.text for block in content if block.type == 'text')\<close>\<close>
  "text_of bs = concat (map block_text bs)"

section \<open>The scripted stub\<close>

record stub_tool_call =
  stc_name :: str
  stc_input :: dict

record stub_turn =
  st_tool_calls :: "stub_tool_call list"
  st_done :: bool
  st_text :: str

definition tool_turn :: "(str \<times> dict) list \<Rightarrow> stub_turn" where
  "tool_turn calls = \<lparr>st_tool_calls = map (\<lambda>(n, i). \<lparr>stc_name = n, stc_input = i\<rparr>) calls,
     st_done = False, st_text = lit ''done''\<rparr>"

definition complete_turn :: "str \<Rightarrow> stub_turn" where
  "complete_turn t = \<lparr>st_tool_calls = [], st_done = True, st_text = t\<rparr>"

record stub_call =
  call_model :: str
  call_max_tokens :: int
  call_tools :: "pyval list"
  call_messages :: "message list"
  call_messages_len :: nat

record stub_client =
  sc_script :: "stub_turn list"
  call_index :: nat
  calls_seen :: "stub_call list"

record stub_state =
  ss_scripts :: "pyval \<Rightarrow> stub_turn list option"
  ss_history :: "pyval \<Rightarrow> nat list option"
  ss_heap :: "stub_client list"

definition stub_init :: "stub_turn list \<Rightarrow> exc + stub_client" where
  "stub_init script =
     (if script = [] then Inl (ValueError (lit ''stub LLM script must have at least one turn''))
      else Inr \<lparr>sc_script = script, call_index = 0, calls_seen = []\<rparr>)"

definition next_turn :: "stub_client \<Rightarrow> stub_turn \<times> stub_client" where
  "next_turn c =
     (sc_script c ! min (call_index c) (length (sc_script c) - 1),
      c\<lparr>call_index := call_index c + 1\<rparr>)"

fun stub_blocks :: "nat \<Rightarrow> nat \<Rightarrow> stub_tool_call list \<Rightarrow> block list" where
  "stub_blocks ci i [] = []"
| "stub_blocks ci i (t # ts) =
     ToolUseBlock (lit ''stub-'' @ int_str (int ci) @ lit ''-'' @ int_str (int i)) (stc_name t) (stc_input t)
     # stub_blocks ci (Suc i) ts"

definition stub_create ::
  "str \<Rightarrow> int \<Rightarrow> pyval list \<Rightarrow> message list \<Rightarrow> stub_client \<Rightarrow> response \<times> stub_client" where
  "stub_create model max_tokens tools messages owner =
     (let owner1 = owner\<lparr>calls_seen := calls_seen owner @
            [\<lparr>call_model = model, call_max_tokens = max_tokens, call_tools = tools,
              call_messages = messages, call_messages_len = length messages\<rparr>]\<rparr>;
          (turn, owner2) = next_turn owner1
      in if st_done turn
         then (\<lparr>rsp_content = [TextBlock (st_text turn)], stop_reason = lit ''end_turn''\<rparr>, owner2)
         else (\<lparr>rsp_content = stub_blocks (call_index owner2) 0 (st_tool_calls turn),
                stop_reason = lit ''tool_use''\<rparr>, owner2))"

definition set_stub_script :: "pyval \<Rightarrow> stub_turn list \<Rightarrow> (stub_state, unit) prog" where
  "set_stub_script ticket_id script = (\<lambda>s.
     case hash_key ticket_id of
       Inl e \<Rightarrow> (Inl e, s)
     | Inr k \<Rightarrow> (Inr (), s\<lparr>ss_scripts := (ss_scripts s)(k \<mapsto> script),
                             ss_history := (ss_history s)(k \<mapsto> [])\<rparr>))"

text \<open>The client is returned by reference: its address in the heap.\<close>

definition get_stub_client :: "(int \<Rightarrow> bool) \<Rightarrow> pyval \<Rightarrow> (stub_state, nat) prog" where
  "get_stub_client P ticket_id = (\<lambda>s.
     case hash_key ticket_id of
       Inl e \<Rightarrow> (Inl e, s)
     | Inr k \<Rightarrow>
         (case ss_scripts s k of
            None \<Rightarrow> (Inl (RuntimeError (lit ''no stub LLM script registered for ticket_id=''
                      @ py_repr P ticket_id
                      @ lit ''; call syndicate.stub_llm.set_stub_script first'')), s)
          | Some script \<Rightarrow>
              (case stub_init script of
                 Inl e \<Rightarrow> (Inl e, s)
               | Inr c \<Rightarrow>
                   (Inr (length (ss_heap s)),
                    s\<lparr>ss_history := (ss_history s)(k \<mapsto>
                        (case ss_history s k of None \<Rightarrow> [] | Some h \<Rightarrow> h) @ [length (ss_heap s)]),
                      ss_heap := ss_heap s @ [c]\<rparr>))))"

definition stub_messages_create ::
  "nat \<Rightarrow> str \<Rightarrow> int \<Rightarrow> pyval list \<Rightarrow> message list \<Rightarrow> (stub_state, response) prog" where
  "stub_messages_create addr model max_tokens tools messages = (\<lambda>s.
     let (rsp, c) = stub_create model max_tokens tools messages (ss_heap s ! addr)
     in (Inr rsp, s\<lparr>ss_heap := (ss_heap s)[addr := c]\<rparr>))"

definition stub_llm_client :: "nat \<Rightarrow> stub_state llm_client" where
  "stub_llm_client addr = \<lparr>messages_create = stub_messages_create addr\<rparr>"

definition get_call_history :: "pyval \<Rightarrow> stub_state \<Rightarrow> stub_client list" where
  "get_call_history k s = map (\<lambda>a. ss_heap s ! a) (case ss_history s k of None \<Rightarrow> [] | Some h \<Rightarrow> h)"

definition get_last_calls :: "pyval \<Rightarrow> stub_state \<Rightarrow> stub_call list" where
  "get_last_calls k s =
     (let history = get_call_history k s in if history = [] then [] else calls_seen (last history))"

section \<open>What the stub does\<close>

fun stub_turns :: "nat \<Rightarrow> stub_client \<Rightarrow> stub_turn list \<times> stub_client" where
  \<comment> \<open>the turns handed out by the next \<open>n\<close> calls\<close>
  "stub_turns 0 c = ([], c)"
| "stub_turns (Suc n) c =
     (let (t, c1) = next_turn c; (ts, c2) = stub_turns n c1 in (t # ts, c2))"

lemma stub_turns_spec:
  "stub_turns n c =
     (map (\<lambda>i. sc_script c ! min (call_index c + i) (length (sc_script c) - 1)) [0..<n],
      c\<lparr>call_index := call_index c + n\<rparr>)"
proof (induction n arbitrary: c)
  case (Suc n)
  have "map (\<lambda>i. sc_script c ! min (Suc (call_index c + i)) (length (sc_script c) - 1)) [0..<n]
      = map (\<lambda>i. sc_script c ! min (call_index c + i) (length (sc_script c) - 1)) [1..<Suc n]"
    by (simp add: map_Suc_upt [symmetric] comp_def del: upt_Suc)
  then show ?case
    by (simp add: Suc.IH next_turn_def upt_conv_Cons del: upt_Suc)
qed simp

text \<open>The history of every key refers to existing clients: the store has no dangling address.\<close>

definition stub_wf :: "stub_state \<Rightarrow> bool" where
  "stub_wf s \<longleftrightarrow> (\<forall>k h. ss_history s k = Some h \<longrightarrow> (\<forall>a \<in> set h. a < length (ss_heap s)))"

lemma get_stub_client_wf:
  "stub_wf s \<Longrightarrow> get_stub_client P k s = (r, s') \<Longrightarrow>
     stub_wf s' \<and> (\<forall>a. r = Inr a \<longrightarrow> a < length (ss_heap s'))"
  unfolding stub_wf_def get_stub_client_def
  by (auto split: sum.splits option.splits if_splits) (meson less_SucI)+

lemma stub_messages_create_wf:
  "stub_wf s \<Longrightarrow> stub_messages_create a m t tls ms s = (r, s') \<Longrightarrow> stub_wf s'"
  by (auto simp: stub_wf_def stub_messages_create_def Let_def split: prod.splits)

lemma set_stub_script_wf: "stub_wf s \<Longrightarrow> set_stub_script k sc s = (r, s') \<Longrightarrow> stub_wf s'"
  by (auto simp: stub_wf_def set_stub_script_def split: sum.splits if_splits)

section \<open>Properties\<close>

text \<open>
  The stub follows its script. The \<open>n\<close> turns a client hands out next are the script's from
  its call index on, and once the script is exhausted its last turn is repeated for ever.
\<close>

theorem stub_repeats_last_turn:
  "fst (stub_turns n c) =
     map (\<lambda>i. if call_index c + i < length (sc_script c) then sc_script c ! (call_index c + i)
              else sc_script c ! (length (sc_script c) - 1)) [0..<n]
   \<and> call_index (snd (stub_turns n c)) = call_index c + n"
  by (cases "sc_script c") (auto simp: stub_turns_spec min_def)

end
