(* ===== verification/Factory.thy ===== *)
theory Factory
  imports Llm
begin

text \<open>
  \<open>syndicate/runtime/factory.py\<close> and the two seams of \<open>syndicate/nodes.py\<close> that pick a backend
  from the environment: \<open>get_runtime_client\<close> and \<open>_get_llm_client\<close>. \<open>os.environ\<close> is a
  partial map. \<open>urlparse(url).port\<close> is modelled for ASCII URLs (no NFKC check of the host, no
  check of the address between brackets); \<open>float\<close> for decimal numerals.
\<close>

type_synonym environ = "str \<Rightarrow> str option"

text \<open>\<open>os.environ.setdefault(k, v)\<close>, which several scripts use.\<close>

definition setdefault :: "string \<Rightarrow> string \<Rightarrow> environ \<Rightarrow> environ" where
  "setdefault k v env = (case env (lit k) of None \<Rightarrow> env(lit k \<mapsto> lit v) | Some _ \<Rightarrow> env)"

section \<open>urlparse(url).port\<close>

definition is_alpha :: "int \<Rightarrow> bool" where
  "is_alpha c \<longleftrightarrow> (65 \<le> c \<and> c \<le> 90) \<or> (97 \<le> c \<and> c \<le> 122)"

definition is_scheme_char :: "int \<Rightarrow> bool" where
  "is_scheme_char c \<longleftrightarrow> is_alpha c \<or> is_digit c \<or> c = 43 \<or> c = 45 \<or> c = 46"

definition strip_scheme :: "str \<Rightarrow> str" where
  "strip_scheme url =
     (case split_first [58] url of
        None \<Rightarrow> url
      | Some (s, rest) \<Rightarrow>
          (case s of
             [] \<Rightarrow> url
           | c # cs \<Rightarrow> if is_alpha c \<and> list_all is_scheme_char s then rest else url))"

definition url_netloc :: "str \<Rightarrow> str" where
  "url_netloc url =
     (let cleaned = filter (\<lambda>c. c \<noteq> 9 \<and> c \<noteq> 10 \<and> c \<noteq> 13) (dropWhile (\<lambda>c. c \<le> 32) url);
          u = strip_scheme cleaned
      in if is_prefix [47, 47] u then takeWhile (\<lambda>c. c \<noteq> 47 \<and> c \<noteq> 63 \<and> c \<noteq> 35) (drop 2 u) else [])"

definition port_text :: "str \<Rightarrow> str" where
  "port_text netloc =
     (let hostinfo = py_rsplit_last 64 netloc
      in case split_first [91] hostinfo of
           Some (_, bracketed) \<Rightarrow>
             (case split_first [93] bracketed of
                None \<Rightarrow> []
              | Some (_, after) \<Rightarrow> (case split_first [58] after of None \<Rightarrow> [] | Some (_, p) \<Rightarrow> p))
         | None \<Rightarrow> (case split_first [58] hostinfo of None \<Rightarrow> [] | Some (_, p) \<Rightarrow> p))"

definition urlparse_port :: "str \<Rightarrow> exc + int option" where
  "urlparse_port url =
     (let netloc = url_netloc url; port = port_text netloc
      in if (91 \<in> set netloc) \<noteq> (93 \<in> set netloc) then Inl (ValueError (lit ''Invalid IPv6 URL''))
         else if port = [] then Inr None
         else if \<not> list_all is_digit port
           then Inl (ValueError (lit ''Port could not be cast to integer value''))
         else (case digits_value 0 port of
                 None \<Rightarrow> Inl (ValueError (lit ''Port could not be cast to integer value''))
               | Some n \<Rightarrow> if 0 \<le> n \<and> n \<le> 65535 then Inr (Some n)
                           else Inl (ValueError (lit ''Port out of range 0-65535''))))"

section \<open>factory.py\<close>

definition runtime_base_url :: "environ \<Rightarrow> exc + str" where
  "runtime_base_url env =
     (case env (lit ''SYNDICATE_RUNTIME_URL'') of
        None \<Rightarrow> Inl (RuntimeError (lit ''SYNDICATE_RUNTIME_URL is not set. It must point at a running OpenHands agent server, e.g. http://localhost:60000.''))
      | Some url0 \<Rightarrow>
          if url0 = [] then Inl (RuntimeError (lit ''SYNDICATE_RUNTIME_URL is not set. It must point at a running OpenHands agent server, e.g. http://localhost:60000.''))
          else
            (let url = py_rstrip_char 47 url0
             in case env (lit ''SYNDICATE_RUNTIME_PORT'') of
                  None \<Rightarrow> Inr url
                | Some port \<Rightarrow>
                    if port = [] then Inr url
                    else (case urlparse_port url of
                            Inl e \<Rightarrow> Inl e
                          | Inr None \<Rightarrow> Inr (url @ lit '':'' @ port)
                          | Inr (Some _) \<Rightarrow> Inr url)))"

text \<open>\<open>float(s)\<close> for a decimal numeral with an optional fraction and exponent.\<close>

fun frac_value :: "rat \<Rightarrow> rat \<Rightarrow> str \<Rightarrow> rat" where
  "frac_value scale acc [] = acc"
| "frac_value scale acc (d # ds) =
     frac_value (scale / 10) (acc + of_int (d - 48) * scale) ds"

definition py_float :: "str \<Rightarrow> exc + rat" where
  "py_float s0 =
     (let err = Inl (ValueError (lit ''could not convert string to float''));
          s = py_strip s0;
          (sg, body) = (case s of
              [] \<Rightarrow> (1, [])
            | c # cs \<Rightarrow> if c = 45 then (-1, cs) else if c = 43 then (1, cs) else (1, s));
          mant = takeWhile (\<lambda>c. c \<noteq> 101 \<and> c \<noteq> 69) body;
          ex = dropWhile (\<lambda>c. c \<noteq> 101 \<and> c \<noteq> 69) body;
          ip = takeWhile (\<lambda>c. c \<noteq> 46) mant;
          fp = dropWhile (\<lambda>c. c \<noteq> 46) mant;
          fd = (case fp of [] \<Rightarrow> [] | _ # f \<Rightarrow> f)
      in if ip @ fd = [] \<or> \<not> list_all is_digit ip \<or> \<not> list_all is_digit fd then err
         else
           (let m = of_int (the (digits_value 0 ip)) + frac_value (1 / 10) 0 fd
            in case ex of
                 [] \<Rightarrow> Inr (sg * m)
               | _ # e \<Rightarrow>
                   (case py_int e of
                      None \<Rightarrow> err
                    | Some k \<Rightarrow> if list_ex is_space e then err
                                else Inr (sg * m * (if 0 \<le> k then 10 ^ nat k else 1 / 10 ^ nat (- k))))))"

text \<open>
  The world of a whole run: the files of the current mock client, what lies behind the HTTP
  client, the stub's module globals and the Anthropic service.
\<close>

record ('h, 'l) sys_world =
  sw_mock :: mock_files
  sw_net :: 'h
  sw_stub :: stub_state
  sw_llm :: 'l

definition on_mock :: "(mock_files, 'a) prog \<Rightarrow> (('h, 'l) sys_world, 'a) prog" where
  "on_mock m = (\<lambda>w. case m (sw_mock w) of (r, f) \<Rightarrow> (r, w\<lparr>sw_mock := f\<rparr>))"

definition on_net :: "('h, 'a) prog \<Rightarrow> (('h, 'l) sys_world, 'a) prog" where
  "on_net m = (\<lambda>w. case m (sw_net w) of (r, h) \<Rightarrow> (r, w\<lparr>sw_net := h\<rparr>))"

definition on_stub :: "(stub_state, 'a) prog \<Rightarrow> (('h, 'l) sys_world, 'a) prog" where
  "on_stub m = (\<lambda>w. case m (sw_stub w) of (r, s) \<Rightarrow> (r, w\<lparr>sw_stub := s\<rparr>))"

definition on_llm :: "('l, 'a) prog \<Rightarrow> (('h, 'l) sys_world, 'a) prog" where
  "on_llm m = (\<lambda>w. case m (sw_llm w) of (r, l) \<Rightarrow> (r, w\<lparr>sw_llm := l\<rparr>))"

definition sys_mock_client :: "(int \<Rightarrow> bool) \<Rightarrow> ('h, 'l) sys_world runtime_client" where
  "sys_mock_client P = \<lparr>rc_is_mock = True,
     rc_run_action = (\<lambda>a c t. on_mock (mock_run_action P a c t)),
     rc_read_file = (\<lambda>p. on_mock (mock_read_file P p)),
     rc_write_file = (\<lambda>p c. on_mock (mock_write_file p c)),
     rc_edit_file = (\<lambda>p old new. on_mock (mock_edit_file P p old new)),
     rc_aclose = on_mock mock_aclose\<rparr>"

definition sys_openhands_client ::
  "(int \<Rightarrow> bool) \<Rightarrow> 'h http \<Rightarrow> http_config \<Rightarrow> ('h, 'l) sys_world runtime_client" where
  "sys_openhands_client P h cfg = \<lparr>rc_is_mock = False,
     rc_run_action = (\<lambda>a c t. on_net (openhands_run_action P h cfg a c t)),
     rc_read_file = (\<lambda>p. on_net (openhands_read_file P h cfg p)),
     rc_write_file = (\<lambda>p c. on_net (openhands_write_file P h cfg p c)),
     rc_edit_file = (\<lambda>p old new. on_net (openhands_edit_file P h cfg p old new)),
     rc_aclose = on_net (openhands_aclose h cfg)\<rparr>"

text \<open>Every call makes a new client; a new mock starts without files.\<close>

definition get_runtime_client ::
  "(int \<Rightarrow> bool) \<Rightarrow> 'h http \<Rightarrow> environ \<Rightarrow> (('h, 'l) sys_world, ('h, 'l) sys_world runtime_client) prog" where
  "get_runtime_client P h env =
     (if env (lit ''SYNDICATE_MOCK_CLIENT'') = Some (lit ''1'')
      then (\<lambda>w. (Inr (sys_mock_client P), w\<lparr>sw_mock := Map.empty\<rparr>))
      else
        bnd (of_result (runtime_base_url env)) (\<lambda>base_url.
        bnd (of_result (case env (lit ''SYNDICATE_RUNTIME_TIMEOUT_SECONDS'') of
                          None \<Rightarrow> Inr 300 | Some t \<Rightarrow> py_float t)) (\<lambda>timeout.
          ret (sys_openhands_client P h
                 (openhands_init base_url (env (lit ''SYNDICATE_RUNTIME_SESSION_API_KEY'')) timeout)))))"

text \<open>
  \<open>_get_llm_client\<close>: the stub under \<open>SYNDICATE_STUB_LLM=1\<close>, otherwise a new Anthropic client,
  whose construction (\<open>anthropic\<close>, a parameter) may raise.
\<close>

definition sys_stub_client :: "nat \<Rightarrow> ('h, 'l) sys_world llm_client" where
  "sys_stub_client a = \<lparr>messages_create = (\<lambda>m t tls ms. on_stub (stub_messages_create a m t tls ms))\<rparr>"

definition sys_anthropic_client :: "'l llm_client \<Rightarrow> ('h, 'l) sys_world llm_client" where
  "sys_anthropic_client c = \<lparr>messages_create = (\<lambda>m t tls ms. on_llm (messages_create c m t tls ms))\<rparr>"

definition get_llm_client ::
  "(int \<Rightarrow> bool) \<Rightarrow> ('l, 'l llm_client) prog \<Rightarrow> environ \<Rightarrow> pyval
   \<Rightarrow> (('h, 'l) sys_world, ('h, 'l) sys_world llm_client) prog" where
  "get_llm_client P anthropic env ticket_id =
     (if env (lit ''SYNDICATE_STUB_LLM'') = Some (lit ''1'')
      then bnd (on_stub (get_stub_client P (py_or ticket_id (PStr []))))
             (\<lambda>a. ret (sys_stub_client a))
      else bnd (on_llm anthropic) (\<lambda>c. ret (sys_anthropic_client c)))"

text \<open>\<open>_MAX_ESCALATIONS = int(os.environ.get('SYNDICATE_MAX_ESCALATIONS', '3'))\<close>, at import.\<close>

definition max_escalations_of :: "environ \<Rightarrow> exc + int" where
  "max_escalations_of env =
     (case env (lit ''SYNDICATE_MAX_ESCALATIONS'') of
        None \<Rightarrow> Inr 3
      | Some t \<Rightarrow> (case py_int t of
                     None \<Rightarrow> Inl (ValueError (lit ''invalid literal for int() with base 10''))
                   | Some n \<Rightarrow> Inr n))"

section \<open>Lifted operations\<close>

lemma on_mock_app: "on_mock m w = (let (r, f) = m (sw_mock w) in (r, w\<lparr>sw_mock := f\<rparr>))"
  by (simp add: on_mock_def)

lemma on_mock_bnd: "on_mock (bnd m f) = bnd (on_mock m) (\<lambda>x. on_mock (f x))"
  by (auto simp: on_mock_def bnd_def fun_eq_iff split: prod.splits sum.splits)

lemma on_net_bnd: "on_net (bnd m f) = bnd (on_net m) (\<lambda>x. on_net (f x))"
  by (auto simp: on_net_def bnd_def fun_eq_iff split: prod.splits sum.splits)

lemma on_mock_of_result: "on_mock (of_result r) = of_result r"
  by (auto simp: on_mock_def fun_eq_iff)

lemma on_net_of_result: "on_net (of_result r) = of_result r"
  by (auto simp: on_net_def fun_eq_iff)

text \<open>The clients over the whole world keep the edit contract of their backends.\<close>

interpretation sys_mock_rc: sandbox_backend P
  "rc_read_file (sys_mock_client P)" "rc_write_file (sys_mock_client P)" "rc_edit_file (sys_mock_client P)"
  by unfold_locales
     (simp add: sys_mock_client_def mock_edit_file_def on_mock_bnd on_mock_of_result)

interpretation sys_openhands_rc: sandbox_backend P
  "rc_read_file (sys_openhands_client P h cfg)" "rc_write_file (sys_openhands_client P h cfg)"
  "rc_edit_file (sys_openhands_client P h cfg)"
  by unfold_locales
     (simp add: sys_openhands_client_def openhands_edit_file_def on_net_bnd on_net_of_result)

lemma get_runtime_client_mock:
  "env (lit ''SYNDICATE_MOCK_CLIENT'') = Some (lit ''1'') \<Longrightarrow>
   get_runtime_client P h env w = (Inr (sys_mock_client P), w\<lparr>sw_mock := Map.empty\<rparr>)"
  by (simp add: get_runtime_client_def)

lemma runtime_base_url_port:
  assumes "env (lit ''SYNDICATE_RUNTIME_URL'') = Some url" and "url \<noteq> []"
    and "env (lit ''SYNDICATE_RUNTIME_PORT'') = Some port" and "port \<noteq> []"
    and "urlparse_port (py_rstrip_char 47 url) = Inr None"
  shows "runtime_base_url env = Inr (py_rstrip_char 47 url @ lit '':'' @ port)"
  using assms by (simp add: runtime_base_url_def Let_def)

section \<open>Properties\<close>

text \<open>
  The base URL is the configured URL without trailing slashes; the configured port is appended
  to it exactly when the URL itself names none.
\<close>

theorem base_url_port_once:
  assumes "runtime_base_url env = Inr base"
  shows "\<exists>url. env (lit ''SYNDICATE_RUNTIME_URL'') = Some url \<and> url \<noteq> []
    \<and> (base = py_rstrip_char 47 url
         \<and> (env (lit ''SYNDICATE_RUNTIME_PORT'') \<in> {None, Some []}
            \<or> (\<exists>q. urlparse_port (py_rstrip_char 47 url) = Inr (Some q)))
       \<or> (\<exists>port. env (lit ''SYNDICATE_RUNTIME_PORT'') = Some port \<and> port \<noteq> []
            \<and> urlparse_port (py_rstrip_char 47 url) = Inr None
            \<and> base = py_rstrip_char 47 url @ lit '':'' @ port))"
  using assms by (auto simp: runtime_base_url_def Let_def split: option.splits if_splits sum.splits)

definition local_env :: environ where
  "local_env = [lit ''SYNDICATE_RUNTIME_URL'' \<mapsto> lit ''http://localhost/'', lit ''SYNDICATE_RUNTIME_PORT'' \<mapsto> lit ''8000'']"

theorem base_url_port_once_witness:
  "\<exists>url. local_env (lit ''SYNDICATE_RUNTIME_URL'') = Some url \<and> url \<noteq> []
     \<and> lit ''http://localhost:8000'' = py_rstrip_char 47 url @ lit '':'' @ lit ''8000''"
proof -
  have "runtime_base_url local_env = Inr (lit ''http://localhost:8000'')" by code_simp
  from base_url_port_once [OF this] show ?thesis
    by (auto simp: local_env_def py_rstrip_char_def lit_def)
qed

end
