(* ===== verification/Agent_Loop.thy ===== *)
theory Agent_Loop
  imports Factory Json
begin

text \<open>
  The executor's inner loop of \<open>syndicate/nodes.py\<close>: \<open>_run_tool\<close> executes one tool call on the
  sandbox, \<open>_run_agentic_loop\<close> drives at most \<open>_MAX_TOOL_CALLS\<close> model turns. The node functions
  take an environment \<open>E\<close> with the two seams (\<open>get_runtime_client\<close> and \<open>_get_llm_client\<close>, as the
  tests replace them), the value of \<open>_MAX_ESCALATIONS\<close> and the interpreter's Unicode table.
\<close>

record 'w node_env =
  ne_get_runtime_client :: "('w, 'w runtime_client) prog"
  ne_get_llm_client :: "pyval \<Rightarrow> ('w, 'w llm_client) prog"
  ne_max_escalations :: int
  ne_printable :: "int \<Rightarrow> bool"

definition EXECUTOR_MODEL :: str where
  "EXECUTOR_MODEL = lit ''claude-sonnet-4-6''"

definition EXECUTOR_TOOLS :: "pyval list" where
  "EXECUTOR_TOOLS =
     [PDict [(lit ''type'', PStr (lit ''bash_20250124'')), (lit ''name'', PStr (lit ''bash''))],
      PDict [(lit ''type'', PStr (lit ''text_editor_20250728'')),
             (lit ''name'', PStr (lit ''str_replace_based_edit_tool''))]]"

definition MAX_TOOL_CALLS :: nat where
  "MAX_TOOL_CALLS = 25"

section \<open>_run_tool\<close>

definition run_bash_tool ::
  "'w node_env \<Rightarrow> 'w runtime_client \<Rightarrow> dict \<Rightarrow> pyval \<Rightarrow> ('w, pyval \<times> bool) prog" where
  "run_bash_tool E client tool_input cwd =
     (if truthy (dget tool_input ''restart'') then ret (PStr (lit ''bash session restarted''), False)
      else
        bnd (of_result (ditem tool_input ''command'')) (\<lambda>command.
        bnd (rc_run_action client command cwd None) (\<lambda>result.
          if exit_code result \<noteq> 0
          then ret (PStr (lit ''exit_code='' @ int_str (exit_code result) @ [10] @ output result), True)
          else ret (PStr (output result), False))))"

definition run_edit_tool ::
  "'w node_env \<Rightarrow> 'w runtime_client \<Rightarrow> dict \<Rightarrow> ('w, pyval \<times> bool) prog" where
  "run_edit_tool E client tool_input =
     bnd (of_result (ditem tool_input ''command'')) (\<lambda>command.
     bnd (of_result (ditem tool_input ''path'')) (\<lambda>path.
       if command = PStr (lit ''view'') then
         bnd (rc_read_file client path) (\<lambda>content. ret (content, False))
       else if command = PStr (lit ''create'') then
         bnd (of_result (ditem tool_input ''file_text'')) (\<lambda>file_text.
         bnd (rc_write_file client path file_text) (\<lambda>_.
           ret (PStr (lit ''created '' @ py_str (ne_printable E) path), False)))
       else if command = PStr (lit ''str_replace'') then
         bnd (of_result (ditem tool_input ''old_str'')) (\<lambda>old_str.
         bnd (of_result (ditem tool_input ''new_str'')) (\<lambda>new_str.
         bnd (rc_edit_file client path old_str new_str) (\<lambda>_.
           ret (PStr (lit ''edited '' @ py_str (ne_printable E) path), False))))
       else ret (PStr (lit ''unsupported command '' @ py_repr (ne_printable E) command), True)))"

definition run_tool ::
  "'w node_env \<Rightarrow> 'w runtime_client \<Rightarrow> str \<Rightarrow> dict \<Rightarrow> pyval \<Rightarrow> ('w, pyval \<times> bool) prog" where
  "run_tool E client name tool_input cwd =
     catch
       (if name = lit ''bash'' then run_bash_tool E client tool_input cwd
        else if name = lit ''str_replace_based_edit_tool'' then run_edit_tool E client tool_input
        else ret (PStr (lit ''unknown tool '' @ str_repr (ne_printable E) name), True))
       (\<lambda>e. is_file_not_found e \<or> is_value_error e)
       (\<lambda>e. ret (PStr (exc_message e), True))"

section \<open>_run_agentic_loop\<close>

fun run_tool_blocks ::
  "'w node_env \<Rightarrow> 'w runtime_client \<Rightarrow> pyval \<Rightarrow> block list \<Rightarrow> ('w, tool_result list) prog" where
  "run_tool_blocks E client cwd [] = ret []"
| "run_tool_blocks E client cwd (ToolUseBlock i name inp # blocks) =
     bnd (run_tool E client name inp cwd) (\<lambda>(content, err).
     bnd (run_tool_blocks E client cwd blocks) (\<lambda>results.
       ret (\<lparr>tool_use_id = i, tr_content = content, is_error = err\<rparr> # results)))"
| "run_tool_blocks E client cwd (_ # blocks) = run_tool_blocks E client cwd blocks"

text \<open>
  The loop's locals are the messages; the model returns them beside the summary. The counter
  \<open>n\<close> is what is left of \<open>range(_MAX_TOOL_CALLS)\<close>.
\<close>

fun agentic_turns ::
  "'w node_env \<Rightarrow> 'w runtime_client \<Rightarrow> 'w llm_client \<Rightarrow> pyval \<Rightarrow> nat \<Rightarrow> message list
   \<Rightarrow> ('w, str \<times> message list) prog" where
  "agentic_turns E client llm cwd 0 messages =
     ret (lit ''tool call cap reached without a final answer'', messages)"
| "agentic_turns E client llm cwd (Suc n) messages =
     bnd (messages_create llm EXECUTOR_MODEL 8096 EXECUTOR_TOOLS messages) (\<lambda>response.
       let messages1 = messages @ [\<lparr>msg_role = Assistant, msg_content = CBlocks (rsp_content response)\<rparr>]
       in if stop_reason response \<noteq> lit ''tool_use''
          then ret (text_of (rsp_content response), messages1)
          else
            bnd (run_tool_blocks E client cwd (rsp_content response)) (\<lambda>tool_results.
              agentic_turns E client llm cwd n
                (messages1 @ [\<lparr>msg_role = User, msg_content = CResults tool_results\<rparr>])))"

definition opening_message :: "str \<Rightarrow> str option \<Rightarrow> message" where
  "opening_message task_prompt feedback =
     \<lparr>msg_role = User,
      msg_content = CText (case feedback of
          None \<Rightarrow> task_prompt
        | Some f \<Rightarrow> task_prompt @ [10, 10] @ lit ''The previous attempt failed its checks:'' @ [10] @ f)\<rparr>"

definition run_agentic_loop ::
  "'w node_env \<Rightarrow> 'w runtime_client \<Rightarrow> str \<Rightarrow> str option \<Rightarrow> pyval \<Rightarrow> pyval \<Rightarrow> ('w, str) prog" where
  "run_agentic_loop E client task_prompt feedback cwd ticket_id =
     bnd (ne_get_llm_client E ticket_id) (\<lambda>llm.
     bnd (agentic_turns E client llm cwd MAX_TOOL_CALLS [opening_message task_prompt feedback])
       (\<lambda>(summary, messages). ret summary))"

section \<open>The conversation is well formed\<close>

text \<open>
  The shape the Messages API requires: after the opening user message, assistant and user turns
  alternate, and a user turn answers exactly the \<open>tool_use\<close> blocks of the assistant turn before
  it, in order.
\<close>

fun tool_ids :: "block list \<Rightarrow> str list" where
  "tool_ids [] = []"
| "tool_ids (ToolUseBlock i _ _ # bs) = i # tool_ids bs"
| "tool_ids (_ # bs) = tool_ids bs"

fun rounds_ok :: "message list \<Rightarrow> bool" where
  "rounds_ok [] = True"
| "rounds_ok [a] = (msg_role a = Assistant \<and> (\<exists>bs. msg_content a = CBlocks bs))"
| "rounds_ok (a # u # ms) =
     (msg_role a = Assistant \<and> msg_role u = User \<and>
      (case (msg_content a, msg_content u) of
         (CBlocks bs, CResults rs) \<Rightarrow> map tool_use_id rs = tool_ids bs
       | _ \<Rightarrow> False) \<and> rounds_ok ms)"

fun conversation_ok :: "message list \<Rightarrow> bool" where
  "conversation_ok [] = False"
| "conversation_ok (m # ms) =
     (msg_role m = User \<and> (case msg_content m of CText _ \<Rightarrow> True | _ \<Rightarrow> False) \<and> rounds_ok ms)"

lemma run_tool_blocks_ids:
  "run_tool_blocks E client cwd bs w = (Inr rs, w') \<Longrightarrow> map tool_use_id rs = tool_ids bs"
proof (induction bs arbitrary: w rs w')
  case (Cons b bs)
  show ?case
  proof (cases b)
    case (ToolUseBlock i name inp)
    with Cons.prems obtain c w1 rs' where "run_tool_blocks E client cwd bs w1 = (Inr rs', w')"
      and "rs = \<lparr>tool_use_id = i, tr_content = fst c, is_error = snd c\<rparr> # rs'"
      by (auto elim!: bnd_eq_InrE)
    with Cons.IH ToolUseBlock show ?thesis by auto
  qed (use Cons in auto)
qed simp

lemma rounds_ok_append:
  assumes "even (length ms)" and "rounds_ok ms" and "rounds_ok ns"
  shows "rounds_ok (ms @ ns)"
  using assms
proof (induction ms rule: rounds_ok.induct)
  case (3 a u ms)
  then show ?case by (auto split: content.splits)
qed simp_all

lemma agentic_turns_rounds:
  assumes "agentic_turns E client llm cwd n (m # ms) w = (Inr (reply, msgs), w')"
    and "even (length ms)" and "rounds_ok ms"
  shows "\<exists>ms'. msgs = m # ms' \<and> rounds_ok ms' \<and> length ms' \<le> length ms + 2 * n
    \<and> (even (length ms') \<longrightarrow> reply = lit ''tool call cap reached without a final answer''
         \<and> length ms' = length ms + 2 * n)
    \<and> (odd (length ms') \<longrightarrow> (\<exists>bs. last ms' = \<lparr>msg_role = Assistant, msg_content = CBlocks bs\<rparr>
         \<and> reply = text_of bs))"
  using assms
proof (induction n arbitrary: ms w)
  case 0
  then show ?case by auto
next
  case (Suc n)
  obtain rsp w1 where c: "messages_create llm EXECUTOR_MODEL 8096 EXECUTOR_TOOLS (m # ms) w = (Inr rsp, w1)"
    using Suc.prems(1) by (auto elim: bnd_eq_InrE)
  let ?a = "\<lparr>msg_role = Assistant, msg_content = CBlocks (rsp_content rsp)\<rparr>"
  show ?case
  proof (cases "stop_reason rsp = lit ''tool_use''")
    case False
    with Suc.prems(1) c have "msgs = m # ms @ [?a]" "reply = text_of (rsp_content rsp)"
      by (auto simp: Let_def)
    moreover have "rounds_ok (ms @ [?a])"
      using Suc.prems(2,3) by (rule rounds_ok_append) simp
    ultimately show ?thesis using Suc.prems(2) by simp
  next
    case True
    with Suc.prems(1) c obtain rs w2 where r: "run_tool_blocks E client cwd (rsp_content rsp) w1 = (Inr rs, w2)"
      and t: "agentic_turns E client llm cwd n
        (m # (ms @ [?a, \<lparr>msg_role = User, msg_content = CResults rs\<rparr>])) w2 = (Inr (reply, msgs), w')"
      by (auto simp: Let_def elim!: bnd_eq_InrE)
    have "rounds_ok (ms @ [?a, \<lparr>msg_role = User, msg_content = CResults rs\<rparr>])"
      using Suc.prems(2,3) run_tool_blocks_ids [OF r] by (intro rounds_ok_append) simp_all
    from Suc.IH [OF t _ this] Suc.prems(2) show ?thesis by fastforce
  qed
qed

lemma opening_message_text:
  "msg_role (opening_message t f) = User" "\<exists>x. msg_content (opening_message t f) = CText x"
  by (simp_all add: opening_message_def)

end
