(* ===== verification/Scripted.thy ===== *)
theory Scripted
  imports Agent_Loop
begin

text \<open>
  The test double \<open>ScriptedRuntimeClient\<close> of \<open>tests/conftest.py\<close>: results queued per command
  prefix, success once a queue is empty. With it the nodes run on concrete inputs in the kernel,
  so the witnesses of the properties are the scenarios of the repository's own tests.
\<close>

record scripted =
  scr_files :: mock_files
  scr_queues :: "(str \<times> action_result list) list"
  scr_commands :: "pyval list"

fun scripted_pop ::
  "str \<Rightarrow> (str \<times> action_result list) list \<Rightarrow> (action_result \<times> (str \<times> action_result list) list) option" where
  "scripted_pop action [] = None"
| "scripted_pop action ((p, q) # qs) =
     (if is_prefix p action \<and> q \<noteq> [] then Some (hd q, (p, tl q) # qs)
      else map_option (\<lambda>(r, qs'). (r, (p, q) # qs')) (scripted_pop action qs))"

definition scripted_run_action ::
  "(int \<Rightarrow> bool) \<Rightarrow> pyval \<Rightarrow> pyval \<Rightarrow> rat option \<Rightarrow> (scripted, action_result) prog" where
  "scripted_run_action P action cwd timeout = (\<lambda>w.
     let w1 = w\<lparr>scr_commands := scr_commands w @ [action]\<rparr>
     in case action of
          PStr a \<Rightarrow>
            (case scripted_pop a (scr_queues w1) of
               Some (r, qs) \<Rightarrow> (Inr r, w1\<lparr>scr_queues := qs\<rparr>)
             | None \<Rightarrow> (Inr \<lparr>exit_code = 0, output = lit ''[scripted] '' @ a\<rparr>, w1))
        | _ \<Rightarrow> (if scr_queues w1 = [] then (Inr \<lparr>exit_code = 0, output = lit ''[scripted] '' @ py_str P action\<rparr>, w1)
                else (Inl (AttributeError (lit ''object has no attribute startswith'')), w1)))"

definition on_files :: "(mock_files, 'a) prog \<Rightarrow> (scripted, 'a) prog" where
  "on_files m = (\<lambda>w. case m (scr_files w) of (r, f) \<Rightarrow> (r, w\<lparr>scr_files := f\<rparr>))"

text \<open>Unlike the backends, the double replaces without checking that the match is unique.\<close>

definition scripted_edit_file :: "(int \<Rightarrow> bool) \<Rightarrow> pyval \<Rightarrow> pyval \<Rightarrow> pyval \<Rightarrow> (scripted, unit) prog" where
  "scripted_edit_file P path old_string new_string =
     bnd (on_files (mock_read_file P path)) (\<lambda>content.
       case (content, old_string, new_string) of
         (PStr c, PStr old, PStr new) \<Rightarrow> on_files (mock_write_file path (PStr (py_replace_first c old new)))
       | _ \<Rightarrow> raise (TypeError (lit ''replace() argument must be str'')))"

definition scripted_client :: "(int \<Rightarrow> bool) \<Rightarrow> scripted runtime_client" where
  "scripted_client P = \<lparr>rc_is_mock = False, rc_run_action = scripted_run_action P,
     rc_read_file = (\<lambda>p. on_files (mock_read_file P p)),
     rc_write_file = (\<lambda>p c. on_files (mock_write_file p c)),
     rc_edit_file = scripted_edit_file P, rc_aclose = ret ()\<rparr>"

lemma scripted_client_aclose: "rc_aclose (scripted_client P) = ret ()"
  by (simp add: scripted_client_def)

definition scripted_world :: "(string \<times> action_result list) list \<Rightarrow> scripted" where
  "scripted_world qs =
     \<lparr>scr_files = Map.empty, scr_queues = map (\<lambda>(p, q). (lit p, q)) qs, scr_commands = []\<rparr>"

definition answer :: "int \<Rightarrow> string \<Rightarrow> action_result" where
  "answer c t = \<lparr>exit_code = c, output = lit t\<rparr>"

text \<open>A model that answers every call with one completion, as \<open>complete_turn\<close> does.\<close>

definition completing_llm :: "string \<Rightarrow> 'w llm_client" where
  "completing_llm t =
     \<lparr>messages_create = (\<lambda>m n tls ms. ret \<lparr>rsp_content = [TextBlock (lit t)], stop_reason = lit ''end_turn''\<rparr>)\<rparr>"

definition scripted_env :: "string \<Rightarrow> scripted node_env" where
  "scripted_env t = \<lparr>ne_get_runtime_client = ret (scripted_client (\<lambda>_. True)),
     ne_get_llm_client = (\<lambda>_. ret (completing_llm t)), ne_max_escalations = 3,
     ne_printable = (\<lambda>_. True)\<rparr>"

text \<open>The environment under \<open>SYNDICATE_MOCK_CLIENT=1\<close>.\<close>

definition mock_env :: "mock_files node_env" where
  "mock_env = \<lparr>ne_get_runtime_client = (\<lambda>w. (Inr (mock_client (\<lambda>_. True)), Map.empty)),
     ne_get_llm_client = (\<lambda>_. raise (ExternalError (lit ''no model in mock mode''))),
     ne_max_escalations = 3, ne_printable = (\<lambda>_. True)\<rparr>"

definition demo_ticket :: dict where
  "demo_ticket = [(lit ''id'', PStr (lit ''T1'')), (lit ''title'', PStr (lit ''do thing'')),
     (lit ''files_changed'', PList [PStr (lit ''foo.py'')]),
     (lit ''workspace_dir'', PStr (lit ''/ws''))]"

definition demo_state :: agent_state where
  "demo_state = empty_state\<lparr>active_ticket := Some demo_ticket, attempt_log := Some []\<rparr>"

section \<open>Properties of the agent loop\<close>

text \<open>
  C14: one attempt talks to the model at most 25 times and its conversation is always well formed:
  it starts with the task, assistant and user turns alternate, and every user turn answers the
  \<open>tool_use\<close> blocks before it one by one and in order. The summary is the text of the last
  assistant turn, or the fixed notice when the budget of calls is used up.
\<close>

theorem agentic_loop_conversation:
  assumes "run_agentic_loop E client task_prompt feedback cwd ticket_id w = (Inr summ, w')"
  shows "\<exists>llm w1 msgs. ne_get_llm_client E ticket_id w = (Inr llm, w1)
    \<and> agentic_turns E client llm cwd MAX_TOOL_CALLS [opening_message task_prompt feedback] w1
        = (Inr (summ, msgs), w')
    \<and> conversation_ok msgs \<and> length msgs \<le> 1 + 2 * MAX_TOOL_CALLS
    \<and> (length msgs = 1 + 2 * MAX_TOOL_CALLS \<and> summ = lit ''tool call cap reached without a final answer''
       \<or> (\<exists>bs. last msgs = \<lparr>msg_role = Assistant, msg_content = CBlocks bs\<rparr> \<and> summ = text_of bs))"
proof -
  from assms obtain llm w1 msgs where l: "ne_get_llm_client E ticket_id w = (Inr llm, w1)"
    and t: "agentic_turns E client llm cwd MAX_TOOL_CALLS [opening_message task_prompt feedback] w1 = (Inr (summ, msgs), w')"
    by (auto simp: run_agentic_loop_def elim!: bnd_eq_InrE)
  from agentic_turns_rounds [OF t] obtain ms where
    m: "msgs = opening_message task_prompt feedback # ms" "rounds_ok ms" "length ms \<le> 2 * MAX_TOOL_CALLS"
    and o: "even (length ms) \<longrightarrow> summ = lit ''tool call cap reached without a final answer''
         \<and> length ms = 2 * MAX_TOOL_CALLS"
      "odd (length ms) \<longrightarrow> (\<exists>bs. last ms = \<lparr>msg_role = Assistant, msg_content = CBlocks bs\<rparr> \<and> summ = text_of bs)"
    by auto
  have c: "conversation_ok msgs"
    using m(1,2) opening_message_text [of task_prompt feedback] by auto
  have e: "length msgs = 1 + 2 * MAX_TOOL_CALLS \<and> summ = lit ''tool call cap reached without a final answer''
       \<or> (\<exists>bs. last msgs = \<lparr>msg_role = Assistant, msg_content = CBlocks bs\<rparr> \<and> summ = text_of bs)"
  proof (cases "even (length ms)")
    case False
    then have "ms \<noteq> []" by auto
    with False o(2) m(1) show ?thesis by simp
  qed (use o(1) m(1) in simp)
  have n: "length msgs \<le> 1 + 2 * MAX_TOOL_CALLS" using m(1,3) by simp
  from l t c n e show ?thesis by blast
qed

theorem agentic_loop_conversation_witness:
  "\<exists>msgs. conversation_ok msgs \<and> length msgs \<le> 51
     \<and> (length msgs = 51 \<or> (\<exists>bs. last msgs = \<lparr>msg_role = Assistant, msg_content = CBlocks bs\<rparr> \<and> lit ''fixed it'' = text_of bs))"
proof -
  have "run_agentic_loop (scripted_env ''fixed it'') (scripted_client (\<lambda>_. True)) (lit ''t'') None PNone PNone
      (scripted_world []) = (Inr (lit ''fixed it''), scripted_world [])"
    by (simp add: run_agentic_loop_def scripted_env_def completing_llm_def MAX_TOOL_CALLS_def eval_nat_numeral
          text_of_def bnd_def ret_def lit_def)
  from agentic_loop_conversation [OF this] show ?thesis by (auto simp: MAX_TOOL_CALLS_def)
qed

text \<open>
  A tool call whose sandbox operation raises \<open>FileNotFoundError\<close> or \<open>ValueError\<close> (or a
  subclass) never ends the attempt: the model gets the message as an error result. So an exception
  that does escape \<open>_run_tool\<close> is of another class.
\<close>

theorem tool_errors_reported:
  assumes "run_tool E client name tool_input cwd w = (Inl e, w')"
  shows "\<not> is_file_not_found e \<and> \<not> is_value_error e"
  using assms by (auto simp: run_tool_def catch_def split: prod.splits sum.splits if_splits)

text \<open>The witness is a call without its \<open>command\<close>: the \<open>KeyError\<close> is not caught.\<close>

theorem tool_errors_reported_witness:
  "\<exists>e. fst (run_tool (scripted_env ''x'') (scripted_client (\<lambda>_. True)) (lit ''bash'') [] PNone (scripted_world [])) = Inl e
     \<and> \<not> is_file_not_found e \<and> \<not> is_value_error e"
proof -
  have "run_tool (scripted_env ''x'') (scripted_client (\<lambda>_. True)) (lit ''bash'') [] PNone (scripted_world [])
      = (Inl (KeyError ([39] @ lit ''command'' @ [39])), scripted_world [])"
    by (simp add: run_tool_def run_bash_tool_def dget_def ditem_def bnd_def catch_def)
  from tool_errors_reported [OF this] this show ?thesis by simp
qed

end
