(* ===== verification/Executor.thy ===== *)
theory Executor
  imports Agent_Loop Scripted
begin

text \<open>
  The executor and validator nodes of \<open>syndicate/nodes.py\<close>: \<open>_run_fast_checks\<close>,
  \<open>executor_node\<close> with its retry loop over the shared strike budget, \<open>_truncate_diagnosis\<close>,
  \<open>validator_node\<close> and \<open>_validator_router\<close>. The locale \<open>ticket_node\<close> is the contract the graph
  relies on: a ticket node writes only fields of the current ticket and never lowers the strike
  count.
\<close>

definition MAX_STRIKES :: int where
  "MAX_STRIKES = 3"

definition DUMMY_ACTIONS :: "str list" where
  "DUMMY_ACTIONS = [lit ''git status'', lit ''python -m pytest'']"

definition FAST_CHECK_ACTIONS :: "str list" where
  "FAST_CHECK_ACTIONS = [lit ''git status'', lit ''python -m pytest'']"

definition DEFAULT_VERIFICATION_COMMAND :: str where
  "DEFAULT_VERIFICATION_COMMAND = lit ''python3 -m pytest -q''"

definition VALIDATOR_TIMEOUT_SECONDS :: rat where
  "VALIDATOR_TIMEOUT_SECONDS = 300"

definition DEFAULT_WORKSPACE_DIR :: str where
  "DEFAULT_WORKSPACE_DIR = lit ''/home/openhands/syndicate-workspace''"

definition DIAGNOSIS_MAX_LINES :: nat where
  "DIAGNOSIS_MAX_LINES = 60"

definition DIAGNOSIS_MAX_BYTES :: nat where
  "DIAGNOSIS_MAX_BYTES = 4096"

section \<open>executor_node\<close>

fun fast_checks_from ::
  "'w runtime_client \<Rightarrow> pyval \<Rightarrow> str list \<Rightarrow> ('w, action_result) prog" where
  "fast_checks_from client cwd [] = ret \<lparr>exit_code = 0, output = lit ''fast checks passed''\<rparr>"
| "fast_checks_from client cwd (action # actions) =
     bnd (rc_run_action client (PStr action) cwd None) (\<lambda>result.
       if exit_code result \<noteq> 0 then ret result else fast_checks_from client cwd actions)"

definition run_fast_checks :: "'w runtime_client \<Rightarrow> pyval \<Rightarrow> ('w, action_result) prog" where
  "run_fast_checks client cwd = fast_checks_from client cwd FAST_CHECK_ACTIONS"

fun run_dummy_actions ::
  "'w node_env \<Rightarrow> 'w runtime_client \<Rightarrow> str list \<Rightarrow> str list \<Rightarrow> ('w, str list) prog" where
  "run_dummy_actions E client [] alog = ret alog"
| "run_dummy_actions E client (action # actions) alog =
     bnd (rc_run_action client (PStr action) PNone None) (\<lambda>result.
       run_dummy_actions E client actions
         (alog @ [lit ''action='' @ str_repr (ne_printable E) action @ lit '' exit_code=''
                 @ int_str (exit_code result) @ lit '' output=''
                 @ str_repr (ne_printable E) (output result)]))"

definition summary_line :: "'w node_env \<Rightarrow> int \<Rightarrow> str \<Rightarrow> str" where
  "summary_line E strike summ =
     lit ''strike='' @ int_str strike @ lit '' summary='' @ str_repr (ne_printable E) summ"

definition fast_check_line :: "'w node_env \<Rightarrow> int \<Rightarrow> action_result \<Rightarrow> str" where
  "fast_check_line E strike check =
     lit ''strike='' @ int_str strike @ lit '' fast_check exit_code='' @ int_str (exit_code check)
     @ lit '' output='' @ str_repr (ne_printable E) (output check)"

text \<open>The \<open>while strike < _MAX_STRIKES\<close> loop with its locals.\<close>

function executor_loop ::
  "'w node_env \<Rightarrow> 'w runtime_client \<Rightarrow> str \<Rightarrow> pyval \<Rightarrow> pyval \<Rightarrow> int \<Rightarrow> str option \<Rightarrow> str list
   \<Rightarrow> ('w, delta) prog" where
  "executor_loop E client task_prompt workspace_dir ticket_id strike feedback alog w =
     (if strike < MAX_STRIKES then
        bnd (run_agentic_loop E client task_prompt feedback workspace_dir ticket_id) (\<lambda>summ.
        bnd (run_fast_checks client workspace_dir) (\<lambda>check.
          let log2 = alog @ [summary_line E (strike + 1) summ, fast_check_line E (strike + 1) check]
          in if exit_code check = 0
             then ret [Set_attempt_log log2, Set_ticket_status LOCAL_PASS,
                       Set_strike_count (strike + 1), Set_validation_diagnosis None]
             else executor_loop E client task_prompt workspace_dir ticket_id (strike + 1)
                    (Some (output check)) log2)) w
      else ret [Set_attempt_log alog, Set_ticket_status ESCALATED, Set_strike_count strike] w)"
  by pat_completeness auto
termination
  by (relation "measure (\<lambda>(E, client, tp, wd, tid, strike, fb, alog, w). nat (MAX_STRIKES - strike))") auto

declare executor_loop.simps [simp del]

definition ticket_id_of :: "dict \<Rightarrow> pyval" where
  "ticket_id_of ticket = py_or (dget ticket ''id'') (dget ticket ''ticket_id'')"

definition workspace_of :: "dict \<Rightarrow> pyval" where
  "workspace_of ticket = py_or (dget ticket ''workspace_dir'') (PStr DEFAULT_WORKSPACE_DIR)"

definition executor_node :: "'w node_env \<Rightarrow> agent_state \<Rightarrow> ('w, delta) prog" where
  "executor_node E state =
     bnd (ne_get_runtime_client E) (\<lambda>client.
       if rc_is_mock client then
         bnd (run_dummy_actions E client DUMMY_ACTIONS (log_of state)) (\<lambda>alog.
           ret [Set_attempt_log alog, Set_ticket_status LOCAL_PASS])
       else
         executor_loop E client
           (lit ''Ticket: '' @ py_repr (ne_printable E) (PDict (ticket_of state)))
           (workspace_of (ticket_of state)) (ticket_id_of (ticket_of state))
           (strikes state) (feedback_of state) (log_of state))"

section \<open>validator_node\<close>

definition truncate_diagnosis :: "str \<Rightarrow> exc + str" where
  "truncate_diagnosis out =
     (let lines = py_splitlines out;
          truncated = py_join [10] (last_n DIAGNOSIS_MAX_LINES lines)
      in case py_encode truncated of
           Inl e \<Rightarrow> Inl e
         | Inr encoded \<Rightarrow>
             Inr (if DIAGNOSIS_MAX_BYTES < length encoded
                  then py_decode_replace (last_n DIAGNOSIS_MAX_BYTES encoded)
                  else truncated))"

definition validator_node :: "'w node_env \<Rightarrow> agent_state \<Rightarrow> ('w, delta) prog" where
  "validator_node E state =
     bnd (ne_get_runtime_client E) (\<lambda>client.
       if rc_is_mock client then ret [Set_last_validation_passed True]
       else
         (let ticket = ticket_of state;
              command = py_or (dget ticket ''verification_command'') (PStr DEFAULT_VERIFICATION_COMMAND);
              cwd = workspace_of ticket
          in bnd (rc_run_action client command cwd (Some VALIDATOR_TIMEOUT_SECONDS)) (\<lambda>result.
               if exit_code result = 0
               then ret [Set_last_validation_passed True, Set_validation_diagnosis None]
               else
                 bnd (of_result (truncate_diagnosis (output result))) (\<lambda>diagnosis.
                   ret [Set_last_validation_passed False, Set_validation_diagnosis (Some diagnosis),
                        Set_strike_count (strikes state + 1)]))))"

datatype node_name =
  Analyzer | Architect | Dispatch | Executor | Validator | Oversight_git | Escalate | Advance

definition validator_router :: "agent_state \<Rightarrow> node_name" where
  "validator_router state =
     (if validated state then Oversight_git
      else if MAX_STRIKES \<le> strikes state then Escalate
      else Executor)"

section \<open>The contract of a ticket node\<close>

locale ticket_node =
  fixes node :: "agent_state \<Rightarrow> ('w, delta) prog"
  assumes ticket_only: "node s w = (Inr d, w') \<Longrightarrow> list_all is_ticket_update d"
    and strikes_mono: "node s w = (Inr d, w') \<Longrightarrow> strikes s \<le> strikes (merge s d)"
begin

lemma frame:
  assumes "node s w = (Inr d, w')"
  shows "issue (merge s d) = issue s" "issue_analysis (merge s d) = issue_analysis s"
    "active_ticket (merge s d) = active_ticket s" "decision_ledger (merge s d) = decision_ledger s"
    "escalation_count (merge s d) = escalation_count s" "run_status (merge s d) = run_status s"
  using merge_ticket_updates [OF ticket_only [OF assms]] by simp_all

lemma frame_reads:
  assumes "node s w = (Inr d, w')"
  shows "ticket_of (merge s d) = ticket_of s" "ledger_of (merge s d) = ledger_of s"
    "escalations (merge s d) = escalations s"
  using frame [OF assms] by (simp_all add: ticket_of_def ledger_of_def escalations_def)

end

section \<open>What the executor returns\<close>

text \<open>
  \<open>attempts_made\<close>: from \<open>w\<close> to \<open>w'\<close> the model and the fast checks were run once for each entry of the
  list, each attempt after the first with the output of the failed check before it as its feedback.
  \<open>attempt_log_lines\<close> is what these attempts leave in the log.
\<close>

fun attempts_made ::
  "'w node_env \<Rightarrow> 'w runtime_client \<Rightarrow> str \<Rightarrow> pyval \<Rightarrow> pyval \<Rightarrow> str option \<Rightarrow> (str \<times> action_result) list \<Rightarrow> 'w \<Rightarrow> 'w \<Rightarrow> bool" where
  "attempts_made E client tp wd tid fb [] w w' \<longleftrightarrow> w' = w"
| "attempts_made E client tp wd tid fb ((summ, check) # as) w w' \<longleftrightarrow>
     (\<exists>w1 w2. run_agentic_loop E client tp fb wd tid w = (Inr summ, w1) \<and> run_fast_checks client wd w1 = (Inr check, w2)
        \<and> attempts_made E client tp wd tid (Some (output check)) as w2 w')"

fun attempt_log_lines :: "'w node_env \<Rightarrow> int \<Rightarrow> (str \<times> action_result) list \<Rightarrow> str list" where
  "attempt_log_lines E n [] = []"
| "attempt_log_lines E n ((summ, check) # as) =
     [summary_line E (n + 1) summ, fast_check_line E (n + 1) check] @ attempt_log_lines E (n + 1) as"

lemma length_attempt_log_lines [simp]: "length (attempt_log_lines E n as) = 2 * length as"
  by (induction as arbitrary: n) auto

definition failed_checks :: "(str \<times> action_result) list \<Rightarrow> bool" where
  "failed_checks as \<longleftrightarrow> (\<forall>a \<in> set as. exit_code (snd a) \<noteq> 0)"

text \<open>Every outcome of the retry loop: the attempts it made, what it logs and where the strike count ends.\<close>

lemma executor_loop_result:
  assumes "executor_loop E client tp wd tid strike fb alog w = (Inr d, w')"
  shows "\<exists>as. attempts_made E client tp wd tid fb as w w' \<and> failed_checks (butlast as)
    \<and> (as \<noteq> [] \<and> exit_code (snd (last as)) = 0 \<and> strike + int (length as) \<le> MAX_STRIKES
         \<and> d = [Set_attempt_log (alog @ attempt_log_lines E strike as), Set_ticket_status LOCAL_PASS,
                Set_strike_count (strike + int (length as)), Set_validation_diagnosis None]
       \<or> failed_checks as \<and> strike + int (length as) = max MAX_STRIKES strike
         \<and> d = [Set_attempt_log (alog @ attempt_log_lines E strike as), Set_ticket_status ESCALATED,
                Set_strike_count (strike + int (length as))])"
  using assms
proof (induction E client tp wd tid strike fb alog w rule: executor_loop.induct)
  case (1 E client tp wd tid strike fb alog w)
  show ?case
  proof (cases "strike < MAX_STRIKES")
    case False
    with "1.prems" have "d = [Set_attempt_log alog, Set_ticket_status ESCALATED, Set_strike_count strike]" "w' = w"
      by (simp_all add: executor_loop.simps)
    with False show ?thesis by (intro exI [of _ "[]"]) (simp add: failed_checks_def)
  next
    case True
    from True "1.prems" obtain summ w1 check w2
      where a: "run_agentic_loop E client tp fb wd tid w = (Inr summ, w1)"
        and c: "run_fast_checks client wd w1 = (Inr check, w2)"
        and r: "(if exit_code check = 0
             then ret [Set_attempt_log (alog @ [summary_line E (strike + 1) summ, fast_check_line E (strike + 1) check]),
                       Set_ticket_status LOCAL_PASS, Set_strike_count (strike + 1), Set_validation_diagnosis None]
             else executor_loop E client tp wd tid (strike + 1) (Some (output check))
                    (alog @ [summary_line E (strike + 1) summ, fast_check_line E (strike + 1) check])) w2
             = (Inr d, w')"
      by (subst (asm) executor_loop.simps) (auto simp: Let_def elim!: bnd_eq_InrE)
    show ?thesis
    proof (cases "exit_code check = 0")
      case pass: True
      with r a c True show ?thesis by (intro exI [of _ "[(summ, check)]"]) (simp add: failed_checks_def)
    next
      case False
      with r have rec: "executor_loop E client tp wd tid (strike + 1) (Some (output check))
          (alog @ [summary_line E (strike + 1) summ, fast_check_line E (strike + 1) check]) w2 = (Inr d, w')" by simp
      from "1.IH" [OF True a c refl False rec] obtain as
        where m: "attempts_made E client tp wd tid (Some (output check)) as w2 w'" and f: "failed_checks (butlast as)"
          and o: "as \<noteq> [] \<and> exit_code (snd (last as)) = 0 \<and> strike + 1 + int (length as) \<le> MAX_STRIKES
         \<and> d = [Set_attempt_log ((alog @ [summary_line E (strike + 1) summ, fast_check_line E (strike + 1) check])
                  @ attempt_log_lines E (strike + 1) as), Set_ticket_status LOCAL_PASS,
                Set_strike_count (strike + 1 + int (length as)), Set_validation_diagnosis None]
       \<or> failed_checks as \<and> strike + 1 + int (length as) = max MAX_STRIKES (strike + 1)
         \<and> d = [Set_attempt_log ((alog @ [summary_line E (strike + 1) summ, fast_check_line E (strike + 1) check])
                  @ attempt_log_lines E (strike + 1) as), Set_ticket_status ESCALATED,
                Set_strike_count (strike + 1 + int (length as))]" by blast
      have "attempts_made E client tp wd tid fb ((summ, check) # as) w w'" using a c m by auto
      moreover have "failed_checks (butlast ((summ, check) # as))" using f False by (auto simp: failed_checks_def)
      moreover have "max MAX_STRIKES (strike + 1) = max MAX_STRIKES strike" using True by simp
      ultimately show ?thesis
        using o False by (intro exI [of _ "(summ, check) # as"]) (auto simp: failed_checks_def algebra_simps)
    qed
  qed
qed

lemma run_dummy_actions_result:
  "run_dummy_actions E client as alog w = (Inr l, w') \<Longrightarrow> \<exists>new. l = alog @ new \<and> length new = length as"
  by (induction as arbitrary: alog w) (fastforce elim!: bnd_eq_InrE)+

lemma executor_node_cases:
  assumes "executor_node E s w = (Inr d, w')"
  obtains (mock) new where "d = [Set_attempt_log (log_of s @ new), Set_ticket_status LOCAL_PASS]"
      and "length new = 2"
  | (pass) new st n where "d = [Set_attempt_log (log_of s @ new), Set_ticket_status LOCAL_PASS,
             Set_strike_count st, Set_validation_diagnosis None]"
      and "strikes s < st" and "st \<le> MAX_STRIKES" and "length new = 2 * n" and "int n = st - strikes s"
  | (escalated) new st n where "d = [Set_attempt_log (log_of s @ new), Set_ticket_status ESCALATED, Set_strike_count st]"
      and "MAX_STRIKES \<le> st" and "strikes s \<le> st" and "st = max MAX_STRIKES (strikes s)"
      and "length new = 2 * n" and "int n = st - strikes s"
proof -
  from assms obtain client w1 where "ne_get_runtime_client E w = (Inr client, w1)"
    and n: "(if rc_is_mock client then
         bnd (run_dummy_actions E client DUMMY_ACTIONS (log_of s)) (\<lambda>alog.
           ret [Set_attempt_log alog, Set_ticket_status LOCAL_PASS])
       else
         executor_loop E client
           (lit ''Ticket: '' @ py_repr (ne_printable E) (PDict (ticket_of s)))
           (workspace_of (ticket_of s)) (ticket_id_of (ticket_of s))
           (strikes s) (feedback_of s) (log_of s)) w1 = (Inr d, w')"
    unfolding executor_node_def by (rule bnd_eq_InrE)
  show thesis
  proof (cases "rc_is_mock client")
    case True
    with n obtain l w2 where l: "run_dummy_actions E client DUMMY_ACTIONS (log_of s) w1 = (Inr l, w2)"
      and d: "d = [Set_attempt_log l, Set_ticket_status LOCAL_PASS]" by (auto elim!: bnd_eq_InrE)
    obtain new where "l = log_of s @ new" "length new = length DUMMY_ACTIONS"
      using run_dummy_actions_result [OF l] by (elim exE conjE)
    with d mock show thesis by (simp add: DUMMY_ACTIONS_def)
  next
    case False
    with n have "executor_loop E client (lit ''Ticket: '' @ py_repr (ne_printable E) (PDict (ticket_of s)))
           (workspace_of (ticket_of s)) (ticket_id_of (ticket_of s))
           (strikes s) (feedback_of s) (log_of s) w1 = (Inr d, w')" by simp
    from executor_loop_result [OF this] obtain as where
      "as \<noteq> [] \<and> strikes s + int (length as) \<le> MAX_STRIKES
         \<and> d = [Set_attempt_log (log_of s @ attempt_log_lines E (strikes s) as), Set_ticket_status LOCAL_PASS,
                Set_strike_count (strikes s + int (length as)), Set_validation_diagnosis None]
       \<or> strikes s + int (length as) = max MAX_STRIKES (strikes s)
         \<and> d = [Set_attempt_log (log_of s @ attempt_log_lines E (strikes s) as), Set_ticket_status ESCALATED,
                Set_strike_count (strikes s + int (length as))]" by blast
    then show thesis
    proof (elim disjE conjE)
      assume "d = [Set_attempt_log (log_of s @ attempt_log_lines E (strikes s) as), Set_ticket_status LOCAL_PASS,
                Set_strike_count (strikes s + int (length as)), Set_validation_diagnosis None]"
        and "as \<noteq> []" and "strikes s + int (length as) \<le> MAX_STRIKES"
      then show thesis by (intro pass [of "attempt_log_lines E (strikes s) as" "strikes s + int (length as)" "length as"]) auto
    next
      assume "d = [Set_attempt_log (log_of s @ attempt_log_lines E (strikes s) as), Set_ticket_status ESCALATED,
                Set_strike_count (strikes s + int (length as))]"
        and "strikes s + int (length as) = max MAX_STRIKES (strikes s)"
      then show thesis
        by (intro escalated [of "attempt_log_lines E (strikes s) as" "strikes s + int (length as)" "length as"]) auto
    qed
  qed
qed

interpretation executor_tn: ticket_node "executor_node E"
proof unfold_locales
  fix s w d w'
  assume r: "executor_node E s w = (Inr d, w')"
  from r show "list_all is_ticket_update d" by (cases rule: executor_node_cases) simp_all
  from r show "strikes s \<le> strikes (merge s d)" by (cases rule: executor_node_cases) (simp_all add: strikes_def)
qed

section \<open>What the validator returns\<close>

lemma validator_node_cases:
  assumes "validator_node E s w = (Inr d, w')"
  obtains (mock) "d = [Set_last_validation_passed True]"
  | (pass) "d = [Set_last_validation_passed True, Set_validation_diagnosis None]"
  | (fail) diag where "d = [Set_last_validation_passed False, Set_validation_diagnosis (Some diag),
                             Set_strike_count (strikes s + 1)]"
  using assms
  by (auto simp: validator_node_def Let_def elim!: bnd_eq_InrE split: if_splits)

interpretation validator_tn: ticket_node "validator_node E"
proof unfold_locales
  fix s w d w'
  assume r: "validator_node E s w = (Inr d, w')"
  from r show "list_all is_ticket_update d" by (cases rule: validator_node_cases) simp_all
  from r show "strikes s \<le> strikes (merge s d)"
    by (cases rule: validator_node_cases) (simp_all add: strikes_def)
qed

section \<open>Truncation\<close>

lemma last_n_sub: "l \<in> set (last_n n ls) \<Longrightarrow> l \<in> set ls"
  using set_last_n_subset by fast

lemma splitlines_scalar: "\<forall>c \<in> set s. Q c \<Longrightarrow> l \<in> set (py_splitlines s) \<Longrightarrow> \<forall>c \<in> set l. Q c"
proof (induction s arbitrary: l rule: py_splitlines.induct)
  case (2 x xs)
  show ?case
  proof (cases "is_linebreak x")
    case True
    have "\<forall>c \<in> set (if x = 13 \<and> is_prefix [10] xs then tl xs else xs). Q c"
      using 2(3) by (auto dest: list.set_sel(2) [rotated])
    with 2 True show ?thesis by auto
  next
    case False
    with 2 show ?thesis by (cases "py_splitlines xs") fastforce+
  qed
qed simp

lemma truncated_lines:
  "length (filter (\<lambda>c. c = 10) (py_join [10] (last_n n (py_splitlines s)))) \<le> n - 1"
proof -
  have "10 \<notin> set l" if "l \<in> set (last_n n (py_splitlines s))" for l
    using splitlines_no_break [OF last_n_sub [OF that], of 10] by (auto simp: is_linebreak_def)
  then have "length (filter (\<lambda>c. c = 10) (py_join [10] (last_n n (py_splitlines s))))
             = length (last_n n (py_splitlines s)) - 1"
    by (rule count_join_newlines)
  then show ?thesis by simp
qed

lemma truncate_diagnosis_scalar:
  assumes "\<forall>c \<in> set out. is_scalar c"
  obtains j t where "truncate_diagnosis out = Inr (replicate j replacement @ t)" and "j \<le> 3"
    and "suffix t (py_join [10] (last_n DIAGNOSIS_MAX_LINES (py_splitlines out)))"
    and "j + length (utf8_bytes t) \<le> DIAGNOSIS_MAX_BYTES"
proof -
  let ?t = "py_join [10] (last_n DIAGNOSIS_MAX_LINES (py_splitlines out))"
  have "\<forall>c \<in> set l. is_scalar c" if "l \<in> set (last_n DIAGNOSIS_MAX_LINES (py_splitlines out))" for l
    using splitlines_scalar [OF assms last_n_sub [OF that]] by blast
  then have sc: "\<forall>c \<in> set ?t. is_scalar c"
    using set_py_join [of "[10]" "last_n DIAGNOSIS_MAX_LINES (py_splitlines out)"]
    by (fastforce simp: is_scalar_def is_surrogate_def)
  note enc = py_encode_scalar [OF sc]
  show thesis
  proof (cases "DIAGNOSIS_MAX_BYTES < length (utf8_bytes ?t)")
    case False
    with enc that [of 0 ?t] show thesis by (simp add: truncate_diagnosis_def Let_def)
  next
    case True
    obtain j t where "py_decode_replace (drop (length (utf8_bytes ?t) - DIAGNOSIS_MAX_BYTES) (utf8_bytes ?t))
        = replicate j replacement @ t" "suffix t ?t" "j \<le> 3"
      "length (drop (length (utf8_bytes ?t) - DIAGNOSIS_MAX_BYTES) (utf8_bytes ?t)) = j + length (utf8_bytes t)"
      by (rule decode_drop_bytes [OF sc])
    with enc True that [of j t] show thesis
      by (simp add: truncate_diagnosis_def Let_def last_n_def)
  qed
qed

section \<open>Properties\<close>

text \<open>
  C7: the executor of a real client makes at most three attempts and never exceeds the strike
  budget. What it does is a sequence of attempts, model and then fast checks, each with the output of the
  failed check before it as feedback; it stops at the first check that exits 0 and then reports
  \<open>LOCAL_PASS\<close>, and otherwise makes attempts until the budget is used up and reports \<open>ESCALATED\<close>. Every
  attempt costs one strike and appends its two lines to the log.
\<close>

theorem executor_attempts_bounded:
  assumes "executor_node E s w = (Inr d, w')" and "ne_get_runtime_client E w = (Inr client, w1)"
    and "\<not> rc_is_mock client" and "0 \<le> strikes s"
  shows "\<exists>as. attempts_made E client (lit ''Ticket: '' @ py_repr (ne_printable E) (PDict (ticket_of s)))
        (workspace_of (ticket_of s)) (ticket_id_of (ticket_of s)) (feedback_of s) as w1 w'
    \<and> length as \<le> 3 \<and> failed_checks (butlast as)
    \<and> log_of (merge s d) = log_of s @ attempt_log_lines E (strikes s) as
    \<and> strikes (merge s d) = strikes s + int (length as)
    \<and> (as \<noteq> [] \<and> exit_code (snd (last as)) = 0 \<and> strikes (merge s d) \<le> MAX_STRIKES
         \<and> ticket_status (merge s d) = Some LOCAL_PASS \<and> feedback_of (merge s d) = None
       \<or> failed_checks as \<and> strikes (merge s d) = max MAX_STRIKES (strikes s)
         \<and> ticket_status (merge s d) = Some ESCALATED)"
proof -
  from assms(1-3) have "executor_loop E client (lit ''Ticket: '' @ py_repr (ne_printable E) (PDict (ticket_of s)))
    (workspace_of (ticket_of s)) (ticket_id_of (ticket_of s)) (strikes s) (feedback_of s) (log_of s) w1 = (Inr d, w')"
    by (simp add: executor_node_def)
  from executor_loop_result [OF this] obtain as where
    m: "attempts_made E client (lit ''Ticket: '' @ py_repr (ne_printable E) (PDict (ticket_of s)))
        (workspace_of (ticket_of s)) (ticket_id_of (ticket_of s)) (feedback_of s) as w1 w'" "failed_checks (butlast as)"
    and o: "as \<noteq> [] \<and> exit_code (snd (last as)) = 0 \<and> strikes s + int (length as) \<le> MAX_STRIKES
         \<and> d = [Set_attempt_log (log_of s @ attempt_log_lines E (strikes s) as), Set_ticket_status LOCAL_PASS,
                Set_strike_count (strikes s + int (length as)), Set_validation_diagnosis None]
       \<or> failed_checks as \<and> strikes s + int (length as) = max MAX_STRIKES (strikes s)
         \<and> d = [Set_attempt_log (log_of s @ attempt_log_lines E (strikes s) as), Set_ticket_status ESCALATED,
                Set_strike_count (strikes s + int (length as))]" by blast
  have "length as \<le> 3" using o assms(4) by (auto simp: MAX_STRIKES_def)
  with m o show ?thesis by (intro exI [of _ as]) (auto simp: log_of_def strikes_def feedback_of_def)
qed

text \<open>The witness is the double's happy path: one attempt, both checks succeed.\<close>

lemmas demo_simps = demo_state_def demo_ticket_def scripted_env_def scripted_world_def scripted_client_def
  completing_llm_def empty_state_def answer_def

lemmas node_simps = executor_node_def executor_loop.simps run_agentic_loop_def run_fast_checks_def
  FAST_CHECK_ACTIONS_def MAX_STRIKES_def Let_def strikes_def log_of_def ticket_of_def feedback_of_def

lemma demo_executor:
  "\<exists>d w'. executor_node (scripted_env ''ok'') demo_state (scripted_world []) = (Inr d, w')"
  by (simp add: node_simps demo_simps scripted_run_action_def bnd_def ret_def eval_nat_numeral MAX_TOOL_CALLS_def lit_def)

theorem executor_attempts_bounded_witness:
  "\<exists>d w' as. executor_node (scripted_env ''ok'') demo_state (scripted_world []) = (Inr d, w')
     \<and> length as \<le> 3 \<and> strikes (merge demo_state d) = int (length as)
     \<and> log_of (merge demo_state d) = attempt_log_lines (scripted_env ''ok'') 0 as"
proof -
  obtain d w' where e: "executor_node (scripted_env ''ok'') demo_state (scripted_world []) = (Inr d, w')"
    using demo_executor by blast
  have c: "ne_get_runtime_client (scripted_env ''ok'') (scripted_world []) = (Inr (scripted_client (\<lambda>_. True)), scripted_world [])"
    "\<not> rc_is_mock (scripted_client (\<lambda>_. True))" "0 \<le> strikes demo_state" "strikes demo_state = 0" "log_of demo_state = []"
    by (simp_all add: scripted_env_def scripted_client_def strikes_def demo_state_def empty_state_def log_of_def)
  from executor_attempts_bounded [OF e c(1-3)] obtain as where
    "length as \<le> 3" "strikes (merge demo_state d) = int (length as)"
    "log_of (merge demo_state d) = attempt_log_lines (scripted_env ''ok'') 0 as"
    unfolding c(4,5) by auto
  with e show ?thesis by blast
qed

text \<open>
  With the strike budget used up the executor does nothing: it calls neither the model nor the
  sandbox, leaves the log alone and reports the ticket as escalated.
\<close>

theorem executor_budget_spent:
  assumes "ne_get_runtime_client E w = (Inr client, w1)" and "\<not> rc_is_mock client"
    and "MAX_STRIKES \<le> strikes s"
  shows "executor_node E s w =
    (Inr [Set_attempt_log (log_of s), Set_ticket_status ESCALATED, Set_strike_count (strikes s)], w1)"
  using assms by (simp add: executor_node_def executor_loop.simps)

theorem executor_budget_spent_witness:
  "executor_node (scripted_env ''ok'') (demo_state\<lparr>strike_count := Some 3\<rparr>) (scripted_world []) =
    (Inr [Set_attempt_log [], Set_ticket_status ESCALATED, Set_strike_count 3], scripted_world [])"
  using executor_budget_spent [of "scripted_env ''ok''" "scripted_world []" "scripted_client (\<lambda>_. True)"
      "scripted_world []" "demo_state\<lparr>strike_count := Some 3\<rparr>"]
  by (simp add: scripted_env_def scripted_client_def strikes_def log_of_def demo_state_def MAX_STRIKES_def)

text \<open>
  C20: the validator of a real client runs the ticket's verification command once, in the ticket's
  workspace and with its own timeout, and believes nothing but the exit code: 0 validates the
  ticket and clears the diagnosis, anything else costs exactly one strike and leaves the truncated
  output as the feedback for the next attempt.
\<close>

theorem validator_verdict:
  assumes "validator_node E s w = (Inr d, w')" and "ne_get_runtime_client E w = (Inr client, w1)"
    and "\<not> rc_is_mock client"
  shows "\<exists>r. rc_run_action client
        (py_or (dget (ticket_of s) ''verification_command'') (PStr DEFAULT_VERIFICATION_COMMAND))
        (workspace_of (ticket_of s)) (Some VALIDATOR_TIMEOUT_SECONDS) w1 = (Inr r, w')
    \<and> (if exit_code r = 0
       then validated (merge s d) \<and> strikes (merge s d) = strikes s \<and> feedback_of (merge s d) = None
       else \<not> validated (merge s d) \<and> strikes (merge s d) = strikes s + 1
            \<and> (\<exists>diag. truncate_diagnosis (output r) = Inr diag \<and> feedback_of (merge s d) = Some diag))"
proof -
  from assms obtain r where
    r: "rc_run_action client
        (py_or (dget (ticket_of s) ''verification_command'') (PStr DEFAULT_VERIFICATION_COMMAND))
        (workspace_of (ticket_of s)) (Some VALIDATOR_TIMEOUT_SECONDS) w1 = (Inr r, w')"
    and k: "exit_code r = 0 \<and> d = [Set_last_validation_passed True, Set_validation_diagnosis None]
      \<or> exit_code r \<noteq> 0 \<and> (\<exists>diag. truncate_diagnosis (output r) = Inr diag
          \<and> d = [Set_last_validation_passed False, Set_validation_diagnosis (Some diag), Set_strike_count (strikes s + 1)])"
    by (auto simp: validator_node_def Let_def elim!: bnd_eq_InrE split: if_split_asm)
  from k show ?thesis
    by (intro exI [of _ r] conjI r) (auto simp: validated_def strikes_def feedback_of_def)
qed

theorem validator_verdict_witness:
  "\<exists>d w'. validator_node (scripted_env ''ok'') demo_state (scripted_world [(''python3'', [answer 1 ''1 failed''])]) = (Inr d, w')
     \<and> \<not> validated (merge demo_state d) \<and> strikes (merge demo_state d) = 1"
proof -
  let ?w = "scripted_world [(''python3'', [answer 1 ''1 failed''])]"
  have v: "\<exists>d w'. validator_node (scripted_env ''ok'') demo_state ?w = (Inr d, w')
      \<and> scripted_run_action (\<lambda>_. True) (PStr (lit ''python3 -m pytest -q'')) (PStr (lit ''/ws'')) (Some 300) ?w = (Inr (answer 1 ''1 failed''), w')"
    by (simp add: validator_node_def demo_simps ticket_of_def Let_def dget_def py_or_def workspace_of_def
          DEFAULT_VERIFICATION_COMMAND_def scripted_run_action_def bnd_def ret_def lit_def VALIDATOR_TIMEOUT_SECONDS_def
          truncate_diagnosis_def is_linebreak_def last_n_def DIAGNOSIS_MAX_LINES_def py_encode_def is_surrogate_def
          utf8_bytes_def enc1_def DIAGNOSIS_MAX_BYTES_def)
  then obtain d w' where e: "validator_node (scripted_env ''ok'') demo_state ?w = (Inr d, w')"
    and a: "scripted_run_action (\<lambda>_. True) (PStr (lit ''python3 -m pytest -q'')) (PStr (lit ''/ws'')) (Some 300) ?w
      = (Inr (answer 1 ''1 failed''), w')" by blast
  have c: "ne_get_runtime_client (scripted_env ''ok'') ?w = (Inr (scripted_client (\<lambda>_. True)), ?w)"
    "\<not> rc_is_mock (scripted_client (\<lambda>_. True))"
    by (simp_all add: scripted_env_def scripted_client_def)
  have t: "py_or (dget (ticket_of demo_state) ''verification_command'') (PStr DEFAULT_VERIFICATION_COMMAND)
        = PStr (lit ''python3 -m pytest -q'')" "workspace_of (ticket_of demo_state) = PStr (lit ''/ws'')"
    "strikes demo_state = 0"
    by (simp_all add: demo_state_def demo_ticket_def empty_state_def ticket_of_def dget_def py_or_def workspace_of_def
          DEFAULT_VERIFICATION_COMMAND_def strikes_def)
  from validator_verdict [OF e c] a t have "\<not> validated (merge demo_state d) \<and> strikes (merge demo_state d) = 1"
    by (auto simp: scripted_client_def VALIDATOR_TIMEOUT_SECONDS_def answer_def split: if_split_asm)
  with e show ?thesis by blast
qed

text \<open>
  C29: the feedback kept of a failed validation is bounded. For output that is Unicode text it is
  the end of the last 60 lines, at most 59 line breaks, at most 4096 bytes of it, preceded by at
  most three U+FFFD where the cut fell inside a character. A replacement character takes three
  bytes where the cut left one, so the result may have up to 6 bytes more than the cap.
\<close>

theorem diagnosis_bounded:
  assumes "\<forall>c \<in> set out. is_scalar c"
  shows "\<exists>diag j t. truncate_diagnosis out = Inr diag \<and> diag = replicate j replacement @ t \<and> j \<le> 3
    \<and> suffix t (py_join [10] (last_n 60 (py_splitlines out)))
    \<and> length (filter (\<lambda>c. c = 10) diag) \<le> 59
    \<and> length (utf8_bytes diag) \<le> DIAGNOSIS_MAX_BYTES + 2 * j"
proof -
  from truncate_diagnosis_scalar [OF assms] obtain j t where
    d: "truncate_diagnosis out = Inr (replicate j replacement @ t)" "j \<le> 3"
    and s: "suffix t (py_join [10] (last_n DIAGNOSIS_MAX_LINES (py_splitlines out)))"
    and b: "j + length (utf8_bytes t) \<le> DIAGNOSIS_MAX_BYTES" by blast
  have "filter (\<lambda>c. c = 10) (replicate j replacement) = []" by (simp add: replacement_def)
  moreover have "length (filter (\<lambda>c. c = 10) t) \<le> 59"
  proof -
    from s obtain p where "py_join [10] (last_n DIAGNOSIS_MAX_LINES (py_splitlines out)) = p @ t"
      by (auto simp: suffix_def)
    with truncated_lines [of DIAGNOSIS_MAX_LINES out] show ?thesis by (simp add: DIAGNOSIS_MAX_LINES_def)
  qed
  moreover have "length (utf8_bytes (replicate j replacement @ t)) \<le> DIAGNOSIS_MAX_BYTES + 2 * j"
    using b by (simp add: length_utf8_replicate)
  ultimately show ?thesis using d s
    by (intro exI [of _ "replicate j replacement @ t"] exI [of _ j] exI [of _ t]) (simp add: DIAGNOSIS_MAX_LINES_def)
qed

theorem diagnosis_bounded_witness:
  "\<exists>diag. truncate_diagnosis (lit ''FAILED t.py'') = Inr diag \<and> length (utf8_bytes diag) \<le> DIAGNOSIS_MAX_BYTES + 6"
proof -
  have "\<forall>c \<in> set (lit ''FAILED t.py''). is_scalar c" by (simp add: lit_def is_scalar_def is_surrogate_def)
  from diagnosis_bounded [OF this] show ?thesis by fastforce
qed

text \<open>The cap in bytes is not kept exactly: 1366 euro signs end as 4098 bytes.\<close>

lemma utf8_replicate: "utf8_bytes (replicate n c) = concat (replicate n (enc1 c))"
  by (simp add: utf8_bytes_def)

lemma splitlines_replicate: "\<not> is_linebreak c \<Longrightarrow> py_splitlines (replicate (Suc n) c) = [replicate (Suc n) c]"
  by (induction n) simp_all

lemma diagnosis_over_cap:
  "\<exists>diag. truncate_diagnosis (replicate 1366 8364) = Inr diag \<and> length (utf8_bytes diag) = 4098"
proof -
  have sp: "py_splitlines (replicate (Suc 1365) 8364) = [replicate (Suc 1365) 8364]"
    by (rule splitlines_replicate) (simp add: is_linebreak_def)
  have sc: "\<forall>c \<in> set (replicate n 8364). is_scalar c" for n
    by (simp add: is_scalar_def is_surrogate_def)
  have len: "length (utf8_bytes (replicate n 8364)) = 3 * n" for n
    by (induction n) (simp_all add: enc1_def)
  have "drop 2 (utf8_bytes (replicate (Suc 1365) 8364)) = 172 # utf8_bytes (replicate 1365 8364)"
    unfolding replicate_Suc utf8_bytes_simps by (simp add: enc1_def)
  moreover have "py_decode_replace (172 # utf8_bytes (replicate 1365 8364)) = replacement # replicate 1365 8364"
    using decode_cont [of 172] decode_utf8_bytes [OF sc] by (simp add: is_cont_def del: py_decode_replace.simps)
  ultimately have dec: "py_decode_replace (drop 2 (utf8_bytes (replicate (Suc 1365) 8364))) = replacement # replicate 1365 8364"
    by (simp only:)
  define t where "t = replicate (Suc 1365) (8364 :: int)"
  have t: "py_splitlines t = [t]" "py_encode t = Inr (utf8_bytes t)" "length (utf8_bytes t) = 4098"
    "py_decode_replace (drop 2 (utf8_bytes t)) = replacement # replicate 1365 8364"
    using sp py_encode_scalar [OF sc] len [of "Suc 1365"] dec unfolding t_def by simp_all
  have "truncate_diagnosis t = Inr (replacement # replicate 1365 8364)"
    by (simp add: truncate_diagnosis_def t last_n_def DIAGNOSIS_MAX_LINES_def DIAGNOSIS_MAX_BYTES_def)
  then have "truncate_diagnosis (replicate 1366 8364) = Inr (replacement # replicate 1365 8364)"
    unfolding t_def by (simp del: replicate_Suc)
  moreover have "length (utf8_bytes (replacement # replicate 1365 8364)) = 4098"
    by (simp add: len enc1_def replacement_def)
  ultimately show ?thesis by simp
qed

end
