(* ===== verification/Shell.thy ===== *)
theory Shell
  imports Py_Str
begin

text \<open>
  \<open>shlex.quote\<close>, with which \<open>syndicate/nodes.py\<close> builds its git command lines, and the abstract
  specification it is meant to satisfy: POSIX shell word splitting. \<open>sh_words\<close> reads a command
  line as the shell does (blanks separate words, single and double quotes group) and gives
  \<open>None\<close> as soon as a character would have a meaning to the shell other than itself: a variable,
  a substitution, a glob, a redirection, an unterminated quote. A command line whose words are
  \<open>Some ws\<close> is therefore passed to the program as exactly the arguments \<open>ws\<close>.
\<close>

section \<open>Quoting\<close>

definition is_shell_safe :: "int \<Rightarrow> bool" where
  \<comment> \<open>the complement of the class \<open>[^\w@%+=:,./-]\<close> under \<open>re.ASCII\<close>\<close>
  "is_shell_safe c \<longleftrightarrow>
     (48 \<le> c \<and> c \<le> 57) \<or> (65 \<le> c \<and> c \<le> 90) \<or> (97 \<le> c \<and> c \<le> 122) \<or> c = 95
     \<or> c \<in> set [64, 37, 43, 61, 58, 44, 46, 47, 45]"

definition shlex_quote :: "str \<Rightarrow> str" where
  "shlex_quote s =
     (if s = [] then [39, 39]
      else if list_all is_shell_safe s then s
      else [39] @ py_replace_char 39 [39, 34, 39, 34, 39] s @ [39])"

section \<open>The shell's reading of a command line\<close>

datatype sh_mode = Plain | Single | Double

fun word_of :: "str option \<Rightarrow> str" where
  "word_of None = []"
| "word_of (Some w) = w"

fun emit_word :: "str option \<Rightarrow> str list option \<Rightarrow> str list option" where
  "emit_word None r = r"
| "emit_word (Some w) r = map_option (\<lambda>ws. w # ws) r"

fun sh_words :: "sh_mode \<Rightarrow> str option \<Rightarrow> str \<Rightarrow> str list option" where
  "sh_words Plain cur [] = emit_word cur (Some [])"
| "sh_words Single cur [] = None"
| "sh_words Double cur [] = None"
| "sh_words Plain cur (c # cs) =
     (if c = 32 \<or> c = 9 then emit_word cur (sh_words Plain None cs)
      else if c = 39 then sh_words Single (Some (word_of cur)) cs
      else if c = 34 then sh_words Double (Some (word_of cur)) cs
      else if is_shell_safe c then sh_words Plain (Some (word_of cur @ [c])) cs
      else None)"
| "sh_words Single cur (c # cs) =
     (if c = 39 then sh_words Plain cur cs else sh_words Single (Some (word_of cur @ [c])) cs)"
| "sh_words Double cur (c # cs) =
     (if c = 34 then sh_words Plain cur cs
      else if c = 36 \<or> c = 96 \<or> c = 92 then None
      else sh_words Double (Some (word_of cur @ [c])) cs)"

definition shell_argv :: "str \<Rightarrow> str list option" where
  "shell_argv s = sh_words Plain None s"

section \<open>Quoted text is one literal word\<close>

lemma safe_not_special: "is_shell_safe c \<Longrightarrow> c \<noteq> 32 \<and> c \<noteq> 9 \<and> c \<noteq> 39 \<and> c \<noteq> 34"
  by (auto simp: is_shell_safe_def)

lemma sh_words_safe_Some:
  "list_all is_shell_safe s \<Longrightarrow>
   sh_words Plain (Some w) (s @ rest) = sh_words Plain (Some (w @ s)) rest"
  by (induction s arbitrary: w) (auto simp: safe_not_special)

lemma sh_words_safe:
  "list_all is_shell_safe s \<Longrightarrow> s \<noteq> [] \<Longrightarrow>
   sh_words Plain cur (s @ rest) = sh_words Plain (Some (word_of cur @ s)) rest"
  by (cases s) (auto simp: safe_not_special sh_words_safe_Some)

lemma sh_words_quoted_body:
  "sh_words Single (Some w) (py_replace_char 39 [39, 34, 39, 34, 39] s @ 39 # rest)
   = sh_words Plain (Some (w @ s)) rest"
  by (induction s arbitrary: w) (simp_all add: py_replace_char_def)

lemma sh_words_quote:
  "sh_words Plain None (shlex_quote s @ rest) = sh_words Plain (Some s) rest"
proof -
  consider "s = []" | "s \<noteq> []" "list_all is_shell_safe s" | "s \<noteq> []" "\<not> list_all is_shell_safe s"
    by blast
  then show ?thesis
    by cases (simp_all add: shlex_quote_def sh_words_safe sh_words_quoted_body)
qed

lemma sh_words_blank: "sh_words Plain cur (32 # rest) = emit_word cur (sh_words Plain None rest)"
  by simp

lemma sh_words_join_quote:
  "sh_words Plain None (py_join [32] (map shlex_quote ws)) = Some ws"
proof (induction ws rule: induct_list012)
  case (2 w)
  have "sh_words Plain None (shlex_quote w @ []) = Some [w]"
    by (simp only: sh_words_quote) simp
  then show ?case by simp
next
  case (3 v w ws)
  have "sh_words Plain None (py_join [32] (map shlex_quote (v # w # ws)))
        = sh_words Plain (Some v) (32 # py_join [32] (map shlex_quote (w # ws)))"
    by (simp add: sh_words_quote)
  also have "\<dots> = Some (v # w # ws)"
    using "3.IH" by simp
  finally show ?case .
qed simp

lemma sh_words_literal_word:
  "list_all is_shell_safe w \<Longrightarrow> w \<noteq> [] \<Longrightarrow>
   sh_words Plain None (w @ 32 # rest) = map_option (\<lambda>ws. w # ws) (sh_words Plain None rest)"
  by (simp add: sh_words_safe)

end
