(* ===== verification/Oversight.thy ===== *)
theory Oversight
  imports Executor Shell Scripted
begin

text \<open>
  \<open>oversight_git_node\<close> of \<open>syndicate/nodes.py\<close>, its router, \<open>escalate_node\<close> and \<open>advance_node\<close>.
  The commit is taken as done only when \<open>git rev-parse HEAD\<close> says that it moved. \<open>executed\<close> states
  which commands a client executed, in which order and with which results, between two worlds;
  \<open>oversight_cases\<close> gives for every way the node can return the exact commands it ran, so the
  properties of the node are read off a list of commands and not off its log.
\<close>

definition GIT_BOT_NAME :: str where
  "GIT_BOT_NAME = lit ''syndicate-bot''"

definition GIT_BOT_EMAIL :: str where
  "GIT_BOT_EMAIL = lit ''syndicate-bot@example.invalid''"

section \<open>oversight_git_node\<close>

definition git_line :: "str \<Rightarrow> action_result \<Rightarrow> str" where
  "git_line command result =
     lit ''$ '' @ command @ [10] @ lit ''exit='' @ int_str (exit_code result) @ [10] @ output result"

text \<open>The closure \<open>run\<close>: one command in the workspace, its transcript appended to \<open>git_log\<close>.\<close>

definition git_run ::
  "'w runtime_client \<Rightarrow> pyval \<Rightarrow> str list \<Rightarrow> str \<Rightarrow> ('w, action_result \<times> str list) prog" where
  "git_run client workspace_dir git_log command =
     bnd (rc_run_action client (PStr command) workspace_dir None) (\<lambda>result.
       ret (result, git_log @ [git_line command result]))"

text \<open>The closure \<open>strike\<close>.\<close>

definition git_strike :: "agent_state \<Rightarrow> str list \<Rightarrow> str \<Rightarrow> delta" where
  "git_strike state git_log reason =
     [Set_attempt_log (log_of state @ git_log @ [lit ''oversight_git: '' @ reason]),
      Set_strike_count (strikes state + 1)]"

definition files_of :: "dict \<Rightarrow> pyval" where
  "files_of ticket = py_or (dget ticket ''files_changed'') (py_or (dget ticket ''target_files'') (PList []))"

definition quote_value :: "pyval \<Rightarrow> exc + str" where
  \<comment> \<open>\<open>shlex.quote\<close> on a value of any type: a falsy one is quoted as the empty word\<close>
  "quote_value v =
     (case v of
        PStr s \<Rightarrow> Inr (shlex_quote s)
      | _ \<Rightarrow> if truthy v then Inl (TypeError (lit ''expected string or bytes-like object''))
             else Inr [39, 39])"

fun quote_values :: "pyval list \<Rightarrow> exc + str list" where
  "quote_values [] = Inr []"
| "quote_values (v # vs) =
     (case quote_value v of
        Inl e \<Rightarrow> Inl e
      | Inr q \<Rightarrow> (case quote_values vs of Inl e \<Rightarrow> Inl e | Inr qs \<Rightarrow> Inr (q # qs)))"

definition quoted_paths :: "pyval \<Rightarrow> exc + str" where
  "quoted_paths files =
     (case py_iter files of
        Inl e \<Rightarrow> Inl e
      | Inr vs \<Rightarrow> (case quote_values vs of Inl e \<Rightarrow> Inl e | Inr qs \<Rightarrow> Inr (py_join [32] qs)))"

definition head_of :: "action_result \<Rightarrow> str option" where
  "head_of result = (if exit_code result = 0 then Some (py_strip (output result)) else None)"

definition head_repr :: "'w node_env \<Rightarrow> str option \<Rightarrow> str" where
  "head_repr E h = py_repr (ne_printable E) (case h of None \<Rightarrow> PNone | Some t \<Rightarrow> PStr t)"

definition CMD_IS_REPO :: str where
  "CMD_IS_REPO = lit ''git rev-parse --is-inside-work-tree''"

definition CMD_INIT :: str where
  "CMD_INIT = lit ''git init''"

definition CMD_NAME :: str where
  "CMD_NAME = lit ''git config user.name '' @ shlex_quote GIT_BOT_NAME"

definition CMD_EMAIL :: str where
  "CMD_EMAIL = lit ''git config user.email '' @ shlex_quote GIT_BOT_EMAIL"

definition CMD_HEAD :: str where
  "CMD_HEAD = lit ''git rev-parse HEAD''"

definition cmd_add :: "str \<Rightarrow> str" where
  "cmd_add paths = lit ''git add -- '' @ paths"

definition cmd_commit :: "str \<Rightarrow> str" where
  "cmd_commit message = lit ''git commit -m '' @ shlex_quote message"

definition commit_message :: "'w node_env \<Rightarrow> agent_state \<Rightarrow> str" where
  "commit_message E state =
     (let ticket = ticket_of state;
          intent = py_or (py_or (dget ticket ''intent'') (dget ticket ''title'')) (PStr (lit ''update''));
          ticket_id = py_or (ticket_id_of ticket) (PStr (lit ''TICKET''));
          body = (if log_of state \<noteq> [] then py_join (lit ''; '') (log_of state) else lit ''no attempts'')
      in [91] @ py_str (ne_printable E) ticket_id @ [93, 32] @ py_str (ne_printable E) intent
         @ [10, 10] @ body)"

text \<open>
  The commit half of the node, for a ticket that declares files, from its last check backwards:
  \<open>verify_head\<close> asks git whether a commit landed, \<open>commit_staged\<close> commits first,
  \<open>oversight_commit\<close> records HEAD and stages before that.
\<close>

definition verify_head ::
  "'w node_env \<Rightarrow> 'w runtime_client \<Rightarrow> agent_state \<Rightarrow> str option \<Rightarrow> str list \<Rightarrow> ('w, delta) prog" where
  "verify_head E client state head_before git_log =
     bnd (git_run client (workspace_of (ticket_of state)) git_log CMD_HEAD) (\<lambda>(head_after_result, g).
       let head_after = head_of head_after_result
       in if head_after = None \<or> head_after = head_before
          then ret (git_strike state g
                 (lit ''git commit exited 0 but HEAD did not move (before=''
                  @ head_repr E head_before @ lit '', after='' @ head_repr E head_after
                  @ lit ''); declared files_changed=''
                  @ py_repr (ne_printable E) (files_of (ticket_of state)) @ lit '' showed no changes''))
          else ret [Set_attempt_log (log_of state @ g), Set_ticket_status DONE])"

definition commit_staged ::
  "'w node_env \<Rightarrow> 'w runtime_client \<Rightarrow> agent_state \<Rightarrow> str option \<Rightarrow> str list \<Rightarrow> ('w, delta) prog" where
  "commit_staged E client state head_before git_log =
     bnd (git_run client (workspace_of (ticket_of state)) git_log
            (cmd_commit (commit_message E state))) (\<lambda>(commit_result, g).
       if exit_code commit_result \<noteq> 0
       then ret (git_strike state g
              (lit ''git commit failed (exit='' @ int_str (exit_code commit_result)
               @ lit ''); declared files_changed=''
               @ py_repr (ne_printable E) (files_of (ticket_of state)) @ lit '' produced no commit''))
       else verify_head E client state head_before g)"

definition oversight_commit ::
  "'w node_env \<Rightarrow> 'w runtime_client \<Rightarrow> agent_state \<Rightarrow> str list \<Rightarrow> ('w, delta) prog" where
  "oversight_commit E client state git_log =
     (let workspace_dir = workspace_of (ticket_of state)
      in bnd (git_run client workspace_dir git_log CMD_HEAD) (\<lambda>(head_before_result, g1).
         bnd (of_result (quoted_paths (files_of (ticket_of state)))) (\<lambda>paths.
         bnd (git_run client workspace_dir g1 (cmd_add paths)) (\<lambda>(add_result, g2).
           if exit_code add_result \<noteq> 0
           then ret (git_strike state g2 (lit ''git add failed; nothing staged, no commit attempted''))
           else commit_staged E client state (head_of head_before_result) g2))))"

definition oversight_git_node :: "'w node_env \<Rightarrow> agent_state \<Rightarrow> ('w, delta) prog" where
  "oversight_git_node E state =
     bnd (ne_get_runtime_client E) (\<lambda>client.
       let ticket = ticket_of state; workspace_dir = workspace_of ticket
       in bnd (git_run client workspace_dir [] CMD_IS_REPO) (\<lambda>(is_repo, g1).
          bnd (if exit_code is_repo \<noteq> 0
               then bnd (git_run client workspace_dir g1 CMD_INIT) (\<lambda>(_, g). ret g)
               else ret g1) (\<lambda>g2.
          bnd (git_run client workspace_dir g2 CMD_NAME) (\<lambda>(_, g3).
          bnd (git_run client workspace_dir g3 CMD_EMAIL) (\<lambda>(_, g4).
            if \<not> truthy (files_of ticket) then ret [Set_attempt_log (log_of state @ g4)]
            else oversight_commit E client state g4)))))"

definition oversight_git_router :: "agent_state \<Rightarrow> node_name" where
  "oversight_git_router state =
     (if ticket_status state = Some DONE then Advance
      else if \<not> truthy (files_of (ticket_of state)) then Advance
      else if MAX_STRIKES \<le> strikes state then Escalate
      else Executor)"

section \<open>escalate_node and advance_node\<close>

definition escalate_node :: "'w node_env \<Rightarrow> agent_state \<Rightarrow> delta" where
  "escalate_node E state =
     (let escalation_count = escalations state + 1
      in [Set_ticket_status ESCALATED, Set_escalation_count escalation_count]
         @ (if ne_max_escalations E < escalation_count
            then [Set_run_status HALTED_ESCALATION_BUDGET] else []))"

definition distil :: "str list \<Rightarrow> decision_summary" where
  "distil l = \<lparr>summary = (if l \<noteq> [] then py_join (lit ''; '') l else lit ''no attempts''),
               attempt_count = int (length l)\<rparr>"

definition advance_node :: "agent_state \<Rightarrow> delta" where
  "advance_node state =
     [Set_decision_ledger (ledger_of state @ [distil (log_of state)]), Set_attempt_log []]"

section \<open>The commands the node runs\<close>

fun executed :: "'w runtime_client \<Rightarrow> pyval \<Rightarrow> (str \<times> action_result) list \<Rightarrow> 'w \<Rightarrow> 'w \<Rightarrow> bool" where
  "executed client cwd [] w w' = (w' = w)"
| "executed client cwd ((command, result) # cs) w w' =
     (\<exists>w1. rc_run_action client (PStr command) cwd None w = (Inr result, w1) \<and> executed client cwd cs w1 w')"

lemma executed_append: "executed client cwd (as @ bs) w w' \<longleftrightarrow> (\<exists>w1. executed client cwd as w w1 \<and> executed client cwd bs w1 w')"
  by (induction as arbitrary: w) (auto, blast+)

definition transcript :: "(str \<times> action_result) list \<Rightarrow> str list" where
  "transcript cs = map (\<lambda>(c, r). git_line c r) cs"

lemma transcript_simps [simp]:
  "transcript [] = []" "transcript ((c, r) # cs) = git_line c r # transcript cs"
  "transcript (as @ bs) = transcript as @ transcript bs"
  by (simp_all add: transcript_def)

lemma git_run_InrE:
  assumes "git_run client cwd g command w = (Inr (result, g'), w')"
  obtains "executed client cwd [(command, result)] w w'" and "g' = g @ [git_line command result]"
  using assms by (auto simp: git_run_def elim!: bnd_eq_InrE)

text \<open>The preparation every run of the node starts with.\<close>

definition is_prepare :: "(str \<times> action_result) list \<Rightarrow> bool" where
  "is_prepare cs \<longleftrightarrow>
     (\<exists>r0 r2 r3. exit_code r0 = 0 \<and> cs = [(CMD_IS_REPO, r0), (CMD_NAME, r2), (CMD_EMAIL, r3)])
     \<or> (\<exists>r0 r1 r2 r3. exit_code r0 \<noteq> 0
          \<and> cs = [(CMD_IS_REPO, r0), (CMD_INIT, r1), (CMD_NAME, r2), (CMD_EMAIL, r3)])"

lemma oversight_node_prepare:
  assumes "oversight_git_node E s w = (Inr d, w')"
  obtains client w0 w1 cs where "ne_get_runtime_client E w = (Inr client, w0)"
    and "is_prepare cs" and "executed client (workspace_of (ticket_of s)) cs w0 w1"
    and "if \<not> truthy (files_of (ticket_of s)) then d = [Set_attempt_log (log_of s @ transcript cs)] \<and> w' = w1
         else oversight_commit E client s (transcript cs) w1 = (Inr d, w')"
proof -
  let ?wd = "workspace_of (ticket_of s)"
  obtain client w0 r0 g1 wa g2 wb r2 g3 wc r3 g4 wd where
    c: "ne_get_runtime_client E w = (Inr client, w0)"
    and a: "git_run client ?wd [] CMD_IS_REPO w0 = (Inr (r0, g1), wa)"
    and b: "(if exit_code r0 \<noteq> 0 then bnd (git_run client ?wd g1 CMD_INIT) (\<lambda>(_, g). ret g) else ret g1) wa
            = (Inr g2, wb)"
    and n: "git_run client ?wd g2 CMD_NAME wb = (Inr (r2, g3), wc)"
    and m: "git_run client ?wd g3 CMD_EMAIL wc = (Inr (r3, g4), wd)"
    and f: "(if \<not> truthy (files_of (ticket_of s)) then ret [Set_attempt_log (log_of s @ g4)]
             else oversight_commit E client s g4) wd = (Inr d, w')"
    using assms by (auto simp: oversight_git_node_def Let_def elim!: bnd_eq_InrE)
  from a have a': "executed client ?wd [(CMD_IS_REPO, r0)] w0 wa" "g1 = [git_line CMD_IS_REPO r0]"
    by (auto elim: git_run_InrE)
  from n have n': "executed client ?wd [(CMD_NAME, r2)] wb wc" "g3 = g2 @ [git_line CMD_NAME r2]"
    by (auto elim: git_run_InrE)
  from m have m': "executed client ?wd [(CMD_EMAIL, r3)] wc wd" "g4 = g3 @ [git_line CMD_EMAIL r3]"
    by (auto elim: git_run_InrE)
  show thesis
  proof (cases "exit_code r0 = 0")
    case True
    let ?cs = "[(CMD_IS_REPO, r0), (CMD_NAME, r2), (CMD_EMAIL, r3)]"
    have p: "is_prepare ?cs" using True by (auto simp: is_prepare_def)
    have e: "executed client ?wd ?cs w0 wd" using True a'(1) b n'(1) m'(1) by auto
    have "g4 = transcript ?cs" using True a'(2) b n'(2) m'(2) by simp
    with f show thesis by (intro that [OF c p e]) auto
  next
    case False
    with b obtain r1 where "git_run client ?wd g1 CMD_INIT wa = (Inr (r1, g2), wb)"
      by (auto elim!: bnd_eq_InrE)
    then have b': "executed client ?wd [(CMD_INIT, r1)] wa wb" "g2 = g1 @ [git_line CMD_INIT r1]"
      by (auto elim: git_run_InrE)
    let ?cs = "[(CMD_IS_REPO, r0), (CMD_INIT, r1), (CMD_NAME, r2), (CMD_EMAIL, r3)]"
    have p: "is_prepare ?cs" using False by (auto simp: is_prepare_def)
    have e: "executed client ?wd ?cs w0 wd" using a'(1) b'(1) n'(1) m'(1) by auto
    have "g4 = transcript ?cs" using a'(2) b'(2) n'(2) m'(2) by simp
    with f show thesis by (intro that [OF c p e]) auto
  qed
qed

section \<open>Every way the commit half can return\<close>

text \<open>
  What a run of commands \<open>cs\<close> led to: a strike with some reason and the transcript logged, or
  the status \<open>DONE\<close>.
\<close>

definition is_strike :: "agent_state \<Rightarrow> str list \<Rightarrow> delta \<Rightarrow> bool" where
  "is_strike s g d \<longleftrightarrow> (\<exists>why. d = git_strike s g why)"

definition is_done :: "agent_state \<Rightarrow> str list \<Rightarrow> delta \<Rightarrow> bool" where
  "is_done s g d \<longleftrightarrow> d = [Set_attempt_log (log_of s @ g), Set_ticket_status DONE]"

lemma is_strike_git_strike [simp]: "is_strike s g (git_strike s g why)"
  by (auto simp: is_strike_def)

lemma is_done_simp [simp]: "is_done s g [Set_attempt_log (log_of s @ g), Set_ticket_status DONE]"
  by (simp add: is_done_def)

lemma verify_head_result:
  assumes "verify_head E client s hb g w = (Inr d, w')"
  obtains rh where "executed client (workspace_of (ticket_of s)) [(CMD_HEAD, rh)] w w'"
    and "if head_of rh = None \<or> head_of rh = hb then is_strike s (g @ [git_line CMD_HEAD rh]) d
         else is_done s (g @ [git_line CMD_HEAD rh]) d"
proof -
  from assms obtain rh where
    "rc_run_action client (PStr CMD_HEAD) (workspace_of (ticket_of s)) None w = (Inr rh, w')"
    and "if head_of rh = None \<or> head_of rh = hb then is_strike s (g @ [git_line CMD_HEAD rh]) d
         else is_done s (g @ [git_line CMD_HEAD rh]) d"
    by (auto simp: verify_head_def git_run_def Let_def elim!: bnd_eq_InrE split: if_splits)
  with that show thesis by simp
qed

lemma commit_staged_result:
  assumes "commit_staged E client s hb g w = (Inr d, w')"
  obtains (failed) rc
    where "executed client (workspace_of (ticket_of s)) [(cmd_commit (commit_message E s), rc)] w w'"
      and "exit_code rc \<noteq> 0"
      and "is_strike s (g @ [git_line (cmd_commit (commit_message E s)) rc]) d"
  | (checked) rc rh
    where "executed client (workspace_of (ticket_of s))
             [(cmd_commit (commit_message E s), rc), (CMD_HEAD, rh)] w w'"
      and "exit_code rc = 0"
      and "if head_of rh = None \<or> head_of rh = hb
           then is_strike s (g @ [git_line (cmd_commit (commit_message E s)) rc, git_line CMD_HEAD rh]) d
           else is_done s (g @ [git_line (cmd_commit (commit_message E s)) rc, git_line CMD_HEAD rh]) d"
proof -
  from assms obtain rc w1 where
    c: "rc_run_action client (PStr (cmd_commit (commit_message E s))) (workspace_of (ticket_of s)) None w = (Inr rc, w1)"
    and k: "exit_code rc \<noteq> 0 \<and> w' = w1 \<and> is_strike s (g @ [git_line (cmd_commit (commit_message E s)) rc]) d
      \<or> exit_code rc = 0 \<and> verify_head E client s hb (g @ [git_line (cmd_commit (commit_message E s)) rc]) w1 = (Inr d, w')"
    by (auto simp: commit_staged_def git_run_def elim!: bnd_eq_InrE split: if_splits)
  from k show thesis
  proof (elim disjE conjE)
    assume z: "exit_code rc = 0"
      and v: "verify_head E client s hb (g @ [git_line (cmd_commit (commit_message E s)) rc]) w1 = (Inr d, w')"
    from v show thesis
    proof (cases rule: verify_head_result)
      case (1 rh)
      show thesis
      proof (rule checked [OF _ z])
        show "executed client (workspace_of (ticket_of s))
            [(cmd_commit (commit_message E s), rc), (CMD_HEAD, rh)] w w'"
          using c 1(1) by simp
        show "if head_of rh = None \<or> head_of rh = hb
          then is_strike s (g @ [git_line (cmd_commit (commit_message E s)) rc, git_line CMD_HEAD rh]) d
          else is_done s (g @ [git_line (cmd_commit (commit_message E s)) rc, git_line CMD_HEAD rh]) d"
          using 1(2) by (simp only: append.assoc append.simps)
      qed
    qed
  next
    assume "exit_code rc \<noteq> 0" and "w' = w1"
      and "is_strike s (g @ [git_line (cmd_commit (commit_message E s)) rc]) d"
    with c show thesis by (intro failed) simp_all
  qed
qed

lemma oversight_commit_result:
  assumes "oversight_commit E client s g w = (Inr d, w')"
  obtains (add_failed) paths rb ra where "quoted_paths (files_of (ticket_of s)) = Inr paths"
      and "executed client (workspace_of (ticket_of s)) [(CMD_HEAD, rb), (cmd_add paths, ra)] w w'"
      and "exit_code ra \<noteq> 0" and "is_strike s (g @ [git_line CMD_HEAD rb, git_line (cmd_add paths) ra]) d"
  | (commit_failed) paths rb ra rc where "quoted_paths (files_of (ticket_of s)) = Inr paths"
      and "executed client (workspace_of (ticket_of s))
             [(CMD_HEAD, rb), (cmd_add paths, ra), (cmd_commit (commit_message E s), rc)] w w'"
      and "exit_code ra = 0" and "exit_code rc \<noteq> 0"
      and "is_strike s (g @ transcript [(CMD_HEAD, rb), (cmd_add paths, ra), (cmd_commit (commit_message E s), rc)]) d"
  | (committed) paths rb ra rc rh where "quoted_paths (files_of (ticket_of s)) = Inr paths"
      and "executed client (workspace_of (ticket_of s))
             [(CMD_HEAD, rb), (cmd_add paths, ra), (cmd_commit (commit_message E s), rc), (CMD_HEAD, rh)] w w'"
      and "exit_code ra = 0" and "exit_code rc = 0"
      and "if head_of rh = None \<or> head_of rh = head_of rb
           then is_strike s (g @ transcript [(CMD_HEAD, rb), (cmd_add paths, ra), (cmd_commit (commit_message E s), rc), (CMD_HEAD, rh)]) d
           else is_done s (g @ transcript [(CMD_HEAD, rb), (cmd_add paths, ra), (cmd_commit (commit_message E s), rc), (CMD_HEAD, rh)]) d"
proof -
  from assms obtain rb w1 paths ra w2 where
    h: "executed client (workspace_of (ticket_of s)) [(CMD_HEAD, rb), (cmd_add paths, ra)] w w2"
    and q: "quoted_paths (files_of (ticket_of s)) = Inr paths"
    and k: "exit_code ra \<noteq> 0 \<and> w' = w2 \<and> is_strike s (g @ [git_line CMD_HEAD rb, git_line (cmd_add paths) ra]) d
      \<or> exit_code ra = 0 \<and> commit_staged E client s (head_of rb) (g @ [git_line CMD_HEAD rb, git_line (cmd_add paths) ra]) w2 = (Inr d, w')"
    by (auto simp: oversight_commit_def git_run_def Let_def elim!: bnd_eq_InrE split: if_splits)
  from k show thesis
  proof (elim disjE conjE)
    assume ra: "exit_code ra = 0"
      and c: "commit_staged E client s (head_of rb) (g @ [git_line CMD_HEAD rb, git_line (cmd_add paths) ra]) w2 = (Inr d, w')"
    from c show thesis
    proof (cases rule: commit_staged_result)
      case (failed rc)
      have "executed client (workspace_of (ticket_of s))
          ([(CMD_HEAD, rb), (cmd_add paths, ra)] @ [(cmd_commit (commit_message E s), rc)]) w w'"
        unfolding executed_append using h failed(1) by blast
      with failed(2,3) show thesis
        by (intro commit_failed [OF q _ ra]) (simp_all only: append.assoc append.simps transcript_simps not_False_eq_True)
    next
      case (checked rc rh)
      have "executed client (workspace_of (ticket_of s))
          ([(CMD_HEAD, rb), (cmd_add paths, ra)] @ [(cmd_commit (commit_message E s), rc), (CMD_HEAD, rh)]) w w'"
        unfolding executed_append using h checked(1) by blast
      with checked(2,3) show thesis
        by (intro committed [OF q _ ra]) (simp_all only: append.assoc append.simps transcript_simps not_False_eq_True)
    qed
  next
    assume "exit_code ra \<noteq> 0" and "w' = w2"
      and "is_strike s (g @ [git_line CMD_HEAD rb, git_line (cmd_add paths) ra]) d"
    with h show thesis by (intro add_failed [OF q]) simp_all
  qed
qed

lemma oversight_node_deltas:
  assumes "oversight_git_node E s w = (Inr d, w')"
  obtains (no_files) g where "\<not> truthy (files_of (ticket_of s))" and "d = [Set_attempt_log (log_of s @ g)]"
  | (strike) g where "truthy (files_of (ticket_of s))" and "is_strike s g d"
  | (committed) g where "truthy (files_of (ticket_of s))" and "is_done s g d"
  using assms
proof (cases rule: oversight_node_prepare)
  case (1 client w0 w1 cs)
  show thesis
  proof (cases "truthy (files_of (ticket_of s))")
    case False
    with 1(4) no_files show thesis by simp
  next
    case True
    with 1(4) have "oversight_commit E client s (transcript cs) w1 = (Inr d, w')" by simp
    then show thesis
      by (cases rule: oversight_commit_result) (use True strike committed in \<open>auto split: if_splits\<close>)
  qed
qed

interpretation oversight_tn: ticket_node "oversight_git_node E"
proof unfold_locales
  fix s w d w'
  assume r: "oversight_git_node E s w = (Inr d, w')"
  from r show "list_all is_ticket_update d"
    by (cases rule: oversight_node_deltas) (auto simp: is_strike_def is_done_def git_strike_def)
  from r show "strikes s \<le> strikes (merge s d)"
    by (cases rule: oversight_node_deltas)
       (auto simp: is_strike_def is_done_def git_strike_def strikes_def)
qed

section \<open>Quoted paths\<close>

lemma quote_values_strings: "quote_values (map PStr fs) = Inr (map shlex_quote fs)"
  by (induction fs) (simp_all add: quote_value_def)

lemma quoted_paths_strings: "quoted_paths (PList (map PStr fs)) = Inr (py_join [32] (map shlex_quote fs))"
  by (simp add: quoted_paths_def quote_values_strings)

lemma words_git: "list_all is_shell_safe (lit ''git'')" "list_all is_shell_safe (lit ''add'')"
  "list_all is_shell_safe (lit ''--'')" "list_all is_shell_safe (lit ''commit'')"
  "list_all is_shell_safe (lit ''-m'')"
  by (simp_all add: lit_def is_shell_safe_def)

lemma cmd_add_split: "cmd_add paths = lit ''git'' @ 32 # lit ''add'' @ 32 # lit ''--'' @ 32 # paths"
  by (simp add: cmd_add_def lit_def)

lemma cmd_commit_split:
  "cmd_commit m = lit ''git'' @ 32 # lit ''commit'' @ 32 # lit ''-m'' @ 32 # shlex_quote m"
  by (simp add: cmd_commit_def lit_def)

lemma cmd_add_argv:
  "shell_argv (cmd_add (py_join [32] (map shlex_quote fs)))
     = Some ([lit ''git'', lit ''add'', lit ''--''] @ fs)"
  by (simp add: shell_argv_def cmd_add_split sh_words_literal_word words_git sh_words_join_quote)

lemma cmd_commit_argv: "shell_argv (cmd_commit m) = Some [lit ''git'', lit ''commit'', lit ''-m'', m]"
  using sh_words_quote [of m "[]"]
  by (simp add: shell_argv_def cmd_commit_split sh_words_literal_word words_git)

section \<open>Properties\<close>

text \<open>The commands behind a \<open>DONE\<close>; the property below and the one on whole runs rest on it.\<close>

definition commit_landed :: "'w node_env \<Rightarrow> agent_state \<Rightarrow> 'w \<Rightarrow> 'w \<Rightarrow> bool" where
  "commit_landed E s w w' \<longleftrightarrow>
    (\<exists>client w0 pre paths rb ra rc rh. ne_get_runtime_client E w = (Inr client, w0) \<and> is_prepare pre
    \<and> quoted_paths (files_of (ticket_of s)) = Inr paths
    \<and> executed client (workspace_of (ticket_of s))
        (pre @ [(CMD_HEAD, rb), (cmd_add paths, ra), (cmd_commit (commit_message E s), rc), (CMD_HEAD, rh)]) w0 w'
    \<and> exit_code ra = 0 \<and> exit_code rc = 0 \<and> exit_code rh = 0 \<and> head_of rh \<noteq> head_of rb)"

lemma done_commit_landed:
  assumes "oversight_git_node E s w = (Inr d, w')" and "ticket_status (merge s d) = Some DONE"
    and "ticket_status s \<noteq> Some DONE"
  shows "commit_landed E s w w'"
  using assms(1)
proof (cases rule: oversight_node_prepare)
  case (1 client w0 w1 cs)
  have not_done: "\<not> is_strike s g d" for g
    using assms(2,3) by (auto simp: is_strike_def git_strike_def)
  have "truthy (files_of (ticket_of s))"
    using 1(4) assms(2,3) by (auto split: if_splits)
  with 1(4) have "oversight_commit E client s (transcript cs) w1 = (Inr d, w')" by simp
  then show ?thesis
  proof (cases rule: oversight_commit_result)
    case (committed paths rb ra rc rh)
    with not_done have h: "head_of rh \<noteq> None" "head_of rh \<noteq> head_of rb" by (auto split: if_splits)
    then have "exit_code rh = 0" by (auto simp: head_of_def split: if_splits)
    moreover have "executed client (workspace_of (ticket_of s))
        (cs @ [(CMD_HEAD, rb), (cmd_add paths, ra), (cmd_commit (commit_message E s), rc), (CMD_HEAD, rh)]) w0 w'"
      unfolding executed_append using 1(3) committed(2) by blast
    ultimately show ?thesis unfolding commit_landed_def using 1(1,2) committed(1,3,4) h(2) by blast
  qed (use not_done in blast)+
qed

text \<open>
  C2: the node never reports a commit that git did not make. When it sets \<open>DONE\<close>, the commands it
  ran in the ticket's workspace were the preparation, \<open>git rev-parse HEAD\<close>, \<open>git add\<close> of the declared
  files, \<open>git commit\<close> and \<open>git rev-parse HEAD\<close> again, add, commit and the last check exited 0, and
  HEAD names another commit than before.
\<close>

theorem done_means_head_moved:
  assumes "oversight_git_node E s w = (Inr d, w')" and "ticket_status (merge s d) = Some DONE"
    and "ticket_status s \<noteq> Some DONE"
  shows "\<exists>client w0 pre paths rb ra rc rh. ne_get_runtime_client E w = (Inr client, w0) \<and> is_prepare pre
    \<and> quoted_paths (files_of (ticket_of s)) = Inr paths
    \<and> executed client (workspace_of (ticket_of s))
        (pre @ [(CMD_HEAD, rb), (cmd_add paths, ra), (cmd_commit (commit_message E s), rc), (CMD_HEAD, rh)]) w0 w'
    \<and> exit_code ra = 0 \<and> exit_code rc = 0 \<and> exit_code rh = 0 \<and> head_of rh \<noteq> head_of rb"
  using done_commit_landed [OF assms] by (simp add: commit_landed_def)

definition commit_world :: scripted where
  \<comment> \<open>a repository whose HEAD moves at the commit\<close>
  "commit_world = scripted_world [(''git rev-parse HEAD'', [answer 0 ''aaa'', answer 0 ''bbb''])]"

definition reject_world :: scripted where
  \<comment> \<open>a repository that refuses the commit\<close>
  "reject_world = scripted_world [(''git commit'', [answer 1 ''nothing to commit''])]"

lemmas git_commands = CMD_IS_REPO_def CMD_INIT_def CMD_NAME_def CMD_EMAIL_def CMD_HEAD_def cmd_add_def cmd_commit_def

lemma demo_reads: "ticket_of demo_state = demo_ticket" "log_of demo_state = []" "strikes demo_state = 0"
  "ticket_status demo_state = None" "files_of demo_ticket = PList [PStr (lit ''foo.py'')]"
  "workspace_of demo_ticket = PStr (lit ''/ws'')"
  by (simp_all add: demo_state_def empty_state_def ticket_of_def log_of_def strikes_def demo_ticket_def files_of_def
        dget_def py_or_def workspace_of_def)

lemma scripted_env_client [simp]:
  "ne_get_runtime_client (scripted_env t) w = (Inr (scripted_client (\<lambda>_. True)), w)"
  "rc_run_action (scripted_client P) = scripted_run_action P"
  by (simp_all add: scripted_env_def scripted_client_def)

lemma scripted_action:
  "scripted_run_action P (PStr a) cwd t w =
     (case scripted_pop a (scr_queues w) of
        Some (r, qs) \<Rightarrow> (Inr r, w\<lparr>scr_commands := scr_commands w @ [PStr a], scr_queues := qs\<rparr>)
      | None \<Rightarrow> (Inr \<lparr>exit_code = 0, output = lit ''[scripted] '' @ a\<rparr>, w\<lparr>scr_commands := scr_commands w @ [PStr a]\<rparr>))"
  by (simp add: scripted_run_action_def Let_def split: option.splits)

lemma commit_demo:
  "\<exists>d w'. oversight_git_node (scripted_env ''ok'') demo_state commit_world = (Inr d, w')
     \<and> ticket_status (merge demo_state d) = Some DONE"
  by (simp add: oversight_git_node_def oversight_commit_def commit_staged_def verify_head_def git_run_def demo_reads
        scripted_action commit_world_def scripted_world_def git_commands quoted_paths_def quote_value_def
        lit_def head_of_def answer_def py_strip_def is_space_def prog_simps split_beta Let_def)

theorem done_means_head_moved_witness:
  "\<exists>d w' pre paths rb ra rc rh. oversight_git_node (scripted_env ''ok'') demo_state commit_world = (Inr d, w')
    \<and> executed (scripted_client (\<lambda>_. True)) (PStr (lit ''/ws''))
        (pre @ [(CMD_HEAD, rb), (cmd_add paths, ra), (cmd_commit (commit_message (scripted_env ''ok'') demo_state), rc),
           (CMD_HEAD, rh)]) commit_world w'
    \<and> head_of rh \<noteq> head_of rb"
proof -
  obtain d w' where e: "oversight_git_node (scripted_env ''ok'') demo_state commit_world = (Inr d, w')"
    "ticket_status (merge demo_state d) = Some DONE" using commit_demo by blast
  have "ticket_status demo_state \<noteq> Some DONE" by (simp add: demo_reads)
  from done_means_head_moved [OF e this] e show ?thesis by (auto simp: demo_reads) blast
qed

text \<open>
  C3: a ticket with declared files whose commit does not land costs exactly one strike. The status
  and the validation result stay as they were, and the log gains the transcript of the commands and
  one line with the reason.
\<close>

theorem failed_commit_is_one_strike:
  assumes "oversight_git_node E s w = (Inr d, w')" and "truthy (files_of (ticket_of s))"
    and "ticket_status (merge s d) \<noteq> Some DONE"
  shows "strikes (merge s d) = strikes s + 1 \<and> ticket_status (merge s d) = ticket_status s
    \<and> last_validation_passed (merge s d) = last_validation_passed s
    \<and> (\<exists>client w0 cs why. ne_get_runtime_client E w = (Inr client, w0)
        \<and> executed client (workspace_of (ticket_of s)) cs w0 w'
        \<and> log_of (merge s d) = log_of s @ transcript cs @ [lit ''oversight_git: '' @ why])"
  using assms(1)
proof (cases rule: oversight_node_prepare)
  case (1 client w0 w1 cs)
  from 1(4) assms(2) have c: "oversight_commit E client s (transcript cs) w1 = (Inr d, w')" by simp
  have fin: ?thesis if x: "executed client (workspace_of (ticket_of s)) cs2 w1 w'"
    and k: "is_strike s (transcript cs @ transcript cs2) d" for cs2
  proof -
    have "executed client (workspace_of (ticket_of s)) (cs @ cs2) w0 w'"
      unfolding executed_append using 1(3) x by blast
    moreover obtain why where "d = git_strike s (transcript (cs @ cs2)) why"
      using k by (auto simp: is_strike_def)
    ultimately show ?thesis using 1(1)
      by (auto simp: git_strike_def strikes_def log_of_def simp del: transcript_simps)
  qed
  from c show ?thesis
  proof (cases rule: oversight_commit_result)
    case (add_failed paths rb ra)
    then show ?thesis by (intro fin [of "[(CMD_HEAD, rb), (cmd_add paths, ra)]"]) simp_all
  next
    case (commit_failed paths rb ra rc)
    then show ?thesis by (intro fin [OF commit_failed(2)]) simp_all
  next
    case (committed paths rb ra rc rh)
    have "\<not> is_done s g d" for g using assms(3) by (auto simp: is_done_def)
    with committed(5) have "is_strike s (transcript cs @ transcript [(CMD_HEAD, rb), (cmd_add paths, ra),
        (cmd_commit (commit_message E s), rc), (CMD_HEAD, rh)]) d" by (auto split: if_splits)
    then show ?thesis by (intro fin [OF committed(2)])
  qed
qed

lemma reject_demo:
  "\<exists>d w'. oversight_git_node (scripted_env ''ok'') demo_state reject_world = (Inr d, w')
     \<and> ticket_status (merge demo_state d) \<noteq> Some DONE"
  by (simp add: oversight_git_node_def oversight_commit_def commit_staged_def verify_head_def git_run_def demo_reads
        scripted_action reject_world_def scripted_world_def git_commands quoted_paths_def quote_value_def
        lit_def head_of_def answer_def py_strip_def is_space_def prog_simps split_beta Let_def git_strike_def)

theorem failed_commit_is_one_strike_witness:
  "\<exists>d w'. oversight_git_node (scripted_env ''ok'') demo_state reject_world = (Inr d, w')
     \<and> strikes (merge demo_state d) = 1 \<and> ticket_status (merge demo_state d) = None"
proof -
  obtain d w' where e: "oversight_git_node (scripted_env ''ok'') demo_state reject_world = (Inr d, w')"
    "ticket_status (merge demo_state d) \<noteq> Some DONE" using reject_demo by blast
  have "truthy (files_of (ticket_of demo_state))" by (simp add: demo_reads)
  from failed_commit_is_one_strike [OF e(1) this e(2)] e(1) show ?thesis by (auto simp: demo_reads)
qed

text \<open>
  A ticket that declares no files is never committed and never punished: only the preparation of
  the repository runs, no add and no commit, and the only effect on the state is its transcript in
  the log.
\<close>

theorem no_files_no_commit:
  assumes "oversight_git_node E s w = (Inr d, w')" and "\<not> truthy (files_of (ticket_of s))"
  shows "\<exists>client w0 cs. ne_get_runtime_client E w = (Inr client, w0) \<and> is_prepare cs
    \<and> executed client (workspace_of (ticket_of s)) cs w0 w'
    \<and> merge s d = s\<lparr>attempt_log := Some (log_of s @ transcript cs)\<rparr>"
  using assms(1)
proof (cases rule: oversight_node_prepare)
  case (1 client w0 w1 cs)
  with assms(2) have "d = [Set_attempt_log (log_of s @ transcript cs)]" "w' = w1" by simp_all
  with 1(1-3) show ?thesis by (intro exI [of _ client] exI [of _ w0] exI [of _ cs]) simp
qed

theorem no_files_no_commit_witness:
  "\<exists>d w' cs. oversight_git_node (scripted_env ''ok'') empty_state (scripted_world []) = (Inr d, w') \<and> is_prepare cs
     \<and> executed (scripted_client (\<lambda>_. True)) (PStr DEFAULT_WORKSPACE_DIR) cs (scripted_world []) w'"
proof -
  have f: "\<not> truthy (files_of (ticket_of empty_state))" "workspace_of (ticket_of empty_state) = PStr DEFAULT_WORKSPACE_DIR"
    by (simp_all add: empty_state_def ticket_of_def files_of_def dget_def py_or_def workspace_of_def)
  have "\<exists>d w'. oversight_git_node (scripted_env ''ok'') empty_state (scripted_world []) = (Inr d, w')"
    by (simp add: oversight_git_node_def git_run_def f scripted_action scripted_world_def git_commands prog_simps split_beta Let_def)
  then obtain d w' where e: "oversight_git_node (scripted_env ''ok'') empty_state (scripted_world []) = (Inr d, w')" by blast
  from no_files_no_commit [OF e f(1)] e f(2) show ?thesis by auto
qed

text \<open>
  C8: no declared path and no commit message can change the git command line. Read by a POSIX shell,
  the add command has exactly the arguments \<open>add\<close>, \<open>--\<close> and the declared paths, whatever characters
  they contain, and the commit command exactly \<open>commit\<close>, \<open>-m\<close> and the message.
\<close>

theorem git_commands_inert:
  assumes "files_of (ticket_of s) = PList (map PStr fs)"
  shows "\<exists>paths. quoted_paths (files_of (ticket_of s)) = Inr paths
    \<and> shell_argv (cmd_add paths) = Some ([lit ''git'', lit ''add'', lit ''--''] @ fs)
    \<and> shell_argv (cmd_commit (commit_message E s)) = Some [lit ''git'', lit ''commit'', lit ''-m'', commit_message E s]"
  using assms by (simp add: quoted_paths_strings cmd_add_argv cmd_commit_argv)

theorem git_commands_inert_witness:
  "\<exists>paths. quoted_paths (files_of [(lit ''files_changed'', PList [PStr (lit ''a b; rm -rf $HOME'')])]) = Inr paths
    \<and> shell_argv (cmd_add paths) = Some [lit ''git'', lit ''add'', lit ''--'', lit ''a b; rm -rf $HOME'']"
proof -
  let ?s = "empty_state\<lparr>active_ticket := Some [(lit ''files_changed'', PList [PStr (lit ''a b; rm -rf $HOME'')])]\<rparr>"
  have t: "ticket_of ?s = [(lit ''files_changed'', PList [PStr (lit ''a b; rm -rf $HOME'')])]"
    by (simp add: ticket_of_def)
  have "files_of (ticket_of ?s) = PList (map PStr [lit ''a b; rm -rf $HOME''])"
    unfolding t by (simp add: files_of_def dget_def py_or_def)
  from git_commands_inert [OF this, of "scripted_env ''ok''"] show ?thesis unfolding t by auto
qed

lemma executed_mock:
  "executed (mock_client P) cwd cs w w' \<Longrightarrow> (c, r) \<in> set cs \<Longrightarrow> r = \<lparr>exit_code = 0, output = lit ''[mock] '' @ c\<rparr>"
  by (induction "mock_client P" cwd cs w w' rule: executed.induct) (auto simp: mock_client_def mock_run_action_def)

text \<open>
  In mock mode nothing is ever reported as committed: the mock answers every command alike, so
  HEAD does not move and the node strikes a ticket with files instead of setting \<open>DONE\<close>.
\<close>

theorem mock_never_done:
  assumes "oversight_git_node E s w = (Inr d, w')" and "ne_get_runtime_client E w = (Inr (mock_client P), w0)"
    and "ticket_status s \<noteq> Some DONE"
  shows "ticket_status (merge s d) \<noteq> Some DONE"
  using assms(1)
proof (cases rule: oversight_node_prepare)
  case (1 client w0' w1 cs)
  with assms(2) have cl: "client = mock_client P" by simp
  show ?thesis
  proof (cases "truthy (files_of (ticket_of s))")
    case False
    with 1(4) assms(3) show ?thesis by simp
  next
    case True
    with 1(4) have "oversight_commit E client s (transcript cs) w1 = (Inr d, w')" by simp
    then show ?thesis
    proof (cases rule: oversight_commit_result)
      case (committed paths rb ra rc rh)
      from executed_mock [OF committed(2) [unfolded cl], of CMD_HEAD rb]
        executed_mock [OF committed(2) [unfolded cl], of CMD_HEAD rh]
      have "rb = rh" by simp
      with committed(5) assms(3) show ?thesis by (auto simp: is_strike_def git_strike_def)
    qed (use assms(3) in \<open>auto simp: is_strike_def git_strike_def\<close>)
  qed
qed

theorem mock_never_done_witness:
  "\<exists>d w'. oversight_git_node mock_env demo_state Map.empty = (Inr d, w') \<and> ticket_status (merge demo_state d) \<noteq> Some DONE"
proof -
  have c: "ne_get_runtime_client mock_env Map.empty = (Inr (mock_client (\<lambda>_. True)), Map.empty)"
    by (simp add: mock_env_def)
  have "\<exists>d w'. oversight_git_node mock_env demo_state Map.empty = (Inr d, w')"
    by (simp add: oversight_git_node_def oversight_commit_def commit_staged_def verify_head_def git_run_def demo_reads
        mock_env_def mock_client_def mock_run_action_def quoted_paths_def quote_value_def
        head_of_def prog_simps split_beta Let_def)
  then obtain d w' where e: "oversight_git_node mock_env demo_state Map.empty = (Inr d, w')" by blast
  have "ticket_status demo_state \<noteq> Some DONE" by (simp add: demo_reads)
  from mock_never_done [OF e c this] e show ?thesis by blast
qed

end
