(* ===== verification/Planning.thy ===== *)
theory Planning
  imports Executor
begin

text \<open>
  The front half of \<open>syndicate/nodes.py\<close>: \<open>analyzer_node\<close> and \<open>architect_node\<close>, which turn a
  GitHub issue into a ticket with two model calls, the detection of a test command from the
  checkout, and the dispatch node with its router.
\<close>

definition ANALYZER_MODEL :: str where
  "ANALYZER_MODEL = lit ''claude-sonnet-4-6''"

definition ARCHITECT_MODEL :: str where
  "ARCHITECT_MODEL = lit ''claude-sonnet-4-6''"

definition TEST_MANIFEST_COMMANDS :: "(str \<times> str) list" where
  "TEST_MANIFEST_COMMANDS =
     [(lit ''pyproject.toml'', lit ''python3 -m pytest -q''),
      (lit ''pytest.ini'', lit ''python3 -m pytest -q''),
      (lit ''setup.cfg'', lit ''python3 -m pytest -q''),
      (lit ''package.json'', lit ''npm test''),
      (lit ''Cargo.toml'', lit ''cargo test''),
      (lit ''go.mod'', lit ''go test ./...''),
      (lit ''Gemfile'', lit ''bundle exec rspec'')]"

section \<open>Model calls that answer in JSON\<close>

text \<open>\<open>issue.get(k, '')\<close> inside an f-string.\<close>

definition text_or :: "str \<Rightarrow> str option \<Rightarrow> str" where
  "text_or d t = (case t of None \<Rightarrow> d | Some x \<Rightarrow> x)"

definition number_or :: "str \<Rightarrow> int option \<Rightarrow> str" where
  "number_or d n = (case n of None \<Rightarrow> d | Some i \<Rightarrow> int_str i)"

definition issue_key :: "github_issue \<Rightarrow> str \<Rightarrow> str" where
  "issue_key i role = role @ lit '':'' @ text_or [] (gi_repo i) @ lit ''#'' @ number_or [] (gi_number i)"

definition parse_llm_json :: "'w node_env \<Rightarrow> str \<Rightarrow> exc + dict" where
  "parse_llm_json E txt =
     (case json_loads txt of
        None \<Rightarrow> Inl (ValueError (lit ''LLM response was not valid JSON: '' @ str_repr (ne_printable E) txt))
      | Some (PDict d) \<Rightarrow> Inr d
      | Some _ \<Rightarrow> Inl (ValueError (lit ''LLM response JSON was not an object: ''
                         @ str_repr (ne_printable E) txt)))"

definition call_llm_json ::
  "'w node_env \<Rightarrow> str \<Rightarrow> str \<Rightarrow> str \<Rightarrow> int \<Rightarrow> ('w, dict) prog" where
  "call_llm_json E key model prompt max_tokens =
     bnd (ne_get_llm_client E (PStr key)) (\<lambda>client.
     bnd (messages_create client model max_tokens []
            [\<lparr>msg_role = User, msg_content = CText prompt\<rparr>]) (\<lambda>rsp.
       of_result (parse_llm_json E (text_of (rsp_content rsp)))))"

definition issue_header :: "github_issue \<Rightarrow> str" where
  "issue_header i =
     lit ''Repo: '' @ text_or [] (gi_repo i) @ [10]
     @ lit ''Issue #'' @ number_or [] (gi_number i) @ lit '': '' @ text_or [] (gi_title i) @ [10, 10]
     @ text_or [] (gi_body i) @ [10, 10]"

definition json_key_line :: "string \<Rightarrow> string \<Rightarrow> str" where
  "json_key_line k descr = lit ''  '' @ [34] @ lit k @ [34] @ lit '': '' @ lit descr @ [10]"

definition analyzer_prompt :: "github_issue \<Rightarrow> str" where
  "analyzer_prompt i =
     lit ''You are triaging a GitHub issue for automated resolution.'' @ [10]
     @ issue_header i
     @ lit ''Reply with a single JSON object, no prose, with keys:'' @ [10]
     @ json_key_line ''problem_summary'' ''one sentence stating the bug or request''
     @ json_key_line ''root_cause_hypothesis'' ''your best guess at the underlying cause''
     @ json_key_line ''suspected_files'' ''repo-relative file paths likely needing changes''"

definition architect_prompt :: "'w node_env \<Rightarrow> github_issue \<Rightarrow> dict \<Rightarrow> str option \<Rightarrow> str" where
  "architect_prompt E i analysis detected =
     (let no_manifest = lit ''No recognized test manifest was found in the checkout root. You must still specify a verification_command based on the issue and repo.'';
          detection_note =
            (case detected of
               None \<Rightarrow> no_manifest
             | Some c \<Rightarrow>
                 if c = [] then no_manifest
                 else lit ''Test tooling detected in the checkout: '' @ str_repr (ne_printable E) c
                      @ lit ''. Use this unless the issue clearly calls for a more specific command (e.g. one test file).'')
      in lit ''You are turning a triaged GitHub issue into a work ticket for an autonomous coding agent.'' @ [10]
         @ issue_header i
         @ lit ''Analysis:'' @ [10] @ json_dumps (ne_printable E) (PDict analysis) @ [10, 10]
         @ detection_note @ [10, 10]
         @ lit ''Reply with a single JSON object, no prose, with keys:'' @ [10]
         @ json_key_line ''title'' ''short imperative summary of the fix''
         @ json_key_line ''intent'' ''one sentence describing the change, used in the commit message''
         @ json_key_line ''files_changed'' ''repo-relative file paths this ticket will edit''
         @ json_key_line ''verification_command'' ''shell command run in the workspace to confirm the fix'')"

section \<open>_detect_verification_command\<close>

fun detect_from :: "'w runtime_client \<Rightarrow> str \<Rightarrow> (str \<times> str) list \<Rightarrow> ('w, str option) prog" where
  "detect_from client workspace_dir [] = ret None"
| "detect_from client workspace_dir ((filename, command) # rest) =
     (\<lambda>w. case rc_read_file client (PStr (workspace_dir @ lit ''/'' @ filename)) w of
            (Inl e, w') \<Rightarrow> if is_file_not_found e then detect_from client workspace_dir rest w' else (Inl e, w')
          | (Inr _, w') \<Rightarrow> (Inr (Some command), w'))"

definition detect_verification_command :: "'w runtime_client \<Rightarrow> str \<Rightarrow> ('w, str option) prog" where
  "detect_verification_command client workspace_dir =
     detect_from client workspace_dir TEST_MANIFEST_COMMANDS"

section \<open>analyzer_node and architect_node\<close>

definition stub_ticket :: dict where
  "stub_ticket = [(lit ''id'', PStr (lit ''TICKET-1'')), (lit ''title'', PStr (lit ''stub ticket''))]"

definition analyzer_node :: "'w node_env \<Rightarrow> agent_state \<Rightarrow> ('w, delta) prog" where
  "analyzer_node E state =
     (case issue state of
        None \<Rightarrow> ret [Set_active_ticket (if ticket_of state \<noteq> [] then ticket_of state else stub_ticket)]
      | Some i \<Rightarrow>
          bnd (call_llm_json E (issue_key i (lit ''analyzer'')) ANALYZER_MODEL (analyzer_prompt i) 1024)
            (\<lambda>analysis. ret [Set_issue_analysis analysis]))"

definition issue_workspace :: "github_issue \<Rightarrow> str" where
  "issue_workspace i =
     (case gi_workspace_dir i of
        None \<Rightarrow> DEFAULT_WORKSPACE_DIR
      | Some d \<Rightarrow> if d = [] then DEFAULT_WORKSPACE_DIR else d)"

definition planned_ticket :: "github_issue \<Rightarrow> dict \<Rightarrow> pyval \<Rightarrow> dict" where
  "planned_ticket i planned verification_command =
     [(lit ''id'', PStr (text_or (lit ''issue'') (gi_repo i) @ lit ''#'' @ number_or (lit ''0'') (gi_number i))),
      (lit ''title'', py_or (py_or (dget planned ''title'') (PStr (text_or [] (gi_title i)))) (PStr (lit ''untitled''))),
      (lit ''intent'', py_or (py_or (dget planned ''intent'') (dget planned ''title'')) (PStr (lit ''update''))),
      (lit ''files_changed'', py_or (dget planned ''files_changed'') (PList [])),
      (lit ''workspace_dir'', PStr (issue_workspace i)),
      (lit ''verification_command'', verification_command)]"

text \<open>The end of the node: choose the command, or refuse, and build the ticket.\<close>

definition architect_ticket :: "github_issue \<Rightarrow> str option \<Rightarrow> dict \<Rightarrow> exc + delta" where
  "architect_ticket i detected planned =
     (let verification_command =
            py_or (dget planned ''verification_command'')
              (case detected of None \<Rightarrow> PNone | Some c \<Rightarrow> PStr c)
      in if \<not> truthy verification_command
         then Inl (ValueError (lit ''architect could not derive a verification_command for ''
                @ text_or [] (gi_repo i) @ lit ''#'' @ number_or [] (gi_number i)
                @ lit '': no recognized test manifest in the checkout and the model did not provide one. Refusing to fabricate a default -- fix the issue/repo input or extend _TEST_MANIFEST_COMMANDS.''))
         else Inr [Set_active_ticket (planned_ticket i planned verification_command)])"

definition architect_node :: "'w node_env \<Rightarrow> agent_state \<Rightarrow> ('w, delta) prog" where
  "architect_node E state =
     (case (issue state, issue_analysis state) of
        (Some i, Some analysis) \<Rightarrow>
          bnd (ne_get_runtime_client E) (\<lambda>client.
          bnd (detect_verification_command client (issue_workspace i)) (\<lambda>detected.
          bnd (call_llm_json E (issue_key i (lit ''architect'')) ARCHITECT_MODEL
                 (architect_prompt E i analysis detected) 1024) (\<lambda>planned.
            of_result (architect_ticket i detected planned))))
      | _ \<Rightarrow> ret [])"

section \<open>Dispatch\<close>

definition dispatch_node :: "agent_state \<Rightarrow> delta" where
  "dispatch_node state = []"

definition dispatch_router :: "agent_state \<Rightarrow> node_name option" where
  \<comment> \<open>\<open>None\<close> is \<open>END\<close>\<close>
  "dispatch_router state =
     (if run_status state = Some HALTED_ESCALATION_BUDGET then None
      else if ticket_status state = Some ESCALATED then None
      else if validated state then None
      else Some Executor)"

section \<open>What the planning nodes return\<close>

text \<open>
  \<open>manifest_found\<close>: reading the manifests in the order of the table, all before the one of the command
  are missing, and that one can be read.
\<close>

fun manifest_found :: "'w runtime_client \<Rightarrow> str \<Rightarrow> (str \<times> str) list \<Rightarrow> str \<Rightarrow> 'w \<Rightarrow> 'w \<Rightarrow> bool" where
  "manifest_found client wd [] c w w' \<longleftrightarrow> False"
| "manifest_found client wd ((f, command) # ms) c w w' \<longleftrightarrow>
     (\<exists>content. rc_read_file client (PStr (wd @ lit ''/'' @ f)) w = (Inr content, w')) \<and> c = command
   \<or> (\<exists>e w1. rc_read_file client (PStr (wd @ lit ''/'' @ f)) w = (Inl e, w1) \<and> is_file_not_found e
        \<and> manifest_found client wd ms c w1 w')"

lemma detect_from_found: "detect_from client wd ms w = (Inr (Some c), w') \<longleftrightarrow> manifest_found client wd ms c w w'"
proof (induction ms arbitrary: w)
  case (Cons m ms)
  obtain f d where m: "m = (f, d)" by (cases m)
  obtain r w1 where rd: "rc_read_file client (PStr (wd @ lit ''/'' @ f)) w = (r, w1)" by fastforce
  from Cons.IH [of w1] show ?case by (cases r) (auto simp: m rd)
qed simp

lemma detect_from_Some:
  "detect_from client wd ms w = (Inr (Some c), w') \<Longrightarrow> \<exists>f. (f, c) \<in> set ms"
proof (induction ms arbitrary: w)
  case (Cons m ms)
  obtain f d where m: "m = (f, d)" by (cases m)
  with Cons show ?case by (fastforce split: prod.splits sum.splits if_splits)
qed simp

lemma detected_nonempty:
  "detect_verification_command client wd w = (Inr (Some c), w') \<Longrightarrow> c \<noteq> []"
proof -
  assume "detect_verification_command client wd w = (Inr (Some c), w')"
  then have "\<exists>f. (f, c) \<in> set TEST_MANIFEST_COMMANDS"
    unfolding detect_verification_command_def by (rule detect_from_Some)
  then show "c \<noteq> []" by (auto simp: TEST_MANIFEST_COMMANDS_def)
qed

lemma parse_llm_json_Inr:
  "parse_llm_json E t = Inr d \<longleftrightarrow> json_loads t = Some (PDict d)"
  by (auto simp: parse_llm_json_def split: option.splits pyval.splits)

lemma parse_llm_json_Inl: "parse_llm_json E t = Inl e \<Longrightarrow> \<exists>m. e = ValueError m"
  by (auto simp: parse_llm_json_def split: option.splits pyval.splits)

lemma analyzer_node_cases:
  assumes "analyzer_node E s w = (Inr d, w')"
  obtains (stub) "issue s = None" and "w' = w"
      and "d = [Set_active_ticket (if ticket_of s \<noteq> [] then ticket_of s else stub_ticket)]"
  | (analysed) i a where "issue s = Some i" and "d = [Set_issue_analysis a]"
  using assms by (auto simp: analyzer_node_def elim!: bnd_eq_InrE split: option.splits)

lemma architect_ticket_Inr:
  "architect_ticket i detected planned = Inr d \<Longrightarrow>
   \<exists>vc. vc = py_or (dget planned ''verification_command'') (case detected of None \<Rightarrow> PNone | Some c \<Rightarrow> PStr c)
     \<and> truthy vc \<and> d = [Set_active_ticket (planned_ticket i planned vc)]"
  by (simp add: architect_ticket_def Let_def split: if_split_asm)

lemma architect_node_cases:
  assumes "architect_node E s w = (Inr d, w')"
  obtains (skip) "issue s = None \<or> issue_analysis s = None" and "d = []" and "w' = w"
  | (planned) i a client w1 detected w2 planned vc where "issue s = Some i" and "issue_analysis s = Some a"
      and "ne_get_runtime_client E w = (Inr client, w1)"
      and "detect_verification_command client (issue_workspace i) w1 = (Inr detected, w2)"
      and "call_llm_json E (issue_key i (lit ''architect'')) ARCHITECT_MODEL (architect_prompt E i a detected) 1024 w2 = (Inr planned, w')"
      and "vc = py_or (dget planned ''verification_command'') (case detected of None \<Rightarrow> PNone | Some c \<Rightarrow> PStr c)"
      and "truthy vc" and "d = [Set_active_ticket (planned_ticket i planned vc)]"
proof (cases "issue s = None \<or> issue_analysis s = None")
  case True
  with assms have "d = [] \<and> w' = w" by (auto simp: architect_node_def split: option.splits)
  with True skip show thesis by simp
next
  case False
  then obtain i a where i: "issue s = Some i" "issue_analysis s = Some a" by auto
  with assms obtain client w1 detected w2 planned where
    "ne_get_runtime_client E w = (Inr client, w1)"
    and "detect_verification_command client (issue_workspace i) w1 = (Inr detected, w2)"
    and "call_llm_json E (issue_key i (lit ''architect'')) ARCHITECT_MODEL (architect_prompt E i a detected) 1024 w2 = (Inr planned, w')"
    and "architect_ticket i detected planned = Inr d"
    by (auto simp: architect_node_def elim!: bnd_eq_InrE)
  with i planned architect_ticket_Inr show thesis by blast
qed

lemma truthy_py_or: "truthy (py_or a b) \<longleftrightarrow> truthy a \<or> truthy b"
  by (simp add: py_or_def)

lemma planned_ticket_workspace: "workspace_of (planned_ticket i p vc) = PStr (issue_workspace i)"
proof -
  have "issue_workspace i \<noteq> []"
    by (simp add: issue_workspace_def DEFAULT_WORKSPACE_DIR_def split: option.splits)
  then show ?thesis by (simp add: workspace_of_def dget_def planned_ticket_def py_or_def)
qed

section \<open>Properties\<close>

lemma detect_from_mock:
  "detect_from (mock_client P) dir ms files =
     (Inr (map_option snd (find (\<lambda>(f, c). files (PStr (dir @ lit ''/'' @ f)) \<noteq> None) ms)), files)"
proof (induction ms)
  case (Cons m ms)
  obtain f c where "m = (f, c)" by (cases m)
  with Cons show ?case
    by (auto simp: mock_client_def mock_read_file_def split: option.splits)
qed simp

text \<open>
  The detected test command is that of the first manifest of the table that exists at the root
  of the checkout, and there is none when no manifest exists.
\<close>

theorem detection_first_manifest:
  "detect_verification_command (mock_client P) dir files =
     (Inr (map_option snd
        (find (\<lambda>(manifest, command). files (PStr (dir @ lit ''/'' @ manifest)) \<noteq> None) TEST_MANIFEST_COMMANDS)),
      files)"
  by (simp add: detect_verification_command_def detect_from_mock)

text \<open>
  C13: the architect never makes up a verification command. It looks for a test manifest in the checkout,
  asks the model with what it found in the prompt, and plans a ticket from the model's answer whose
  non-empty command is the answer's own, or, when the answer has none, that of the first manifest of
  the table that could be read; without either it raises and plans nothing.
\<close>

theorem architect_never_fabricates:
  assumes "architect_node E s w = (Inr d, w')" and "issue s = Some i" and "issue_analysis s = Some a"
  shows "\<exists>client w1 detected w2 planned vc. ne_get_runtime_client E w = (Inr client, w1)
    \<and> detect_verification_command client (issue_workspace i) w1 = (Inr detected, w2)
    \<and> call_llm_json E (issue_key i (lit ''architect'')) ARCHITECT_MODEL (architect_prompt E i a detected) 1024 w2 = (Inr planned, w')
    \<and> d = [Set_active_ticket (planned_ticket i planned vc)] \<and> truthy vc
    \<and> dget (ticket_of (merge s d)) ''verification_command'' = vc
    \<and> (if truthy (dget planned ''verification_command'') then vc = dget planned ''verification_command''
       else \<exists>command. vc = PStr command \<and> manifest_found client (issue_workspace i) TEST_MANIFEST_COMMANDS command w1 w2)"
proof -
  from assms(1) obtain client w1 detected w2 planned where
    c: "ne_get_runtime_client E w = (Inr client, w1)" and det: "detect_verification_command client (issue_workspace i) w1 = (Inr detected, w2)"
    and m: "call_llm_json E (issue_key i (lit ''architect'')) ARCHITECT_MODEL (architect_prompt E i a detected) 1024 w2 = (Inr planned, w')"
    and t: "truthy (py_or (dget planned ''verification_command'') (case detected of None \<Rightarrow> PNone | Some c \<Rightarrow> PStr c))"
    and d: "d = [Set_active_ticket (planned_ticket i planned
          (py_or (dget planned ''verification_command'') (case detected of None \<Rightarrow> PNone | Some c \<Rightarrow> PStr c)))]"
    by (cases rule: architect_node_cases) (use assms(2,3) in auto)
  let ?m = "dget planned ''verification_command''"
  let ?vc = "py_or ?m (case detected of None \<Rightarrow> PNone | Some c \<Rightarrow> PStr c)"
  have "if truthy ?m then ?vc = ?m
      else \<exists>c. ?vc = PStr c \<and> manifest_found client (issue_workspace i) TEST_MANIFEST_COMMANDS c w1 w2"
  proof (cases "truthy ?m")
    case False
    with t obtain c where c: "detected = Some c" by (cases detected) (auto simp: py_or_def)
    with det have "manifest_found client (issue_workspace i) TEST_MANIFEST_COMMANDS c w1 w2"
      by (simp add: detect_verification_command_def detect_from_found)
    with c False show ?thesis by (simp add: py_or_def)
  qed (simp add: py_or_def)
  moreover have "dget (ticket_of (merge s d)) ''verification_command'' = ?vc"
    by (simp add: dget_def planned_ticket_def d ticket_of_def)
  ultimately show ?thesis using c det m d t by blast
qed

definition demo_issue :: github_issue where
  "demo_issue = \<lparr>gi_repo = Some (lit ''o/r''), gi_number = Some 7, gi_title = Some (lit ''t''), gi_body = Some [],
     gi_workspace_dir = Some (lit ''/ws'')\<rparr>"

definition planning_state :: agent_state where
  "planning_state = empty_state\<lparr>issue := Some demo_issue, issue_analysis := Some []\<rparr>"

text \<open>A model that answers with an empty object, in a checkout that has a \<open>Cargo.toml\<close>.\<close>

definition cargo_world :: scripted where
  "cargo_world = (scripted_world [])\<lparr>scr_files := [PStr (lit ''/ws/Cargo.toml'') \<mapsto> PStr []]\<rparr>"

theorem architect_never_fabricates_witness:
  "\<exists>d w'. architect_node (scripted_env ''{}'') planning_state cargo_world = (Inr d, w')
     \<and> truthy (dget (ticket_of (merge planning_state d)) ''verification_command'')"
proof -
  have j: "json_loads (lit ''{}'') = Some (PDict [])"
    by (simp add: json_loads_def json_ws_def lit_def eval_nat_numeral)
  have det: "detect_verification_command (scripted_client (\<lambda>_. True)) (lit ''/ws'') cargo_world
      = (Inr (Some (lit ''cargo test'')), cargo_world)"
    by (simp add: detect_verification_command_def TEST_MANIFEST_COMMANDS_def scripted_client_def on_files_def
          mock_read_file_def cargo_world_def lit_append [symmetric] del: lit_append) 
  have "\<exists>d w'. architect_node (scripted_env ''{}'') planning_state cargo_world = (Inr d, w')"
    using det j
    by (simp add: architect_node_def planning_state_def demo_issue_def issue_workspace_def scripted_env_def
          call_llm_json_def architect_ticket_def completing_llm_def text_of_def parse_llm_json_def dget_def py_or_def bnd_def ret_def Let_def)
  then obtain d w' where e: "architect_node (scripted_env ''{}'') planning_state cargo_world = (Inr d, w')" by blast
  have "issue planning_state = Some demo_issue" "issue_analysis planning_state = Some []"
    by (simp_all add: planning_state_def)
  from architect_never_fabricates [OF e this] have "truthy (dget (ticket_of (merge planning_state d)) ''verification_command'')"
    by (elim exE conjE) simp
  with e show ?thesis by blast
qed

end
