(* ===== verification/Graph.thy ===== *)
theory Graph
  imports Oversight Planning
begin

text \<open>
  \<open>build_graph\<close> of \<open>syndicate/nodes.py\<close>: the eight nodes, the edges between them and the entry
  point. LangGraph's engine is not part of the repository; what the model uses of it is what the
  graph declares: one node is active, its result is merged key by key into the state, and the
  edge of the node, evaluated on the merged state, gives the next node or \<open>END\<close>. \<open>graph_step\<close> is
  that as a step relation, \<open>run_from\<close> the executable run with LangGraph's recursion limit, and
  the two agree (\<open>run_from_reaches\<close>).
\<close>

section \<open>Nodes and edges\<close>

instantiation node_name :: enum
begin
definition "enum_class.enum = [Analyzer, Architect, Dispatch, Executor, Validator, Oversight_git, Escalate, Advance]"
definition "enum_class.enum_all Q \<longleftrightarrow> Q Analyzer \<and> Q Architect \<and> Q Dispatch \<and> Q Executor
  \<and> Q Validator \<and> Q Oversight_git \<and> Q Escalate \<and> Q Advance"
definition "enum_class.enum_ex Q \<longleftrightarrow> Q Analyzer \<or> Q Architect \<or> Q Dispatch \<or> Q Executor
  \<or> Q Validator \<or> Q Oversight_git \<or> Q Escalate \<or> Q Advance"
instance
proof
  have all: "n \<in> set [Analyzer, Architect, Dispatch, Executor, Validator, Oversight_git, Escalate, Advance]" for n
    by (cases n) simp_all
  show "(UNIV :: node_name set) = set enum_class.enum"
    using all by (auto simp: enum_node_name_def)
  show "distinct (enum_class.enum :: node_name list)"
    by (simp add: enum_node_name_def)
  show "enum_class.enum_all Q = Ball UNIV Q" for Q :: "node_name \<Rightarrow> bool"
    unfolding enum_all_node_name_def by (metis UNIV_I node_name.exhaust)
  show "enum_class.enum_ex Q = Bex UNIV Q" for Q :: "node_name \<Rightarrow> bool"
    unfolding enum_ex_node_name_def by (metis UNIV_I node_name.exhaust)
qed
end

definition entry_point :: node_name where
  "entry_point = Analyzer"

fun node_fun :: "'w node_env \<Rightarrow> node_name \<Rightarrow> agent_state \<Rightarrow> ('w, delta) prog" where
  "node_fun E Analyzer s = analyzer_node E s"
| "node_fun E Architect s = architect_node E s"
| "node_fun E Dispatch s = ret (dispatch_node s)"
| "node_fun E Executor s = executor_node E s"
| "node_fun E Validator s = validator_node E s"
| "node_fun E Oversight_git s = oversight_git_node E s"
| "node_fun E Escalate s = ret (escalate_node E s)"
| "node_fun E Advance s = ret (advance_node s)"

text \<open>\<open>None\<close> is \<open>END\<close>.\<close>

fun next_node :: "node_name \<Rightarrow> agent_state \<Rightarrow> node_name option" where
  "next_node Analyzer s = Some Architect"
| "next_node Architect s = Some Dispatch"
| "next_node Dispatch s = dispatch_router s"
| "next_node Executor s = Some Validator"
| "next_node Validator s = Some (validator_router s)"
| "next_node Oversight_git s = Some (oversight_git_router s)"
| "next_node Escalate s = Some Advance"
| "next_node Advance s = Some Dispatch"

fun node_label :: "node_name \<Rightarrow> str" where
  "node_label Analyzer = lit ''analyzer''"
| "node_label Architect = lit ''architect''"
| "node_label Dispatch = lit ''dispatch''"
| "node_label Executor = lit ''executor''"
| "node_label Validator = lit ''validator''"
| "node_label Oversight_git = lit ''oversight_git''"
| "node_label Escalate = lit ''escalate''"
| "node_label Advance = lit ''advance''"

section \<open>Steps and runs\<close>

datatype 'w conf =
    At node_name agent_state 'w
  | Ended agent_state 'w
  | Failed exc agent_state 'w

inductive graph_step :: "'w node_env \<Rightarrow> 'w conf \<Rightarrow> 'w conf \<Rightarrow> bool" for E where
  move: "node_fun E n s w = (Inr d, w') \<Longrightarrow> next_node n (merge s d) = Some m
           \<Longrightarrow> graph_step E (At n s w) (At m (merge s d) w')"
| finish: "node_fun E n s w = (Inr d, w') \<Longrightarrow> next_node n (merge s d) = None
           \<Longrightarrow> graph_step E (At n s w) (Ended (merge s d) w')"
| failure: "node_fun E n s w = (Inl e, w') \<Longrightarrow> graph_step E (At n s w) (Failed e s w')"

inductive_cases graph_step_AtE: "graph_step E (At n s w) c"
inductive_cases graph_step_EndedE: "graph_step E (Ended s w) c"
inductive_cases graph_step_FailedE: "graph_step E (Failed e s w) c"
inductive_simps graph_step_to_At: "graph_step E (At n s w) (At m s' w')"

inductive reachable :: "'w node_env \<Rightarrow> 'w conf \<Rightarrow> 'w conf \<Rightarrow> bool" for E c0 where
  start: "reachable E c0 c0"
| step: "reachable E c0 c \<Longrightarrow> graph_step E c c' \<Longrightarrow> reachable E c0 c'"

datatype outcome = Finished | Raised exc | Out_of_steps

fun run_from ::
  "'w node_env \<Rightarrow> nat \<Rightarrow> node_name \<Rightarrow> agent_state \<Rightarrow> 'w
   \<Rightarrow> (node_name \<times> delta) list \<times> outcome \<times> agent_state \<times> 'w" where
  "run_from E 0 n s w = ([], Out_of_steps, s, w)"
| "run_from E (Suc k) n s w =
     (case node_fun E n s w of
        (Inl e, w') \<Rightarrow> ([], Raised e, s, w')
      | (Inr d, w') \<Rightarrow>
          (case next_node n (merge s d) of
             None \<Rightarrow> ([(n, d)], Finished, merge s d, w')
           | Some m \<Rightarrow>
               (case run_from E k m (merge s d) w' of
                  (us, out, s', w'') \<Rightarrow> ((n, d) # us, out, s', w''))))"

text \<open>\<open>graph.astream(initial_state)\<close> with a recursion limit: the stream of updates and the end.\<close>

definition run_graph ::
  "'w node_env \<Rightarrow> nat \<Rightarrow> agent_state \<Rightarrow> 'w \<Rightarrow> (node_name \<times> delta) list \<times> outcome \<times> agent_state \<times> 'w" where
  "run_graph E recursion_limit s w = run_from E recursion_limit entry_point s w"

lemma graph_step_deterministic: "graph_step E c a \<Longrightarrow> graph_step E c b \<Longrightarrow> a = b"
  by (auto elim!: graph_step.cases)

lemma reachable_first:
  assumes "reachable E c1 c" and "graph_step E c0 c1"
  shows "reachable E c0 c"
  using assms
proof (induction rule: reachable.induct)
  case start
  then show ?case by (rule reachable.step [OF reachable.start])
next
  case (step c c')
  then show ?case by (auto intro: reachable.step)
qed

fun conf_of :: "outcome \<Rightarrow> agent_state \<Rightarrow> 'w \<Rightarrow> 'w conf option" where
  "conf_of Finished s w = Some (Ended s w)"
| "conf_of (Raised e) s w = Some (Failed e s w)"
| "conf_of Out_of_steps s w = None"

text \<open>A run that stops by itself ends in a configuration that the step relation reaches.\<close>

lemma run_from_reaches:
  assumes "run_from E k n s w = (us, out, s', w')" and "conf_of out s' w' = Some c"
  shows "reachable E (At n s w) c"
  using assms
proof (induction k arbitrary: n s w us)
  case (Suc k)
  show ?case
  proof (cases "node_fun E n s w")
    case (Pair r w1)
    show ?thesis
    proof (cases r)
      case (Inl e)
      with Pair Suc.prems show ?thesis
        by (auto intro: reachable.step [OF reachable.start graph_step.failure])
    next
      case (Inr d)
      show ?thesis
      proof (cases "next_node n (merge s d)")
        case None
        with Pair Inr Suc.prems show ?thesis
          by (auto intro: reachable.step [OF reachable.start graph_step.finish])
      next
        case (Some m)
        with Pair Inr Suc.prems obtain us' where "run_from E k m (merge s d) w1 = (us', out, s', w')"
          by (auto split: prod.splits)
        from Suc.IH [OF this Suc.prems(2)] Some Pair Inr show ?thesis
          by (auto intro: reachable_first graph_step.move)
      qed
    qed
  qed
qed simp

section \<open>Termination\<close>

text \<open>
  How many nodes can still run. From the executor each round of at most three nodes costs a
  strike, and the way out is escalate, advance, dispatch.
\<close>

definition executor_bound :: "agent_state \<Rightarrow> nat" where
  "executor_bound s = 3 * nat (max 1 (MAX_STRIKES - strikes s)) + 3"

fun steps_left :: "node_name \<Rightarrow> agent_state \<Rightarrow> nat" where
  "steps_left Analyzer s = executor_bound s + 3"
| "steps_left Architect s = executor_bound s + 2"
| "steps_left Dispatch s = (if dispatch_router s = None then 1 else executor_bound s + 1)"
| "steps_left Executor s = executor_bound s"
| "steps_left Validator s = executor_bound s - 1"
| "steps_left Oversight_git s = executor_bound s - 2"
| "steps_left Escalate s = 3"
| "steps_left Advance s = 2"

text \<open>What holds when a node is entered by an edge.\<close>

definition entered_ok :: "node_name \<Rightarrow> agent_state \<Rightarrow> bool" where
  "entered_ok n s \<longleftrightarrow>
     (n = Oversight_git \<longrightarrow> validated s) \<and> (n = Advance \<longrightarrow> dispatch_router s = None)"

lemma dispatch_ends: "validated s \<Longrightarrow> dispatch_router s = None"
  "ticket_status s = Some ESCALATED \<Longrightarrow> dispatch_router s = None"
  by (simp_all add: dispatch_router_def)

lemma executor_bound_mono: "strikes s \<le> strikes t \<Longrightarrow> executor_bound t \<le> executor_bound s"
  by (simp add: executor_bound_def)

lemma executor_bound_ge: "6 \<le> executor_bound s"
  by (simp add: executor_bound_def)

lemma executor_bound_strike:
  "strikes t = strikes s + 1 \<Longrightarrow> strikes t < MAX_STRIKES \<Longrightarrow> executor_bound t + 3 \<le> executor_bound s"
  by (simp add: executor_bound_def)

lemma step_decreases_validator:
  assumes "validator_node E s w = (Inr d, w')"
  shows "entered_ok (validator_router (merge s d)) (merge s d)
    \<and> steps_left (validator_router (merge s d)) (merge s d) < steps_left Validator s"
  using assms
proof (cases rule: validator_node_cases)
  case (fail diag)
  have s: "strikes (merge s d) = strikes s + 1" using fail by (simp add: strikes_def)
  have "\<not> validated (merge s d)" using fail by (simp add: validated_def)
  with s executor_bound_strike [OF s] executor_bound_ge [of s] show ?thesis
    by (auto simp: validator_router_def entered_ok_def)
qed (use executor_bound_ge [of s] in \<open>simp_all add: validator_router_def validated_def entered_ok_def
       executor_bound_def strikes_def\<close>)

lemma step_decreases_oversight:
  assumes "oversight_git_node E s w = (Inr d, w')" and "validated s"
  shows "entered_ok (oversight_git_router (merge s d)) (merge s d)
    \<and> steps_left (oversight_git_router (merge s d)) (merge s d) < steps_left Oversight_git s"
  using assms(1)
proof (cases rule: oversight_node_deltas)
  case (no_files g)
  have "ticket_of (merge s d) = ticket_of s"
    by (rule oversight_tn.frame_reads [OF assms(1)])
  with no_files assms(2) executor_bound_ge [of s] show ?thesis
    by (simp add: oversight_git_router_def entered_ok_def dispatch_router_def validated_def)
next
  case (strike g)
  then have s: "strikes (merge s d) = strikes s + 1"
    and v: "validated (merge s d)"
    using assms(2) by (auto simp: is_strike_def git_strike_def strikes_def validated_def)
  from v executor_bound_strike [OF s] executor_bound_ge [of s] show ?thesis
    by (auto simp: oversight_git_router_def entered_ok_def dispatch_ends)
next
  case (committed g)
  with assms(2) executor_bound_ge [of s] show ?thesis
    by (simp add: is_done_def oversight_git_router_def entered_ok_def dispatch_router_def validated_def)
qed

lemma graph_step_decreases:
  assumes "node_fun E n s w = (Inr d, w')" and "next_node n (merge s d) = Some m" and "entered_ok n s"
  shows "entered_ok m (merge s d) \<and> steps_left m (merge s d) < steps_left n s"
proof (cases n)
  case Analyzer
  with assms have "analyzer_node E s w = (Inr d, w')" by simp
  then have "strikes (merge s d) = strikes s"
    by (cases rule: analyzer_node_cases) (simp_all add: strikes_def)
  with Analyzer assms(2) show ?thesis by (auto simp: entered_ok_def executor_bound_def)
next
  case Architect
  with assms have "architect_node E s w = (Inr d, w')" by simp
  then have "strikes (merge s d) = strikes s"
    by (cases rule: architect_node_cases) (simp_all add: strikes_def)
  with Architect assms(2) show ?thesis by (auto simp: entered_ok_def executor_bound_def)
next
  case Dispatch
  with assms show ?thesis
    by (auto simp: dispatch_node_def dispatch_router_def entered_ok_def split: if_splits)
next
  case Executor
  with assms have "executor_node E s w = (Inr d, w')" by simp
  from executor_bound_mono [OF executor_tn.strikes_mono [OF this]] Executor assms(2)
    executor_bound_ge [of "merge s d"]
  show ?thesis by (auto simp: entered_ok_def)
next
  case Validator
  with assms have d: "validator_node E s w = (Inr d, w')" and m: "m = validator_router (merge s d)"
    by simp_all
  from step_decreases_validator [OF d] Validator m show ?thesis by simp
next
  case Oversight_git
  with assms have d: "oversight_git_node E s w = (Inr d, w')" and v: "validated s"
    and m: "m = oversight_git_router (merge s d)"
    by (simp_all add: entered_ok_def)
  from step_decreases_oversight [OF d v] Oversight_git m show ?thesis by simp
next
  case Escalate
  with assms show ?thesis
    by (auto simp: escalate_node_def Let_def entered_ok_def dispatch_router_def)
next
  case Advance
  with assms have "dispatch_router (merge s d) = None"
    by (auto simp: advance_node_def entered_ok_def dispatch_router_def validated_def split: if_splits)
  with Advance assms(2) show ?thesis by (auto simp: entered_ok_def)
qed

lemma run_from_enough_steps:
  assumes "entered_ok n s" and "steps_left n s \<le> k"
  shows "fst (snd (run_from E k n s w)) \<noteq> Out_of_steps"
    and "length (fst (run_from E k n s w)) \<le> steps_left n s"
proof -
  have "fst (snd (run_from E k n s w)) \<noteq> Out_of_steps
      \<and> length (fst (run_from E k n s w)) \<le> steps_left n s"
    using assms
  proof (induction k arbitrary: n s w)
    case 0
    have "0 < steps_left n s" using executor_bound_ge [of s] by (cases n) auto
    with 0 show ?case by simp
  next
    case (Suc k)
    have pos: "0 < steps_left n s" using executor_bound_ge [of s] by (cases n) auto
    show ?case
    proof (cases "node_fun E n s w")
      case (Pair r w1)
      show ?thesis
      proof (cases r)
        case (Inl e)
        with Pair show ?thesis by simp
      next
        case (Inr d)
        show ?thesis
        proof (cases "next_node n (merge s d)")
          case None
          with Pair Inr pos show ?thesis by simp
        next
          case (Some m)
          from graph_step_decreases [OF _ Some Suc.prems(1), of E w w1] Pair Inr
          have "entered_ok m (merge s d)" "steps_left m (merge s d) < steps_left n s" by simp_all
          with Suc.IH [of m "merge s d" w1] Suc.prems(2) Pair Inr Some show ?thesis
            by (auto split: prod.splits)
        qed
      qed
    qed
  qed
  then show "fst (snd (run_from E k n s w)) \<noteq> Out_of_steps"
    and "length (fst (run_from E k n s w)) \<le> steps_left n s" by simp_all
qed

lemma steps_left_fresh: "0 \<le> strikes s \<Longrightarrow> steps_left entry_point s \<le> 15"
  by (simp add: entry_point_def executor_bound_def MAX_STRIKES_def)

lemma entered_entry [simp]: "entered_ok entry_point s"
  by (simp add: entered_ok_def entry_point_def)

section \<open>The life of a ticket\<close>

text \<open>
  What holds of the state at each node, for a run that starts at \<open>s0\<close> with no ticket work done:
  before the executor nothing of the ticket is set; while it is worked on the run-wide fields and
  the ledger are those of \<open>s0\<close>; \<open>settled\<close> lists the three ways the work can end.
\<close>

definition fresh :: "agent_state \<Rightarrow> bool" where
  "fresh s \<longleftrightarrow> ticket_status s = None \<and> \<not> validated s \<and> strikes s = 0 \<and> escalations s = 0
     \<and> run_status s \<noteq> Some HALTED_ESCALATION_BUDGET"

definition committed_end :: "agent_state \<Rightarrow> bool" where
  "committed_end s \<longleftrightarrow> ticket_status s = Some DONE \<and> validated s \<and> truthy (files_of (ticket_of s))
     \<and> escalations s = 0 \<and> run_status s \<noteq> Some HALTED_ESCALATION_BUDGET"

definition no_files_end :: "agent_state \<Rightarrow> bool" where
  "no_files_end s \<longleftrightarrow> (ticket_status s = Some LOCAL_PASS \<or> ticket_status s = Some ESCALATED)
     \<and> validated s \<and> \<not> truthy (files_of (ticket_of s))
     \<and> escalations s = 0 \<and> run_status s \<noteq> Some HALTED_ESCALATION_BUDGET"

definition escalated_end :: "'w node_env \<Rightarrow> agent_state \<Rightarrow> bool" where
  "escalated_end E s \<longleftrightarrow> ticket_status s = Some ESCALATED \<and> MAX_STRIKES \<le> strikes s \<and> strikes s \<le> MAX_STRIKES + 1
     \<and> escalations s = 1 \<and> (run_status s = Some HALTED_ESCALATION_BUDGET \<longleftrightarrow> ne_max_escalations E < 1)"

definition settled :: "'w node_env \<Rightarrow> agent_state \<Rightarrow> bool" where
  "settled E s \<longleftrightarrow> committed_end s \<or> no_files_end s \<or> escalated_end E s"

definition untouched :: "agent_state \<Rightarrow> agent_state \<Rightarrow> bool" where
  "untouched s0 s \<longleftrightarrow> issue s = issue s0 \<and> escalations s = 0 \<and> ledger_of s = ledger_of s0
     \<and> run_status s \<noteq> Some HALTED_ESCALATION_BUDGET \<and> ticket_status s \<noteq> Some DONE"

definition closed_with :: "'w node_env \<Rightarrow> agent_state \<Rightarrow> agent_state \<Rightarrow> bool" where
  "closed_with E s0 s \<longleftrightarrow> settled E s \<and> issue s = issue s0 \<and> attempt_log s = Some []
     \<and> (\<exists>l. ledger_of s = ledger_of s0 @ [distil l])"

fun graph_inv :: "'w node_env \<Rightarrow> agent_state \<Rightarrow> node_name \<Rightarrow> agent_state \<Rightarrow> bool" where
  "graph_inv E s0 Analyzer s \<longleftrightarrow> fresh s \<and> untouched s0 s"
| "graph_inv E s0 Architect s \<longleftrightarrow> fresh s \<and> untouched s0 s"
| "graph_inv E s0 Dispatch s \<longleftrightarrow> fresh s \<and> untouched s0 s \<or> closed_with E s0 s"
| "graph_inv E s0 Executor s \<longleftrightarrow> untouched s0 s \<and> strikes s < MAX_STRIKES"
| "graph_inv E s0 Validator s \<longleftrightarrow> untouched s0 s \<and> strikes s \<le> MAX_STRIKES
     \<and> (ticket_status s = Some LOCAL_PASS \<or> ticket_status s = Some ESCALATED)"
| "graph_inv E s0 Oversight_git s \<longleftrightarrow> untouched s0 s \<and> strikes s \<le> MAX_STRIKES \<and> validated s
     \<and> (ticket_status s = Some LOCAL_PASS \<or> ticket_status s = Some ESCALATED)"
| "graph_inv E s0 Escalate s \<longleftrightarrow> untouched s0 s \<and> MAX_STRIKES \<le> strikes s \<and> strikes s \<le> MAX_STRIKES + 1"
| "graph_inv E s0 Advance s \<longleftrightarrow> settled E s \<and> issue s = issue s0 \<and> ledger_of s = ledger_of s0"

lemma untouched_frame:
  assumes "untouched s0 s" and "list_all is_ticket_update d" and "ticket_status (merge s d) \<noteq> Some DONE"
  shows "untouched s0 (merge s d)"
  using assms merge_ticket_updates [OF assms(2), of s]
  by (simp add: untouched_def escalations_def ledger_of_def)

lemma settled_ends: "settled E s \<Longrightarrow> dispatch_router s = None"
  by (auto simp: settled_def committed_end_def no_files_end_def escalated_end_def dispatch_router_def)

lemma inv_executor:
  assumes r: "executor_node E s w = (Inr d, w')" and inv: "graph_inv E s0 Executor s"
  shows "graph_inv E s0 Validator (merge s d)"
proof -
  note t = executor_tn.ticket_only [OF r]
  from r have "(ticket_status (merge s d) = Some LOCAL_PASS \<or> ticket_status (merge s d) = Some ESCALATED)
      \<and> strikes (merge s d) \<le> MAX_STRIKES"
    using inv by (cases rule: executor_node_cases) (auto simp: strikes_def)
  with untouched_frame [OF _ t, of s0 s] inv show ?thesis by auto
qed

lemma inv_validator:
  assumes r: "validator_node E s w = (Inr d, w')" and inv: "graph_inv E s0 Validator s"
  shows "graph_inv E s0 (validator_router (merge s d)) (merge s d)"
proof -
  have st: "ticket_status (merge s d) = ticket_status s"
    using r by (cases rule: validator_node_cases) simp_all
  have u: "untouched s0 (merge s d)"
    using untouched_frame [OF _ validator_tn.ticket_only [OF r], of s0] inv st by auto
  from r show ?thesis
  proof (cases rule: validator_node_cases)
    case (fail diag)
    then have "\<not> validated (merge s d)" "strikes (merge s d) = strikes s + 1"
      by (simp_all add: validated_def strikes_def)
    with u st inv show ?thesis by (auto simp: validator_router_def)
  qed (use u st inv in \<open>auto simp: validator_router_def validated_def strikes_def\<close>)
qed

lemma inv_oversight:
  assumes r: "oversight_git_node E s w = (Inr d, w')" and inv: "graph_inv E s0 Oversight_git s"
  shows "graph_inv E s0 (oversight_git_router (merge s d)) (merge s d)"
proof -
  note f = oversight_tn.frame_reads [OF r] oversight_tn.frame [OF r]
  from inv have i: "untouched s0 s" "strikes s \<le> MAX_STRIKES" "validated s"
    "ticket_status s = Some LOCAL_PASS \<or> ticket_status s = Some ESCALATED" by auto
  from r show ?thesis
  proof (cases rule: oversight_node_deltas)
    case (no_files g)
    then have "ticket_status (merge s d) = ticket_status s" "validated (merge s d)"
      using i(3) by (simp_all add: validated_def)
    with no_files(1) i f show ?thesis
      by (auto simp: oversight_git_router_def untouched_def settled_def no_files_end_def)
  next
    case (strike g)
    then have m: "ticket_status (merge s d) = ticket_status s" "strikes (merge s d) = strikes s + 1"
      by (auto simp: is_strike_def git_strike_def strikes_def)
    have "untouched s0 (merge s d)"
      using untouched_frame [OF i(1) oversight_tn.ticket_only [OF r]] m(1) i(4) by auto
    with strike(1) m i f show ?thesis by (auto simp: oversight_git_router_def)
  next
    case (committed g)
    then have "ticket_status (merge s d) = Some DONE" "validated (merge s d)"
      using i(3) by (simp_all add: is_done_def validated_def)
    with committed(1) i f show ?thesis
      by (auto simp: oversight_git_router_def untouched_def settled_def committed_end_def)
  qed
qed

lemma inv_escalate:
  assumes "graph_inv E s0 Escalate s"
  shows "graph_inv E s0 Advance (merge s (escalate_node E s))"
  using assms
  by (auto simp: escalate_node_def Let_def settled_def escalated_end_def untouched_def escalations_def
        ledger_of_def strikes_def)

lemma inv_advance:
  assumes "graph_inv E s0 Advance s"
  shows "closed_with E s0 (merge s (advance_node s))"
proof -
  have "settled E (merge s (advance_node s)) = settled E s"
    by (simp add: settled_def committed_end_def no_files_end_def escalated_end_def advance_node_def
          validated_def ticket_of_def escalations_def strikes_def)
  with assms show ?thesis by (auto simp: closed_with_def advance_node_def ledger_of_def)
qed

lemma fresh_dispatch: "fresh s \<Longrightarrow> dispatch_router s = Some Executor"
  by (simp add: fresh_def dispatch_router_def)

lemma inv_planning [simp]:
  "fresh (s\<lparr>active_ticket := t\<rparr>) = fresh s" "untouched s0 (s\<lparr>active_ticket := t\<rparr>) = untouched s0 s"
  "fresh (s\<lparr>issue_analysis := a\<rparr>) = fresh s" "untouched s0 (s\<lparr>issue_analysis := a\<rparr>) = untouched s0 s"
  by (simp_all add: fresh_def untouched_def validated_def strikes_def escalations_def ledger_of_def)

lemma graph_inv_step:
  assumes "node_fun E n s w = (Inr d, w')" and inv: "graph_inv E s0 n s"
  shows "case next_node n (merge s d) of
           Some m \<Rightarrow> graph_inv E s0 m (merge s d)
         | None \<Rightarrow> closed_with E s0 (merge s d)"
proof (cases n)
  case Analyzer
  with assms have "analyzer_node E s w = (Inr d, w')" by simp
  then show ?thesis
    by (cases rule: analyzer_node_cases) (use inv Analyzer in \<open>simp_all\<close>)
next
  case Architect
  with assms have "architect_node E s w = (Inr d, w')" by simp
  then show ?thesis
    by (cases rule: architect_node_cases) (use inv Architect in \<open>simp_all\<close>)
next
  case Dispatch
  with assms have d: "d = []" by (simp add: dispatch_node_def)
  from inv Dispatch consider "fresh s" "untouched s0 s" | "closed_with E s0 s" by auto
  then show ?thesis
  proof cases
    case 1
    then have "strikes s < MAX_STRIKES" by (simp add: fresh_def MAX_STRIKES_def)
    with 1 d Dispatch show ?thesis by (simp add: fresh_dispatch)
  next
    case 2
    then have "dispatch_router s = None" by (auto simp: closed_with_def intro: settled_ends)
    with 2 d Dispatch show ?thesis by simp
  qed
next
  case Executor
  with assms inv_executor [of E s w d w' s0] show ?thesis by simp
next
  case Validator
  with assms inv_validator [of E s w d w' s0] show ?thesis by simp
next
  case Oversight_git
  with assms inv_oversight [of E s w d w' s0] show ?thesis by simp
next
  case Escalate
  with assms inv_escalate [of E s0 s] show ?thesis by simp
next
  case Advance
  with assms inv_advance [of E s0 s] show ?thesis by simp
qed

text \<open>The invariant of every configuration that a run from a fresh state reaches.\<close>

fun conf_inv :: "'w node_env \<Rightarrow> agent_state \<Rightarrow> 'w conf \<Rightarrow> bool" where
  "conf_inv E s0 (At n s w) = graph_inv E s0 n s"
| "conf_inv E s0 (Ended s w) = closed_with E s0 s"
| "conf_inv E s0 (Failed e s w) = (\<exists>n. graph_inv E s0 n s)"

lemma conf_inv_step: "graph_step E c c' \<Longrightarrow> conf_inv E s0 c \<Longrightarrow> conf_inv E s0 c'"
proof (induction rule: graph_step.induct)
  case (move n s w d w' m)
  with graph_inv_step [of E n s w d w' s0] show ?case by simp
next
  case (finish n s w d w')
  with graph_inv_step [of E n s w d w' s0] show ?case by simp
qed auto

lemma conf_inv_reachable:
  assumes "reachable E (At entry_point s0 w0) c" and "fresh s0"
  shows "conf_inv E s0 c"
  using assms(1)
proof (induction rule: reachable.induct)
  case start
  from assms(2) show ?case by (simp add: entry_point_def untouched_def fresh_def)
next
  case (step c c')
  show ?case by (rule conf_inv_step [OF step.hyps(2) step.IH])
qed

section \<open>Who sets DONE\<close>

lemma only_oversight_sets_done:
  assumes "node_fun E n s w = (Inr d, w')" and "ticket_status (merge s d) = Some DONE"
    and "ticket_status s \<noteq> Some DONE"
  shows "n = Oversight_git"
proof (cases n)
  case Analyzer
  with assms(1) have "analyzer_node E s w = (Inr d, w')" by simp
  then show ?thesis by (cases rule: analyzer_node_cases) (use assms in simp_all)
next
  case Architect
  with assms(1) have "architect_node E s w = (Inr d, w')" by simp
  then show ?thesis by (cases rule: architect_node_cases) (use assms in simp_all)
next
  case Executor
  with assms(1) have "executor_node E s w = (Inr d, w')" by simp
  then show ?thesis by (cases rule: executor_node_cases) (use assms in simp_all)
next
  case Validator
  with assms(1) have "validator_node E s w = (Inr d, w')" by simp
  then show ?thesis by (cases rule: validator_node_cases) (use assms in simp_all)
qed (use assms in \<open>auto simp: dispatch_node_def escalate_node_def advance_node_def Let_def split: if_splits\<close>)

fun conf_state :: "'w conf \<Rightarrow> agent_state" where
  "conf_state (At n s w) = s"
| "conf_state (Ended s w) = s"
| "conf_state (Failed e s w) = s"

lemma done_from_oversight:
  assumes "reachable E c0 c" and "ticket_status (conf_state c0) \<noteq> Some DONE"
    and "ticket_status (conf_state c) = Some DONE"
  shows "\<exists>s w w'. reachable E c0 (At Oversight_git s w) \<and> commit_landed E s w w'"
  using assms(1,3)
proof (induction rule: reachable.induct)
  case start
  with assms(2) show ?case by simp
next
  case (step c c')
  show ?case
  proof (cases "ticket_status (conf_state c) = Some DONE")
    case False
    from step.hyps(2) False step.prems obtain n s w d w' where
      c: "c = At n s w" "node_fun E n s w = (Inr d, w')" "ticket_status (merge s d) = Some DONE"
      by (cases rule: graph_step.cases) auto
    with False have n: "n = Oversight_git" using only_oversight_sets_done by fastforce
    with c False have "commit_landed E s w w'" by (intro done_commit_landed) auto
    with step.hyps(1) c(1) n show ?thesis by blast
  qed (rule step.IH)
qed

section \<open>Properties\<close>

text \<open>The witnesses are the run in mock mode.\<close>

lemmas run_mock = mock_env_def mock_client_def mock_run_action_def

lemma mock_run:
  "case run_graph mock_env 25 empty_state Map.empty of
     (us, out, s', w') \<Rightarrow> map fst us = [Analyzer, Architect, Dispatch, Executor, Validator, Oversight_git, Advance, Dispatch]
       \<and> out = Finished \<and> attempt_log s' = Some [] \<and> ticket_status s' = Some LOCAL_PASS \<and> \<not> truthy (files_of (ticket_of s'))"
  by (simp add: run_graph_def eval_nat_numeral entry_point_def empty_state_def analyzer_node_def
        architect_node_def dispatch_node_def dispatch_router_def executor_node_def validator_node_def
        run_mock DUMMY_ACTIONS_def oversight_git_node_def git_run_def git_commands
        validator_router_def oversight_git_router_def advance_node_def
        ticket_of_def log_of_def ledger_of_def strikes_def validated_def stub_ticket_def files_of_def dget_def py_or_def
        workspace_of_def prog_simps split_beta Let_def)

lemma mock_run_ex:
  "\<exists>us s' w'. run_graph mock_env 25 empty_state Map.empty = (us, Finished, s', w')
     \<and> ticket_status s' = Some LOCAL_PASS \<and> \<not> truthy (files_of (ticket_of s'))"
  using mock_run by (auto split: prod.splits)

lemma mock_reaches_executor:
  "\<exists>s w. reachable mock_env (At entry_point empty_state Map.empty) (At Executor s w)"
proof -
  let ?s = "merge empty_state [Set_active_ticket stub_ticket]"
  have "graph_step mock_env (At Analyzer empty_state Map.empty) (At Architect ?s Map.empty)"
    by (rule graph_step.move) (simp_all add: analyzer_node_def empty_state_def ticket_of_def)
  moreover have "graph_step mock_env (At Architect ?s Map.empty) (At Dispatch (merge ?s []) Map.empty)"
    by (rule graph_step.move) (simp_all add: architect_node_def empty_state_def)
  moreover have "graph_step mock_env (At Dispatch (merge ?s []) Map.empty) (At Executor (merge (merge ?s []) []) Map.empty)"
    by (rule graph_step.move)
       (simp_all add: dispatch_node_def dispatch_router_def empty_state_def validated_def)
  ultimately show ?thesis
    unfolding entry_point_def by (blast intro: reachable.intros)
qed

lemma fresh_empty: "fresh empty_state"
  by (simp add: fresh_def empty_state_def validated_def strikes_def escalations_def)

text \<open>
  C5: the graph terminates. Whatever the sandbox and the model answer, a run from a state with a
  non-negative strike count stops by itself, finished or with an exception, after at most 15 nodes.
  LangGraph's recursion limit of 25 is never reached.
\<close>

theorem graph_terminates:
  assumes "0 \<le> strikes s" and "15 \<le> k"
  shows "fst (snd (run_graph E k s w)) \<noteq> Out_of_steps \<and> length (fst (run_graph E k s w)) \<le> 15"
  using run_from_enough_steps [OF entered_entry, of s k E w] steps_left_fresh [OF assms(1)] assms(2)
  by (simp add: run_graph_def)

theorem graph_terminates_witness:
  "length (fst (run_graph mock_env 25 empty_state Map.empty)) \<le> 15"
  using graph_terminates [of empty_state 25 mock_env Map.empty] by (simp add: strikes_def empty_state_def)

text \<open>
  C4: what a finished run has done with its ticket. From a fresh state there are three ends: the
  ticket is \<open>DONE\<close>, validated and has declared files; or it is validated and declares no files, so
  nothing was committed; or it was escalated once after 3 or 4 strikes, and the run is marked as
  halted exactly when the escalation budget is below one.
\<close>

theorem finished_run_settled:
  assumes "run_graph E k s w = (us, Finished, s', w')" and "fresh s"
  shows "ticket_status s' = Some DONE \<and> validated s' \<and> truthy (files_of (ticket_of s')) \<and> escalations s' = 0
       \<and> run_status s' \<noteq> Some HALTED_ESCALATION_BUDGET
     \<or> ticket_status s' \<in> {Some LOCAL_PASS, Some ESCALATED} \<and> validated s' \<and> \<not> truthy (files_of (ticket_of s'))
       \<and> escalations s' = 0 \<and> run_status s' \<noteq> Some HALTED_ESCALATION_BUDGET
     \<or> ticket_status s' = Some ESCALATED \<and> MAX_STRIKES \<le> strikes s' \<and> strikes s' \<le> MAX_STRIKES + 1
       \<and> escalations s' = 1 \<and> (run_status s' = Some HALTED_ESCALATION_BUDGET \<longleftrightarrow> ne_max_escalations E < 1)"
proof -
  have "reachable E (At entry_point s w) (Ended s' w')"
    using run_from_reaches [of E k entry_point s w us Finished s' w'] assms(1) by (simp add: run_graph_def)
  from conf_inv_reachable [OF this assms(2)] show ?thesis
    by (auto simp: closed_with_def settled_def committed_end_def no_files_end_def escalated_end_def)
qed

theorem finished_run_settled_witness:
  "\<exists>us s' w'. run_graph mock_env 25 empty_state Map.empty = (us, Finished, s', w')
     \<and> validated s' \<and> \<not> truthy (files_of (ticket_of s')) \<and> escalations s' = 0"
proof -
  obtain us s' w' where r: "run_graph mock_env 25 empty_state Map.empty = (us, Finished, s', w')"
    "ticket_status s' = Some LOCAL_PASS" using mock_run_ex by blast
  from finished_run_settled [OF r(1) fresh_empty] r show ?thesis by auto
qed

text \<open>
  A finished run leaves exactly one entry in the ledger, the distillation of some attempt log,
  behind those that were there, and an empty attempt log; the issue is the one the run started with.
\<close>

theorem finished_run_one_decision:
  assumes "run_graph E k s w = (us, Finished, s', w')" and "fresh s"
  shows "\<exists>l. ledger_of s' = ledger_of s @ [distil l] \<and> attempt_log s' = Some [] \<and> issue s' = issue s"
proof -
  have "reachable E (At entry_point s w) (Ended s' w')"
    using run_from_reaches [of E k entry_point s w us Finished s' w'] assms(1) by (simp add: run_graph_def)
  from conf_inv_reachable [OF this assms(2)] show ?thesis by (auto simp: closed_with_def)
qed

theorem finished_run_one_decision_witness:
  "\<exists>us s' w' l. run_graph mock_env 25 empty_state Map.empty = (us, Finished, s', w') \<and> ledger_of s' = [distil l]"
proof -
  obtain us s' w' where r: "run_graph mock_env 25 empty_state Map.empty = (us, Finished, s', w')"
    using mock_run_ex by blast
  have "ledger_of empty_state = []" by (simp add: ledger_of_def empty_state_def)
  with finished_run_one_decision [OF r fresh_empty] r show ?thesis by auto
qed

text \<open>
  C23: the guards of the edges hold at every node a run visits: the executor is entered only below the
  strike budget, the commit node only with a validated ticket, the escalation only with the budget
  used up, and the strike count never exceeds four.
\<close>

theorem visited_nodes_guarded:
  assumes "reachable E (At entry_point s0 w0) (At n s w)" and "fresh s0"
  shows "(n = Executor \<longrightarrow> strikes s < MAX_STRIKES)
    \<and> (n = Oversight_git \<longrightarrow> validated s \<and> strikes s \<le> MAX_STRIKES)
    \<and> (n = Escalate \<longrightarrow> MAX_STRIKES \<le> strikes s)
    \<and> (n \<noteq> Advance \<and> n \<noteq> Dispatch \<longrightarrow> ticket_status s \<noteq> Some DONE \<and> escalations s = 0)
    \<and> (n \<in> {Executor, Validator, Oversight_git, Escalate} \<longrightarrow> strikes s \<le> MAX_STRIKES + 1)"
  using conf_inv_reachable [OF assms] by (cases n) (auto simp: untouched_def)

theorem visited_nodes_guarded_witness:
  "\<exists>s w. reachable mock_env (At entry_point empty_state Map.empty) (At Executor s w)
     \<and> strikes s < MAX_STRIKES \<and> ticket_status s \<noteq> Some DONE \<and> escalations s = 0"
proof -
  obtain s w where r: "reachable mock_env (At entry_point empty_state Map.empty) (At Executor s w)"
    using mock_reaches_executor by blast
  from visited_nodes_guarded [OF r fresh_empty] r show ?thesis by auto
qed

end
