(* ===== verification/Runner.thy ===== *)
theory Runner
  imports Registry Graph
begin

text \<open>
  \<open>server/runner.py\<close>: the initial state of a UI run and \<open>drive_run\<close>, which turns the updates of
  the graph into envelopes. The loop body contains no suspension point between two events of one
  update, so one update is one transition of the record (\<open>on_update\<close>); what the graph streamed and
  how it ended is an argument of \<open>drive_run\<close>, instantiated by \<open>graph_stream\<close> with the run of
  \<open>build_graph\<close>'s model.
\<close>

definition UI_WORKSPACE_ROOT :: str where
  "UI_WORKSPACE_ROOT = lit ''/home/openhands/syndicate-workspace/ui-runs''"

definition build_initial_state :: "str \<Rightarrow> str \<Rightarrow> agent_state" where
  "build_initial_state run_id raw_request =
     empty_state\<lparr>active_ticket := Some
       [(lit ''id'', PStr run_id), (lit ''title'', PStr (take 80 raw_request)),
        (lit ''raw_request'', PStr raw_request),
        (lit ''workspace_dir'', PStr (UI_WORKSPACE_ROOT @ lit ''/'' @ run_id)),
        (lit ''verification_command'', PStr (lit ''python3 -m pytest -q'')),
        (lit ''files_changed'', PList [])]\<rparr>"

section \<open>Derived events\<close>

text \<open>\<open>int(line.split()[0].split('=', 1)[1])\<close> for a line that starts with \<open>strike=\<close>.\<close>

definition strike_of_line :: "str \<Rightarrow> pyval" where
  "strike_of_line line =
     (if is_prefix (lit ''strike='') line then
        (case py_split line of
           [] \<Rightarrow> PNone
         | w # _ \<Rightarrow>
             (case split_first [61] w of
                None \<Rightarrow> PNone
              | Some (_, v) \<Rightarrow> (case py_int v of None \<Rightarrow> PNone | Some n \<Rightarrow> PInt n)))
      else PNone)"

fun attempts_in :: "pyval list \<Rightarrow> dict list" where
  "attempts_in [] = []"
| "attempts_in (PStr line # ls) =
     (if py_in (lit ''fast_check'') line
      then [(lit ''strike'', strike_of_line line), (lit ''fast_check_summary'', PStr line)] # attempts_in ls
      else attempts_in ls)"
| "attempts_in (_ # ls) = attempts_in ls"

definition extract_attempts :: "str \<Rightarrow> dict \<Rightarrow> run_record \<Rightarrow> dict list \<times> run_record" where
  "extract_attempts node delta r =
     (if node \<noteq> lit ''executor'' then ([], r)
      else case dget delta ''attempt_log'' of
             PList alog \<Rightarrow> (attempts_in (drop (rr_last_attempt_log_len r) alog),
                           r\<lparr>rr_last_attempt_log_len := length alog\<rparr>)
           | _ \<Rightarrow> ([], r))"

definition as_int :: "pyval \<Rightarrow> int option" where
  \<comment> \<open>\<open>isinstance(v, int)\<close>, which holds for a bool\<close>
  "as_int v = (case v of PInt n \<Rightarrow> Some n | PBool b \<Rightarrow> Some (if b then 1 else 0) | _ \<Rightarrow> None)"

definition is_escalated :: "pyval \<Rightarrow> bool" where
  \<comment> \<open>\<open>v == TicketStatus.ESCALATED\<close>, a \<open>str\<close> enum\<close>
  "is_escalated v \<longleftrightarrow> v = PTicketStatus ESCALATED \<or> v = PStr (lit ''escalated'')"

definition enum_value :: "pyval \<Rightarrow> pyval" where
  "enum_value v =
     (case v of PTicketStatus s \<Rightarrow> PStr (ticket_status_value s) | PRunStatus s \<Rightarrow> PStr (run_status_value s) | _ \<Rightarrow> v)"

definition extract_escalation :: "dict \<Rightarrow> run_record \<Rightarrow> dict option \<times> run_record" where
  "extract_escalation delta r =
     (let (p1, r1) =
            (case as_int (dget delta ''escalation_count'') of
               Some n \<Rightarrow> if n \<noteq> rr_last_escalation_count r
                        then ([(lit ''escalation_count'', dget delta ''escalation_count'')],
                              r\<lparr>rr_last_escalation_count := n\<rparr>)
                        else ([], r)
             | None \<Rightarrow> ([], r));
          rs = enum_value (dget delta ''run_status'');
          (p2, r2) =
            (if rs \<noteq> PNone \<and> rs \<noteq> rr_last_run_status r1
             then ([(lit ''run_status'', rs)], r1\<lparr>rr_last_run_status := rs\<rparr>)
             else ([], r1));
          p3 = (if is_escalated (dget delta ''ticket_status'')
                then [(lit ''ticket_status'', PStr (ticket_status_value ESCALATED))] else []);
          payload = p1 @ p2 @ p3
      in (if payload = [] then None else Some payload, r2))"

section \<open>drive_run\<close>

type_synonym emitter = "event_kind \<Rightarrow> str option \<Rightarrow> dict \<Rightarrow> run_record \<Rightarrow> run_record"

definition on_start :: "(int \<Rightarrow> bool) \<Rightarrow> (int \<Rightarrow> str) \<Rightarrow> run_record \<Rightarrow> run_record" where
  "on_start P clock r =
     emit_event P clock Run_started None [(lit ''raw_request'', PStr (rr_raw_request r))]
       (r\<lparr>rr_status := Running\<rparr>)"

fun emit_all ::
  "(int \<Rightarrow> bool) \<Rightarrow> (int \<Rightarrow> str) \<Rightarrow> event_kind \<Rightarrow> str \<Rightarrow> dict list \<Rightarrow> run_record \<Rightarrow> run_record" where
  "emit_all P clock kind node [] r = r"
| "emit_all P clock kind node (p # ps) r = emit_all P clock kind node ps (emit_event P clock kind (Some node) p r)"

text \<open>A node that returned \<open>{}\<close> is streamed as \<open>None\<close>.\<close>

definition on_update ::
  "(int \<Rightarrow> bool) \<Rightarrow> (int \<Rightarrow> str) \<Rightarrow> str \<times> pyval \<Rightarrow> run_record \<Rightarrow> run_record" where
  "on_update P clock upd r =
     (let (node, raw_delta) = upd;
          delta = (case raw_delta of PDict d \<Rightarrow> d | _ \<Rightarrow> []);
          r1 = emit_event P clock Node_update (Some node) delta r;
          (attempts, r2) = extract_attempts node delta r1;
          r3 = emit_all P clock Attempt node attempts r2;
          (escalation, r4) = extract_escalation delta r3
      in case escalation of
           None \<Rightarrow> r4
         | Some p \<Rightarrow> emit_event P clock Escalation (Some node) p r4)"

text \<open>The end of the stream: the ticket status of the final state, or the exception raised.\<close>

definition on_end :: "(int \<Rightarrow> bool) \<Rightarrow> (int \<Rightarrow> str) \<Rightarrow> exc + pyval \<Rightarrow> run_record \<Rightarrow> run_record" where
  "on_end P clock fin r =
     (case fin of
        Inr status \<Rightarrow>
          emit_event P clock Run_completed None [(lit ''ticket_status'', enum_value status)]
            (r\<lparr>rr_status := (if is_escalated status then Escalated_state else Completed)\<rparr>)
      | Inl e \<Rightarrow>
          emit_event P clock Run_failed None [(lit ''error'', PStr (exc_message e))]
            (r\<lparr>rr_status := Run_failed_state\<rparr>))"

definition drive_run ::
  "(int \<Rightarrow> bool) \<Rightarrow> (int \<Rightarrow> str) \<Rightarrow> (str \<times> pyval) list \<Rightarrow> exc + pyval \<Rightarrow> run_record \<Rightarrow> run_record" where
  "drive_run P clock updates fin r =
     on_end P clock fin (fold (on_update P clock) updates (on_start P clock r))"

text \<open>What the graph's run is to the runner.\<close>

definition stream_update :: "node_name \<times> delta \<Rightarrow> str \<times> pyval" where
  "stream_update u = (node_label (fst u), if snd u = [] then PNone else PDict (delta_dict (snd u)))"

fun stream_end :: "outcome \<Rightarrow> agent_state \<Rightarrow> exc + pyval" where
  "stream_end Finished s = Inr (case ticket_status s of None \<Rightarrow> PNone | Some t \<Rightarrow> PTicketStatus t)"
| "stream_end (Raised e) s = Inl e"
| "stream_end Out_of_steps s = Inl (ExternalError (lit ''Recursion limit reached''))"

definition RECURSION_LIMIT :: nat where
  \<comment> \<open>LangGraph's default\<close>
  "RECURSION_LIMIT = 25"

definition run_and_drive ::
  "(int \<Rightarrow> bool) \<Rightarrow> (int \<Rightarrow> str) \<Rightarrow> 'w node_env \<Rightarrow> run_record \<Rightarrow> 'w \<Rightarrow> run_record \<times> 'w" where
  "run_and_drive P clock E r w =
     (case run_graph E RECURSION_LIMIT (build_initial_state (rr_run_id r) (rr_raw_request r)) w of
        (us, out, s, w') \<Rightarrow> (drive_run P clock (map stream_update us) (stream_end out s) r, w'))"

section \<open>What the runner keeps of a record\<close>

text \<open>
  \<open>extends n q r\<close>: \<open>q\<close> is \<open>r\<close> after \<open>n\<close> more events; the runner's own bookkeeping and the
  status may differ.
\<close>

definition extends :: "event_kind list \<Rightarrow> run_record \<Rightarrow> run_record \<Rightarrow> bool" where
  "extends ks q r \<longleftrightarrow> rr_run_id q = rr_run_id r \<and> rr_raw_request q = rr_raw_request r
     \<and> rr_seq_counter q = rr_seq_counter r + int (length ks)
     \<and> (seqs_ok r \<longrightarrow> seqs_ok q)
     \<and> map ev_kind (rr_backlog q) = (if ks = [] then map ev_kind (rr_backlog r)
         else last_n BACKLOG_MAXLEN (map ev_kind (rr_backlog r) @ ks))"

lemma last_n_append: "last_n n (last_n n xs @ ys) = last_n n (xs @ ys)"
  by (cases "length xs \<le> n") (auto simp: last_n_def add.commute)

lemma last_n_map: "last_n n (map f xs) = map f (last_n n xs)"
  by (simp add: last_n_def drop_map)

lemma extends_refl: "rr_run_id q = rr_run_id r \<Longrightarrow> rr_raw_request q = rr_raw_request r
    \<Longrightarrow> rr_seq_counter q = rr_seq_counter r \<Longrightarrow> rr_backlog q = rr_backlog r \<Longrightarrow> extends [] q r"
  by (auto simp: extends_def intro: seqs_ok_cong)

lemma extends_trans: "extends ks q r \<Longrightarrow> extends ls p q \<Longrightarrow> extends (ks @ ls) p r"
  by (auto simp: extends_def last_n_append)

lemma extends_emit: "extends [k] (emit_event P ck k nd p r) r"
  by (simp add: extends_def emit_event_fields seqs_ok_emit last_n_map [symmetric])

lemma extends_emit_all: "extends (replicate (length ps) k) (emit_all P ck k nd ps r) r"
proof (induction ps arbitrary: r)
  case Nil
  then show ?case by (simp add: extends_refl)
next
  case (Cons p ps)
  from extends_trans [OF extends_emit Cons.IH] show ?case by simp
qed

lemma extract_attempts_record: "extract_attempts nd d r = (as, q) \<Longrightarrow> extends [] q r"
  by (auto simp: extract_attempts_def intro!: extends_refl split: if_splits pyval.splits)

lemma extract_escalation_record: "extract_escalation d r = (p, q) \<Longrightarrow> extends [] q r"
  by (auto simp: extract_escalation_def Let_def intro!: extends_refl split: if_splits option.splits)

text \<open>One update: its \<open>node_update\<close>, then the attempts, then at most one escalation.\<close>

lemma on_update_extends:
  obtains n m where "m \<le> 1"
    and "extends (Node_update # replicate n Attempt @ replicate m Escalation) (on_update P ck u r) r"
proof -
  obtain nd raw where u: "u = (nd, raw)" by (cases u)
  define delta where "delta = (case raw of PDict d \<Rightarrow> d | _ \<Rightarrow> [])"
  define r1 where "r1 = emit_event P ck Node_update (Some nd) delta r"
  obtain as r2 where a: "extract_attempts nd delta r1 = (as, r2)" by fastforce
  define r3 where "r3 = emit_all P ck Attempt nd as r2"
  obtain esc r4 where e: "extract_escalation delta r3 = (esc, r4)" by fastforce
  have r4: "extends (Node_update # replicate (length as) Attempt) r4 r"
    using extends_trans [OF extends_trans [OF extends_trans
        [OF extends_emit [of Node_update P ck "Some nd" delta r]
          extract_attempts_record [OF a [unfolded r1_def]]] extends_emit_all [of as Attempt P ck nd r2]]
        extract_escalation_record [OF e [unfolded r3_def]]]
    by simp
  have upd: "on_update P ck u r = (case esc of None \<Rightarrow> r4 | Some p \<Rightarrow> emit_event P ck Escalation (Some nd) p r4)"
    using a e by (simp add: on_update_def u Let_def delta_def [symmetric] r1_def [symmetric] r3_def [symmetric])
  show thesis
  proof (cases esc)
    case None
    with upd r4 show thesis by (intro that [of 0 "length as"]) simp_all
  next
    case (Some p)
    with upd extends_trans [OF r4 extends_emit [of Escalation P ck "Some nd" p r4]]
    show thesis by (intro that [of 1 "length as"]) simp_all
  qed
qed

text \<open>A run of the loop: the kinds of the events, in order.\<close>

definition update_kinds :: "event_kind list \<Rightarrow> bool" where
  "update_kinds ks \<longleftrightarrow> set ks \<subseteq> {Node_update, Attempt, Escalation}"

lemma updates_extend:
  obtains ks where "update_kinds ks" and "length us \<le> length (filter (\<lambda>k. k = Node_update) ks)"
    and "extends ks (fold (on_update P ck) us r) r"
proof -
  have "\<exists>ks. update_kinds ks \<and> length us \<le> length (filter (\<lambda>k. k = Node_update) ks)
      \<and> extends ks (fold (on_update P ck) us r) r"
  proof (induction us arbitrary: r)
    case Nil
    show ?case by (rule exI [of _ "[]"]) (simp add: extends_refl update_kinds_def)
  next
    case (Cons u us)
    obtain n m where m: "m \<le> 1"
      and e: "extends (Node_update # replicate n Attempt @ replicate m Escalation) (on_update P ck u r) r"
      by (rule on_update_extends)
    from Cons.IH obtain ks where ks: "update_kinds ks" "length us \<le> length (filter (\<lambda>k. k = Node_update) ks)"
      "extends ks (fold (on_update P ck) us (on_update P ck u r)) (on_update P ck u r)" by blast
    let ?ks = "(Node_update # replicate n Attempt @ replicate m Escalation) @ ks"
    have "extends ?ks (fold (on_update P ck) (u # us) r) r"
      using extends_trans [OF e ks(3)] by simp
    moreover have "update_kinds ?ks" using ks(1) by (auto simp: update_kinds_def)
    moreover have "length (u # us) \<le> length (filter (\<lambda>k. k = Node_update) ?ks)" using ks(2) by simp
    ultimately show ?case by blast
  qed
  with that show thesis by blast
qed

lemma on_start_extends: "extends [Run_started] (on_start P ck r) r"
proof -
  have "extends [Run_started] (on_start P ck r) (r\<lparr>rr_status := Running\<rparr>)"
    unfolding on_start_def by (rule extends_emit)
  with extends_trans [OF extends_refl [of "r\<lparr>rr_status := Running\<rparr>" r]] show ?thesis by fastforce
qed

definition end_kind :: "exc + pyval \<Rightarrow> event_kind" where
  "end_kind fin = (case fin of Inl e \<Rightarrow> Run_failed | Inr s \<Rightarrow> Run_completed)"

definition end_state :: "exc + pyval \<Rightarrow> run_state" where
  "end_state fin = (case fin of Inl e \<Rightarrow> Run_failed_state
     | Inr s \<Rightarrow> if is_escalated s then Escalated_state else Completed)"

lemma on_end_extends:
  "extends [end_kind fin] (on_end P ck fin r) r" "rr_status (on_end P ck fin r) = end_state fin"
proof -
  have e: "extends [k] (emit_event P ck k nd p (r\<lparr>rr_status := s\<rparr>)) r" for k nd p s
    using extends_trans [OF extends_refl [of "r\<lparr>rr_status := s\<rparr>" r] extends_emit] by simp
  show "extends [end_kind fin] (on_end P ck fin r) r"
    by (cases fin) (simp_all add: on_end_def end_kind_def e)
  show "rr_status (on_end P ck fin r) = end_state fin"
    by (cases fin) (simp_all add: on_end_def end_state_def emit_event_fields)
qed

lemma drive_run_extends:
  obtains ks where "update_kinds ks" and "length us \<le> length (filter (\<lambda>k. k = Node_update) ks)"
    and "extends (Run_started # ks @ [end_kind fin]) (drive_run P ck us fin r) r"
proof -
  obtain ks where "update_kinds ks" "length us \<le> length (filter (\<lambda>k. k = Node_update) ks)"
    and e: "extends ks (fold (on_update P ck) us (on_start P ck r)) (on_start P ck r)"
    by (rule updates_extend)
  from extends_trans [OF extends_trans [OF on_start_extends e] on_end_extends(1)]
  have "extends (Run_started # ks @ [end_kind fin]) (drive_run P ck us fin r) r"
    by (simp add: drive_run_def)
  with that \<open>update_kinds ks\<close> \<open>length us \<le> _\<close> show thesis by blast
qed

section \<open>Properties\<close>

text \<open>
  C22: the events of a run have the shape the UI relies on. A run that is driven on a new record emits
  \<open>run_started\<close> first, then for every update of the graph at least its \<open>node_update\<close> and nothing
  but updates, attempts and escalations, and last exactly one terminal event, which is \<open>run_failed\<close>
  exactly when the graph raised; the status of the record says the same.
\<close>

theorem run_event_shape:
  assumes "rr_seq_counter r = 0" and "rr_backlog r = []"
  shows "\<exists>ks. set ks \<subseteq> {Node_update, Attempt, Escalation}
    \<and> length updates \<le> length (filter (\<lambda>k. k = Node_update) ks)
    \<and> rr_seq_counter (drive_run P clock updates fin r) = int (length ks) + 2
    \<and> map ev_kind (rr_backlog (drive_run P clock updates fin r))
        = last_n BACKLOG_MAXLEN (Run_started # ks @ [case fin of Inl e \<Rightarrow> Run_failed | Inr s \<Rightarrow> Run_completed])
    \<and> rr_status (drive_run P clock updates fin r)
        = (case fin of Inl e \<Rightarrow> Run_failed_state
           | Inr s \<Rightarrow> if is_escalated s then Escalated_state else Completed)"
proof -
  obtain ks where ks: "update_kinds ks" "length updates \<le> length (filter (\<lambda>k. k = Node_update) ks)"
    and e: "extends (Run_started # ks @ [end_kind fin]) (drive_run P clock updates fin r) r"
    by (rule drive_run_extends)
  have "rr_status (drive_run P clock updates fin r) = end_state fin"
    by (simp add: drive_run_def on_end_extends(2))
  with ks e assms show ?thesis
    by (intro exI [of _ ks]) (simp add: extends_def update_kinds_def end_kind_def end_state_def)
qed

theorem run_event_shape_witness:
  "rr_status (drive_run (\<lambda>_. True) (\<lambda>_. []) [] (Inr (PTicketStatus ESCALATED)) (new_record [] [] [])) = Escalated_state"
  using run_event_shape [of "new_record [] [] []" "[]" "\<lambda>_. True" "\<lambda>_. []" "Inr (PTicketStatus ESCALATED)"]
  by (auto simp: new_record_def is_escalated_def)

text \<open>
  C31: the envelopes of a run are numbered without gaps. In the backlog of a driven record the
  sequence numbers are consecutive and end at the counter, and nothing is missing unless the run
  emitted more than the 2000 events the backlog holds.
\<close>

theorem run_events_numbered:
  assumes "r = new_record now run_id raw_request"
  shows "let q = drive_run P clock updates fin r; n = length (rr_backlog q)
    in int n = min (rr_seq_counter q) 2000
       \<and> map ev_seq (rr_backlog q) = map (\<lambda>k. rr_seq_counter q - int n + int k + 1) [0..<n]
       \<and> (\<forall>e \<in> set (rr_backlog q). ev_run_id e = run_id)"
proof -
  obtain ks where e: "extends (Run_started # ks @ [end_kind fin]) (drive_run P clock updates fin r) r"
    by (rule drive_run_extends)
  have "rr_run_id r = run_id" "seqs_ok r" unfolding assms by (simp add: new_record_def, rule seqs_ok_new)
  with e have "seqs_ok (drive_run P clock updates fin r)" "rr_run_id (drive_run P clock updates fin r) = run_id"
    by (simp_all add: extends_def)
  then show ?thesis by (simp add: seqs_ok_def Let_def BACKLOG_MAXLEN_def)
qed

theorem run_events_numbered_witness:
  "let q = drive_run (\<lambda>_. True) (\<lambda>_. []) [] (Inl (ExternalError [])) (new_record [] [114] []);
       n = length (rr_backlog q)
    in int n = min (rr_seq_counter q) 2000 \<and> (\<forall>e \<in> set (rr_backlog q). ev_run_id e = [114])"
  using run_events_numbered [OF refl, of "\<lambda>_. True" "\<lambda>_. []" "[]" "Inl (ExternalError [])" "[]" "[114]" "[]"]
  by (simp add: Let_def)

end
