(* ===== verification/Event_Stream.thy ===== *)
theory Event_Stream
  imports Registry
begin

text \<open>
  \<open>event_source\<close> of \<open>server/app.py\<close>: the generator behind \<open>GET /runs/{run_id}/stream\<close>, as a state
  machine. A generator runs from one suspension point to the next; the suspension points are the
  \<open>yield\<close> of a frame and the wait for the record's \<open>new_event\<close>. \<open>hub_step\<close> interleaves the
  run's task, which emits events, with any number of viewers that are resumed or time out in any
  order. \<open>viewer_ok\<close> is the invariant of a viewer: what it has sent is exactly the part of the
  backlog between its start and its cursor, in order, as long as the backlog has not overflowed.
\<close>

section \<open>The generator\<close>

datatype frame = Data envelope | Beat

definition HEARTBEAT_FRAME :: str where
  "HEARTBEAT_FRAME = lit '': heartbeat'' @ [10, 10]"

fun frame_text :: "(int \<Rightarrow> bool) \<Rightarrow> frame \<Rightarrow> str" where
  "frame_text P (Data e) = format_sse P e"
| "frame_text P Beat = HEARTBEAT_FRAME"

datatype phase = Ready | Sending "envelope list" | Waiting | Closed

record viewer =
  vw_after :: int
  vw_phase :: phase
  vw_last_sent :: int
  vw_frames :: "frame list"

definition connect :: "int \<Rightarrow> viewer" where
  "connect after = \<lparr>vw_after = after, vw_phase = Ready, vw_last_sent = after, vw_frames = []\<rparr>"

definition is_terminal :: "envelope \<Rightarrow> bool" where
  "is_terminal e \<longleftrightarrow> ev_kind e = Run_completed \<or> ev_kind e = Run_failed"

definition pending :: "viewer \<Rightarrow> run_record \<Rightarrow> envelope list" where
  "pending v r = filter (\<lambda>e. vw_last_sent v < ev_seq e) (rr_backlog r)"

text \<open>The \<open>for\<close> loop up to its next yield, or \<open>new_event.clear()\<close> and the wait behind it.\<close>

fun deliver :: "envelope list \<Rightarrow> viewer \<Rightarrow> run_record \<Rightarrow> viewer \<times> run_record" where
  "deliver [] v r = (v\<lparr>vw_phase := Waiting\<rparr>, r\<lparr>rr_new_event := False\<rparr>)"
| "deliver (e # es) v r =
     (v\<lparr>vw_frames := vw_frames v @ [Data e], vw_last_sent := ev_seq e,
        vw_phase := (if is_terminal e then Closed else Sending es)\<rparr>, r)"

definition resume :: "viewer \<Rightarrow> run_record \<Rightarrow> viewer \<times> run_record" where
  "resume v r =
     (case vw_phase v of
        Ready \<Rightarrow> deliver (pending v r) v r
      | Sending es \<Rightarrow> deliver es v r
      | Waiting \<Rightarrow> (v, r)
      | Closed \<Rightarrow> (v, r))"

definition time_out :: "viewer \<Rightarrow> viewer" where
  "time_out v =
     (if vw_phase v = Waiting then v\<lparr>vw_frames := vw_frames v @ [Beat], vw_phase := Ready\<rparr> else v)"

definition wake :: "viewer \<Rightarrow> viewer" where
  "wake v = (if vw_phase v = Waiting then v\<lparr>vw_phase := Ready\<rparr> else v)"

section \<open>A run's task and its viewers\<close>

record hub =
  hb_record :: run_record
  hb_viewers :: "viewer list"

datatype hub_action =
    Produce event_kind "str option" dict
  | Connect int
  | Resume nat
  | Time_out nat

fun hub_step :: "(int \<Rightarrow> bool) \<Rightarrow> (int \<Rightarrow> str) \<Rightarrow> hub_action \<Rightarrow> hub \<Rightarrow> hub" where
  "hub_step P clock (Produce k nd p) h =
     \<lparr>hb_record = emit_event P clock k nd p (hb_record h), hb_viewers = map wake (hb_viewers h)\<rparr>"
| "hub_step P clock (Connect after) h = h\<lparr>hb_viewers := hb_viewers h @ [connect after]\<rparr>"
| "hub_step P clock (Resume i) h =
     (if i < length (hb_viewers h)
      then (let (v, r) = resume (hb_viewers h ! i) (hb_record h)
            in \<lparr>hb_record = r, hb_viewers = (hb_viewers h)[i := v]\<rparr>)
      else h)"
| "hub_step P clock (Time_out i) h =
     (if i < length (hb_viewers h)
      then h\<lparr>hb_viewers := (hb_viewers h)[i := time_out (hb_viewers h ! i)]\<rparr> else h)"

definition hub_run :: "(int \<Rightarrow> bool) \<Rightarrow> (int \<Rightarrow> str) \<Rightarrow> hub_action list \<Rightarrow> hub \<Rightarrow> hub" where
  "hub_run P clock acts h = fold (hub_step P clock) acts h"

section \<open>The invariant of a viewer\<close>

fun data_of :: "frame list \<Rightarrow> envelope list" where
  "data_of [] = []"
| "data_of (Data e # fs) = e # data_of fs"
| "data_of (Beat # fs) = data_of fs"

lemma data_of_append [simp]: "data_of (fs @ gs) = data_of fs @ data_of gs"
  by (induction fs rule: data_of.induct) simp_all

lemma data_of_map_Data [simp]: "data_of (map Data es) = es"
  by (induction es) simp_all

definition increasing :: "envelope list \<Rightarrow> bool" where
  "increasing es \<longleftrightarrow> sorted_wrt (<) (map ev_seq es)"

definition between :: "int \<Rightarrow> int \<Rightarrow> run_record \<Rightarrow> envelope list" where
  "between lo hi r = filter (\<lambda>e. lo < ev_seq e \<and> ev_seq e \<le> hi) (rr_backlog r)"

definition viewer_ok :: "run_record \<Rightarrow> viewer \<Rightarrow> bool" where
  "viewer_ok r v \<longleftrightarrow>
     vw_after v \<le> vw_last_sent v
     \<and> (vw_last_sent v = vw_after v \<or> vw_last_sent v \<le> rr_seq_counter r)
     \<and> increasing (data_of (vw_frames v))
     \<and> (\<forall>e \<in> set (data_of (vw_frames v)). vw_after v < ev_seq e \<and> ev_seq e \<le> vw_last_sent v)
     \<and> (\<forall>es. vw_phase v = Sending es \<longrightarrow> increasing es
          \<and> (\<forall>e \<in> set es. vw_last_sent v < ev_seq e \<and> ev_seq e \<le> rr_seq_counter r))
     \<and> (vw_phase v = Closed \<longleftrightarrow> (\<exists>es e. data_of (vw_frames v) = es @ [e] \<and> is_terminal e))
     \<and> (rr_seq_counter r \<le> int BACKLOG_MAXLEN \<longrightarrow>
          data_of (vw_frames v) = between (vw_after v) (vw_last_sent v) r
          \<and> (\<forall>es. vw_phase v = Sending es \<longrightarrow> (\<exists>hi \<le> rr_seq_counter r. es = between (vw_last_sent v) hi r)))"

lemma backlog_increasing: "seqs_ok r \<Longrightarrow> increasing (rr_backlog r)"
  by (simp add: seqs_ok_def increasing_def sorted_wrt_iff_nth_less)

lemma backlog_seqs: "seqs_ok r \<Longrightarrow> e \<in> set (rr_backlog r) \<Longrightarrow> 0 < ev_seq e \<and> ev_seq e \<le> rr_seq_counter r"
proof -
  assume ok: "seqs_ok r" and "e \<in> set (rr_backlog r)"
  then have "ev_seq e \<in> set (map ev_seq (rr_backlog r))" by simp
  with ok show ?thesis by (auto simp: seqs_ok_def)
qed

lemma increasing_filter: "increasing es \<Longrightarrow> increasing (filter Q es)"
  unfolding increasing_def by (induction es) auto

lemma increasing_append:
  "increasing (es @ fs) \<longleftrightarrow> increasing es \<and> increasing fs \<and> (\<forall>e \<in> set es. \<forall>f \<in> set fs. ev_seq e < ev_seq f)"
  by (auto simp: increasing_def sorted_wrt_append)

lemma increasing_Cons: "increasing (e # es) \<longleftrightarrow> (\<forall>f \<in> set es. ev_seq e < ev_seq f) \<and> increasing es"
  by (simp add: increasing_def)

text \<open>In an increasing list the elements up to the first one beyond the cursor are that one.\<close>

lemma filter_split_first:
  assumes "increasing xs" and "filter (\<lambda>e. lo < ev_seq e \<and> ev_seq e \<le> hi) xs = e # es"
  shows "filter (\<lambda>x. lo < ev_seq x \<and> ev_seq x \<le> ev_seq e) xs = [e]"
    and "filter (\<lambda>x. ev_seq e < ev_seq x \<and> ev_seq x \<le> hi) xs = es"
    and "filter (\<lambda>x. a < ev_seq x \<and> ev_seq x \<le> ev_seq e) xs
       = filter (\<lambda>x. a < ev_seq x \<and> ev_seq x \<le> lo) xs @ filter (\<lambda>x. a < ev_seq x \<and> ev_seq x \<le> ev_seq e \<and> lo < ev_seq x) xs"
proof -
  have "e \<in> set (filter (\<lambda>e. lo < ev_seq e \<and> ev_seq e \<le> hi) xs)" unfolding assms(2) by simp
  then have e: "lo < ev_seq e" "ev_seq e \<le> hi" by auto
  have inc: "increasing (e # es)" using increasing_filter [OF assms(1)] assms(2) by metis
  have "filter (\<lambda>x. lo < ev_seq x \<and> ev_seq x \<le> ev_seq e) xs
      = filter (\<lambda>x. ev_seq x \<le> ev_seq e) (filter (\<lambda>e. lo < ev_seq e \<and> ev_seq e \<le> hi) xs)"
    unfolding filter_filter by (rule filter_cong) (use e in auto)
  also have "\<dots> = [e]" unfolding assms(2) using inc by (auto simp: increasing_Cons filter_empty_conv)
  finally show "filter (\<lambda>x. lo < ev_seq x \<and> ev_seq x \<le> ev_seq e) xs = [e]" .
  have "filter (\<lambda>x. ev_seq e < ev_seq x \<and> ev_seq x \<le> hi) xs
      = filter (\<lambda>x. ev_seq e < ev_seq x) (filter (\<lambda>e. lo < ev_seq e \<and> ev_seq e \<le> hi) xs)"
    unfolding filter_filter by (rule filter_cong) (use e in auto)
  also have "\<dots> = es" unfolding assms(2) using inc by (auto simp: increasing_Cons filter_id_conv)
  finally show "filter (\<lambda>x. ev_seq e < ev_seq x \<and> ev_seq x \<le> hi) xs = es" .
  show "filter (\<lambda>x. a < ev_seq x \<and> ev_seq x \<le> ev_seq e) xs
       = filter (\<lambda>x. a < ev_seq x \<and> ev_seq x \<le> lo) xs @ filter (\<lambda>x. a < ev_seq x \<and> ev_seq x \<le> ev_seq e \<and> lo < ev_seq x) xs"
    using assms(1) e
  proof (induction xs)
    case (Cons x xs)
    show ?case
    proof (cases "ev_seq x \<le> lo")
      case False
      with Cons.prems(1) have "filter (\<lambda>x. a < ev_seq x \<and> ev_seq x \<le> lo) xs = []"
        by (fastforce simp: increasing_Cons filter_empty_conv)
      with False Cons show ?thesis by (auto simp: increasing_Cons)
    qed (use Cons in \<open>auto simp: increasing_Cons\<close>)
  qed simp
qed

section \<open>Every step keeps the invariant\<close>

lemma connect_ok: "viewer_ok r (connect after)"
  by (auto simp: viewer_ok_def connect_def increasing_def between_def filter_empty_conv)

lemma wake_ok: "viewer_ok r v \<Longrightarrow> viewer_ok r (wake v)"
  by (auto simp: viewer_ok_def wake_def)

lemma time_out_ok: "viewer_ok r v \<Longrightarrow> viewer_ok r (time_out v)"
  by (auto simp: viewer_ok_def time_out_def)

lemma viewer_ok_clear: "viewer_ok (r\<lparr>rr_new_event := b\<rparr>) v = viewer_ok r v"
  by (simp add: viewer_ok_def between_def)

lemma last_n_no_overflow: "length xs < n \<Longrightarrow> last_n n (xs @ [x]) = xs @ [x]"
  by (simp add: last_n_def)

lemma between_emit:
  assumes "seqs_ok r" and "rr_seq_counter r < int BACKLOG_MAXLEN" and "hi \<le> rr_seq_counter r \<or> hi \<le> lo"
  shows "between lo hi (emit_event P ck k nd p r) = between lo hi r"
proof -
  have "length (rr_backlog r) < BACKLOG_MAXLEN" using assms(1,2) by (auto simp: seqs_ok_def)
  with assms(3) show ?thesis by (auto simp: between_def emit_event_fields last_n_no_overflow)
qed

lemma emit_ok:
  assumes "seqs_ok r" and "viewer_ok r v"
  shows "viewer_ok (emit_event P ck k nd p r) v"
proof -
  let ?r = "emit_event P ck k nd p r"
  have c: "rr_seq_counter ?r = rr_seq_counter r + 1" by (simp add: emit_event_fields)
  have b: "between (vw_after v) (vw_last_sent v) ?r = between (vw_after v) (vw_last_sent v) r"
    "hi \<le> rr_seq_counter r \<Longrightarrow> between (vw_last_sent v) hi ?r = between (vw_last_sent v) hi r"
    if "rr_seq_counter ?r \<le> int BACKLOG_MAXLEN" for hi
    using that assms c by (auto intro!: between_emit simp: viewer_ok_def)
  have s: "\<exists>hi \<le> rr_seq_counter ?r. es = between (vw_last_sent v) hi ?r"
    if "rr_seq_counter ?r \<le> int BACKLOG_MAXLEN" and "vw_phase v = Sending es" for es
  proof -
    from assms(2) that c obtain hi where "hi \<le> rr_seq_counter r" "es = between (vw_last_sent v) hi r"
      by (auto simp: viewer_ok_def)
    with b(2) [OF that(1)] c show ?thesis by (intro exI [of _ hi]) auto
  qed
  from assms(2) c b(1) s show ?thesis unfolding viewer_ok_def by (auto 0 3)
qed

text \<open>Delivering from a list that continues the cursor.\<close>

lemma deliver_ok:
  assumes ok: "seqs_ok r" and v: "viewer_ok r v" and opn: "vw_phase v \<noteq> Closed"
    and inc: "increasing es"
    and gt: "\<And>e. e \<in> set es \<Longrightarrow> vw_last_sent v < ev_seq e \<and> ev_seq e \<le> rr_seq_counter r"
    and bt: "rr_seq_counter r \<le> int BACKLOG_MAXLEN \<Longrightarrow> \<exists>hi \<le> rr_seq_counter r. es = between (vw_last_sent v) hi r"
  shows "viewer_ok r (fst (deliver es v r))"
proof (cases es)
  case Nil
  with v opn show ?thesis by (auto simp: viewer_ok_def)
next
  case (Cons e es')
  let ?v = "fst (deliver es v r)"
  have f: "vw_after ?v = vw_after v" "vw_last_sent ?v = ev_seq e"
    "data_of (vw_frames ?v) = data_of (vw_frames v) @ [e]"
    "vw_phase ?v = (if is_terminal e then Closed else Sending es')"
    using Cons by simp_all
  have e: "vw_last_sent v < ev_seq e" "ev_seq e \<le> rr_seq_counter r" using gt Cons by auto
  have i': "increasing es'" "\<forall>f \<in> set es'. ev_seq e < ev_seq f" using inc Cons by (auto simp: increasing_Cons)
  have d: "data_of (vw_frames v) @ [e] = between (vw_after v) (ev_seq e) r
      \<and> (\<exists>hi \<le> rr_seq_counter r. es' = between (ev_seq e) hi r)"
    if m: "rr_seq_counter r \<le> int BACKLOG_MAXLEN"
  proof -
    from bt [OF m] Cons obtain hi where hi: "hi \<le> rr_seq_counter r" "between (vw_last_sent v) hi r = e # es'"
      by auto
    note sp = filter_split_first [OF backlog_increasing [OF ok] hi(2) [unfolded between_def]]
    have "filter (\<lambda>x. vw_after v < ev_seq x \<and> ev_seq x \<le> ev_seq e \<and> vw_last_sent v < ev_seq x) (rr_backlog r)
        = filter (\<lambda>x. vw_last_sent v < ev_seq x \<and> ev_seq x \<le> ev_seq e) (rr_backlog r)"
      using v by (intro filter_cong) (auto simp: viewer_ok_def)
    with sp(1) sp(3) [of "vw_after v"]
    have "between (vw_after v) (ev_seq e) r = between (vw_after v) (vw_last_sent v) r @ [e]"
      by (simp add: between_def)
    moreover have "data_of (vw_frames v) = between (vw_after v) (vw_last_sent v) r"
      using v m by (simp add: viewer_ok_def)
    ultimately show ?thesis using sp(2) hi(1) by (auto simp: between_def)
  qed
  have "increasing (data_of (vw_frames ?v))"
    unfolding f increasing_append using v e by (auto simp: viewer_ok_def increasing_def)
  have low: "vw_after v \<le> vw_last_sent v"
    and sent: "\<forall>x \<in> set (data_of (vw_frames v)). vw_after v < ev_seq x \<and> ev_seq x \<le> vw_last_sent v"
    using v by (simp_all add: viewer_ok_def)
  show ?thesis
    unfolding viewer_ok_def
  proof (intro conjI)
    show "increasing (data_of (vw_frames ?v))" by fact
    show "vw_after ?v \<le> vw_last_sent ?v" using low e unfolding f by linarith
    show "vw_last_sent ?v = vw_after ?v \<or> vw_last_sent ?v \<le> rr_seq_counter r" using e unfolding f by simp
    show "\<forall>x \<in> set (data_of (vw_frames ?v)). vw_after ?v < ev_seq x \<and> ev_seq x \<le> vw_last_sent ?v"
      using sent low e unfolding f by fastforce
    show "\<forall>fs. vw_phase ?v = Sending fs \<longrightarrow> increasing fs
        \<and> (\<forall>x \<in> set fs. vw_last_sent ?v < ev_seq x \<and> ev_seq x \<le> rr_seq_counter r)"
      unfolding f using i' gt Cons by auto
    show "vw_phase ?v = Closed \<longleftrightarrow> (\<exists>fs x. data_of (vw_frames ?v) = fs @ [x] \<and> is_terminal x)"
      unfolding f by auto
    show "rr_seq_counter r \<le> int BACKLOG_MAXLEN \<longrightarrow>
        data_of (vw_frames ?v) = between (vw_after ?v) (vw_last_sent ?v) r
        \<and> (\<forall>fs. vw_phase ?v = Sending fs \<longrightarrow> (\<exists>hi \<le> rr_seq_counter r. fs = between (vw_last_sent ?v) hi r))"
      unfolding f using d by auto
  qed
qed

lemma resume_ok:
  assumes ok: "seqs_ok r" and v: "viewer_ok r v"
  shows "viewer_ok (snd (resume v r)) (fst (resume v r))"
proof -
  have clear: "viewer_ok (snd (deliver es v r)) u = viewer_ok r u" for es u
    by (cases es) (simp_all add: viewer_ok_clear)
  show ?thesis
  proof (cases "vw_phase v")
    case Ready
    have "viewer_ok r (fst (deliver (pending v r) v r))"
    proof (rule deliver_ok [OF ok v])
      show "vw_phase v \<noteq> Closed" using Ready by simp
      show "increasing (pending v r)"
        unfolding pending_def by (rule increasing_filter [OF backlog_increasing [OF ok]])
      show "vw_last_sent v < ev_seq e \<and> ev_seq e \<le> rr_seq_counter r" if "e \<in> set (pending v r)" for e
        using that backlog_seqs [OF ok, of e] by (simp add: pending_def)
      show "\<exists>hi \<le> rr_seq_counter r. pending v r = between (vw_last_sent v) hi r"
        using backlog_seqs [OF ok]
        by (intro exI [of _ "rr_seq_counter r"]) (auto simp: pending_def between_def intro: filter_cong)
    qed
    with Ready clear show ?thesis by (simp add: resume_def)
  next
    case (Sending es)
    have "viewer_ok r (fst (deliver es v r))"
      using v Sending by (intro deliver_ok [OF ok v]) (auto simp: viewer_ok_def)
    with Sending clear show ?thesis by (simp add: resume_def)
  qed (use v in \<open>simp_all add: resume_def\<close>)
qed

definition hub_ok :: "hub \<Rightarrow> bool" where
  "hub_ok h \<longleftrightarrow> seqs_ok (hb_record h) \<and> (\<forall>v \<in> set (hb_viewers h). viewer_ok (hb_record h) v)"

lemma resume_record: "snd (resume v r) = r \<or> snd (resume v r) = r\<lparr>rr_new_event := False\<rparr>"
proof -
  have "snd (deliver es v r) = r \<or> snd (deliver es v r) = r\<lparr>rr_new_event := False\<rparr>" for es
    by (cases es) simp_all
  then show ?thesis by (cases "vw_phase v") (simp_all add: resume_def)
qed

lemma hub_step_ok: "hub_ok h \<Longrightarrow> hub_ok (hub_step P ck a h)"
proof (cases a)
  case (Resume i)
  assume h: "hub_ok h"
  show ?thesis
  proof (cases "i < length (hb_viewers h)")
    case True
    obtain v r where vr: "resume (hb_viewers h ! i) (hb_record h) = (v, r)" by fastforce
    with h True resume_ok [of "hb_record h" "hb_viewers h ! i"] have v: "viewer_ok r v"
      by (auto simp: hub_ok_def)
    have r: "r = hb_record h \<or> r = hb_record h\<lparr>rr_new_event := False\<rparr>"
      using resume_record [of "hb_viewers h ! i" "hb_record h"] vr by simp
    then have "seqs_ok r" "\<forall>u \<in> set (hb_viewers h). viewer_ok r u"
      using h by (auto simp: hub_ok_def viewer_ok_clear intro: seqs_ok_cong)
    with v vr True Resume show ?thesis
      by (auto simp: hub_ok_def dest: set_update_subset_insert [THEN subsetD])
  qed (use h Resume in simp)
qed (auto simp: hub_ok_def seqs_ok_emit emit_ok wake_ok connect_ok time_out_ok
       dest!: set_update_subset_insert [THEN subsetD])

lemma hub_run_ok: "hub_ok h \<Longrightarrow> hub_ok (hub_run P ck acts h)"
  unfolding hub_run_def by (induction acts arbitrary: h) (simp_all add: hub_step_ok)

section \<open>Catching up\<close>

text \<open>
  What a generator sends when it is resumed again and again: its pending events up to the first
  terminal one. An event emitted while a viewer is between its scan and its wait is found by the
  scan after the heartbeat, because the generator scans the backlog and not a queue.
\<close>

fun resumes :: "nat \<Rightarrow> viewer \<Rightarrow> run_record \<Rightarrow> viewer \<times> run_record" where
  "resumes 0 v r = (v, r)"
| "resumes (Suc n) v r = (case resume v r of (v', r') \<Rightarrow> resumes n v' r')"

fun upto_terminal :: "envelope list \<Rightarrow> envelope list" where
  "upto_terminal [] = []"
| "upto_terminal (e # es) = (if is_terminal e then [e] else e # upto_terminal es)"

lemma resumes_Closed: "vw_phase v = Closed \<Longrightarrow> resumes n v r = (v, r)"
  by (induction n) (simp_all add: resume_def)

lemma resumes_Waiting: "vw_phase v = Waiting \<Longrightarrow> resumes n v r = (v, r)"
  by (induction n) (simp_all add: resume_def)

lemma resumes_Sending:
  assumes "vw_phase v = Sending es"
  shows "vw_frames (fst (resumes (Suc (length es)) v r)) = vw_frames v @ map Data (upto_terminal es)
    \<and> vw_phase (fst (resumes (Suc (length es)) v r)) = (if list_ex is_terminal es then Closed else Waiting)"
  using assms
proof (induction es arbitrary: v)
  case Nil
  then show ?case by (simp add: resume_def)
next
  case (Cons e es)
  show ?case
  proof (cases "is_terminal e")
    case True
    let ?v = "v\<lparr>vw_frames := vw_frames v @ [Data e], vw_last_sent := ev_seq e, vw_phase := Closed\<rparr>"
    have "resumes (Suc (length (e # es))) v r = resumes (length (e # es)) ?v r"
      using Cons.prems True by (subst resumes.simps(2)) (simp add: resume_def)
    with True resumes_Closed [of ?v] show ?thesis by simp
  next
    case False
    let ?v = "v\<lparr>vw_frames := vw_frames v @ [Data e], vw_last_sent := ev_seq e, vw_phase := Sending es\<rparr>"
    have "resumes (Suc (length (e # es))) v r = resumes (Suc (length es)) ?v r"
      using Cons.prems False by (subst resumes.simps(2)) (simp add: resume_def)
    with Cons.IH [of ?v] False show ?thesis by simp
  qed
qed

lemma resumes_Ready:
  assumes "vw_phase v = Ready"
  shows "vw_frames (fst (resumes (Suc (length (pending v r))) v r)) = vw_frames v @ map Data (upto_terminal (pending v r))
    \<and> vw_phase (fst (resumes (Suc (length (pending v r))) v r))
        = (if list_ex is_terminal (pending v r) then Closed else Waiting)"
proof -
  let ?u = "v\<lparr>vw_phase := Sending (pending v r)\<rparr>"
  have "deliver (pending v r) ?u r = deliver (pending v r) v r" by (cases "pending v r") simp_all
  then have "resume ?u r = resume v r" using assms by (simp add: resume_def)
  then have "resumes (Suc (length (pending v r))) v r = resumes (Suc (length (pending v r))) ?u r" by simp
  with resumes_Sending [of ?u "pending v r" r] show ?thesis by simp
qed

section \<open>Properties\<close>

text \<open>
  C12: every viewer of a run sees its events once and in order. However the run's task and any number
  of viewers interleave, the sequence numbers a viewer has been sent strictly increase and lie
  beyond where it connected; and as long as the backlog has not overflowed they are exactly the
  events of the backlog up to its cursor, with no gap. Its stream ends only with a terminal event.
\<close>

theorem viewers_see_every_event_once:
  assumes "v \<in> set (hb_viewers (hub_run P clock actions \<lparr>hb_record = new_record now run_id raw_request, hb_viewers = []\<rparr>))"
  shows "let r = hb_record (hub_run P clock actions \<lparr>hb_record = new_record now run_id raw_request, hb_viewers = []\<rparr>)
    in sorted_wrt (<) (map ev_seq (data_of (vw_frames v)))
       \<and> (\<forall>e \<in> set (data_of (vw_frames v)). vw_after v < ev_seq e)
       \<and> (rr_seq_counter r \<le> 2000 \<longrightarrow>
            data_of (vw_frames v)
              = filter (\<lambda>e. vw_after v < ev_seq e \<and> ev_seq e \<le> vw_last_sent v) (rr_backlog r))
       \<and> (vw_phase v = Closed \<longrightarrow> is_terminal (last (data_of (vw_frames v))))"
proof -
  let ?h = "hub_run P clock actions \<lparr>hb_record = new_record now run_id raw_request, hb_viewers = []\<rparr>"
  have "hub_ok ?h" by (rule hub_run_ok) (simp add: hub_ok_def)
  with assms have "viewer_ok (hb_record ?h) v" by (simp add: hub_ok_def)
  then have v: "increasing (data_of (vw_frames v))"
      "\<forall>e \<in> set (data_of (vw_frames v)). vw_after v < ev_seq e \<and> ev_seq e \<le> vw_last_sent v"
      "vw_phase v = Closed \<longleftrightarrow> (\<exists>es e. data_of (vw_frames v) = es @ [e] \<and> is_terminal e)"
      "rr_seq_counter (hb_record ?h) \<le> 2000 \<longrightarrow>
         data_of (vw_frames v) = between (vw_after v) (vw_last_sent v) (hb_record ?h)"
    unfolding viewer_ok_def BACKLOG_MAXLEN_def by simp_all
  have "vw_phase v = Closed \<longrightarrow> is_terminal (last (data_of (vw_frames v)))" using v(3) by auto
  with v(1,2,4) show ?thesis unfolding Let_def increasing_def between_def by blast
qed

lemma hub_step_viewers:
  "length (hb_viewers (hub_step P ck a h)) = length (hb_viewers h) + (case a of Connect _ \<Rightarrow> 1 | _ \<Rightarrow> 0)"
  by (cases a) (simp_all add: Let_def split: prod.splits)

definition demo_actions :: "hub_action list" where
  "demo_actions = [Connect 0, Produce Run_started None [], Resume 0, Resume 0]"

theorem viewers_see_every_event_once_witness:
  "let h = hub_run (\<lambda>_. True) (\<lambda>_. []) demo_actions \<lparr>hb_record = new_record [] [] [], hb_viewers = []\<rparr>
   in sorted_wrt (<) (map ev_seq (data_of (vw_frames (hb_viewers h ! 0))))"
proof -
  let ?h = "hub_run (\<lambda>_. True) (\<lambda>_. []) demo_actions \<lparr>hb_record = new_record [] [] [], hb_viewers = []\<rparr>"
  have "length (hb_viewers ?h) = 1"
    by (simp add: hub_run_def demo_actions_def hub_step_viewers del: hub_step.simps)
  then have "hb_viewers ?h ! 0 \<in> set (hb_viewers ?h)" by simp
  from viewers_see_every_event_once [OF this] show ?thesis by (simp add: Let_def)
qed

text \<open>
  C24: a missed wake-up delays a viewer but loses nothing. A viewer that waits although events beyond
  its cursor are in the backlog is sent, after the heartbeat timeout, the heartbeat and then all
  those events up to the first terminal one, whereupon it closes if there is one and otherwise waits.
\<close>

theorem waiting_viewer_catches_up:
  assumes "vw_phase v = Waiting"
  shows "let es = filter (\<lambda>e. vw_last_sent v < ev_seq e) (rr_backlog r);
             v' = fst (resumes (Suc (length es)) (time_out v) r)
    in vw_frames v' = vw_frames v @ Beat # map Data (upto_terminal es)
       \<and> vw_phase v' = (if list_ex is_terminal es then Closed else Waiting)"
proof -
  have t: "vw_phase (time_out v) = Ready" "vw_frames (time_out v) = vw_frames v @ [Beat]"
    "pending (time_out v) r = filter (\<lambda>e. vw_last_sent v < ev_seq e) (rr_backlog r)"
    using assms by (simp_all add: time_out_def pending_def)
  from resumes_Ready [OF t(1), of r] show ?thesis
    unfolding t(2,3) by (simp add: Let_def del: resumes.simps)
qed

theorem waiting_viewer_catches_up_witness:
  "vw_frames (fst (resumes 1 (time_out ((connect 0)\<lparr>vw_phase := Waiting\<rparr>)) (new_record [] [] []))) = [Beat]"
  using waiting_viewer_catches_up [of "(connect 0)\<lparr>vw_phase := Waiting\<rparr>" "new_record [] [] []"]
  by (simp add: new_record_def connect_def Let_def del: resumes.simps)

end
