(* ===== verification/Server_App.thy ===== *)
theory Server_App
  imports Runner Event_Stream
begin

text \<open>
  The route handlers of \<open>server/app.py\<close> over the registry and what the checkpointer returns, and
  the server as a step relation: requests arrive, and the task of the admitted run advances by
  one update at a time until it ends and releases the slot (\<open>_run_and_release\<close>). FastAPI, the
  checkpointer and the event loop are not part of the repository: a checkpoint is a record of
  the fields the handlers read.
\<close>

section \<open>Requests\<close>

datatype reply = Reply int pyval

definition create_run :: "str \<Rightarrow> str \<Rightarrow> str \<Rightarrow> registry \<Rightarrow> reply \<times> registry" where
  "create_run now run_id raw_request g =
     (case try_start now run_id raw_request g of
        (None, g1) \<Rightarrow>
          (Reply 409 (PDict [(lit ''detail'', PStr (lit ''a run is already active'')),
             (lit ''run_id'', case rg_active g1 of None \<Rightarrow> PNone | Some i \<Rightarrow> PStr i)]), g1)
      | (Some r, g1) \<Rightarrow>
          (Reply 200 (PDict [(lit ''run_id'', PStr run_id)]),
           update_record run_id (\<lambda>q. q\<lparr>rr_has_task := True\<rparr>) g1))"

text \<open>One tuple of \<open>checkpointer.alist(None)\<close>: thread, timestamp and the channel values.\<close>

record checkpoint =
  cp_thread_id :: str
  cp_ts :: str
  cp_values :: dict

fun str_less :: "str \<Rightarrow> str \<Rightarrow> bool" where
  "str_less s [] = False"
| "str_less [] (y # ys) = True"
| "str_less (x # xs) (y # ys) = (x < y \<or> x = y \<and> str_less xs ys)"

fun keep_latest :: "checkpoint \<Rightarrow> (str \<times> checkpoint) list \<Rightarrow> (str \<times> checkpoint) list" where
  "keep_latest c [] = [(cp_thread_id c, c)]"
| "keep_latest c ((t, d) # m) =
     (if t = cp_thread_id c then (t, if str_less (cp_ts d) (cp_ts c) then c else d) # m
      else (t, d) # keep_latest c m)"

definition latest_by_thread :: "str list \<Rightarrow> checkpoint list \<Rightarrow> (str \<times> checkpoint) list" where
  "latest_by_thread known cs =
     foldl (\<lambda>m c. if cp_thread_id c \<in> set known then m else keep_latest c m) [] cs"

record run_row =
  row_run_id :: str
  row_status :: str
  row_created_at :: pyval

definition row_of_record :: "run_record \<Rightarrow> run_row" where
  "row_of_record r =
     \<lparr>row_run_id = rr_run_id r, row_status = run_state_value (rr_status r),
      row_created_at = PFloat (rr_created_at r)\<rparr>"

definition row_of_checkpoint :: "str \<times> checkpoint \<Rightarrow> run_row" where
  "row_of_checkpoint tc =
     (let v = dget (cp_values (snd tc)) ''ticket_status''
      in \<lparr>row_run_id = fst tc,
          row_status = (if v = PNone then lit ''unknown''
                        else if enum_value v = PStr (lit ''escalated'') then lit ''escalated''
                        else lit ''completed''),
          row_created_at = PStr (cp_ts (snd tc))\<rparr>)"

text \<open>\<open>results.sort(key=..., reverse=True)\<close> is stable: equal keys keep their order.\<close>

definition row_key :: "(int \<Rightarrow> bool) \<Rightarrow> run_row \<Rightarrow> str" where
  "row_key P row = py_str P (row_created_at row)"

fun insert_row :: "(int \<Rightarrow> bool) \<Rightarrow> run_row \<Rightarrow> run_row list \<Rightarrow> run_row list" where
  "insert_row P x [] = [x]"
| "insert_row P x (y # ys) =
     (if str_less (row_key P x) (row_key P y) then y # insert_row P x ys else x # y # ys)"

definition sort_rows :: "(int \<Rightarrow> bool) \<Rightarrow> run_row list \<Rightarrow> run_row list" where
  "sort_rows P rows = foldr (insert_row P) rows []"

definition list_runs :: "(int \<Rightarrow> bool) \<Rightarrow> registry \<Rightarrow> checkpoint list \<Rightarrow> run_row list" where
  "list_runs P g cs =
     sort_rows P (map row_of_record (all_known g)
       @ map row_of_checkpoint (latest_by_thread (map rr_run_id (all_known g)) cs))"

definition not_found :: "string \<Rightarrow> (int \<Rightarrow> bool) \<Rightarrow> str \<Rightarrow> reply" where
  "not_found what P run_id =
     Reply 404 (PDict [(lit ''detail'', PStr (lit what @ lit '' run_id='' @ str_repr P run_id))])"

fun ledger_entry :: "pyval \<Rightarrow> pyval" where
  "ledger_entry (PSummary d) = PDict (asdict d)"
| "ledger_entry v = v"

fun set_item :: "str \<Rightarrow> pyval \<Rightarrow> dict \<Rightarrow> dict" where
  "set_item k v [] = [(k, v)]"
| "set_item k v ((j, w) # d) = (if j = k then (j, v) # d else (j, w) # set_item k v d)"

definition get_run_state :: "(int \<Rightarrow> bool) \<Rightarrow> str \<Rightarrow> dict option \<Rightarrow> exc + reply" where
  "get_run_state P run_id snapshot =
     (case snapshot of
        None \<Rightarrow> Inr (not_found ''no state for'' P run_id)
      | Some values \<Rightarrow>
          if values = [] then Inr (not_found ''no state for'' P run_id)
          else
            (case py_iter (py_or (dget values ''decision_ledger'') (PList [])) of
               Inl e \<Rightarrow> Inl e
             | Inr ledger \<Rightarrow>
                 Inr (Reply 200 (PDict (redact_items
                   (set_item (lit ''decision_ledger'') (PList (map ledger_entry ledger)) values))))))"

definition stream_run :: "(int \<Rightarrow> bool) \<Rightarrow> str \<Rightarrow> int \<Rightarrow> registry \<Rightarrow> reply + viewer" where
  "stream_run P run_id after g =
     (case get_record run_id g of
        None \<Rightarrow> Inl (not_found ''unknown'' P run_id)
      | Some r \<Rightarrow> Inr (connect after))"

text \<open>
  \<open>_current_rss_kb\<close>: the lines of \<open>/proc/self/status\<close>, \<open>None\<close> when the file cannot be opened, and
  the peak as the fallback.
\<close>

fun rss_from_lines :: "int \<Rightarrow> str list \<Rightarrow> exc + int" where
  "rss_from_lines max_rss [] = Inr max_rss"
| "rss_from_lines max_rss (line # ls) =
     (if is_prefix (lit ''VmRSS:'') line then
        (case py_split line of
           _ # w # _ \<Rightarrow> (case py_int w of
               None \<Rightarrow> Inl (ValueError (lit ''invalid literal for int() with base 10''))
             | Some n \<Rightarrow> Inr n)
         | _ \<Rightarrow> Inl (IndexError (lit ''list index out of range'')))
      else rss_from_lines max_rss ls)"

definition current_rss_kb :: "int \<Rightarrow> str list option \<Rightarrow> exc + int" where
  "current_rss_kb max_rss status_file =
     (case status_file of None \<Rightarrow> Inr max_rss | Some ls \<Rightarrow> rss_from_lines max_rss ls)"

definition health :: "int \<Rightarrow> str list option \<Rightarrow> registry \<Rightarrow> exc + dict" where
  "health max_rss status_file g =
     (case current_rss_kb max_rss status_file of
        Inl e \<Rightarrow> Inl e
      | Inr n \<Rightarrow> Inr [(lit ''status'', PStr (lit ''ok'')),
                      (lit ''active_run_id'', case rg_active g of None \<Rightarrow> PNone | Some i \<Rightarrow> PStr i),
                      (lit ''rss_kb'', PInt n)])"

section \<open>The server\<close>

text \<open>
  A task is the run it drives and what the graph will still give it: whether the start event is
  out, the remaining updates, and the end.
\<close>

record task =
  tk_run_id :: str
  tk_started :: bool
  tk_updates :: "(str \<times> pyval) list"
  tk_end :: "exc + pyval"

record server =
  sv_registry :: registry
  sv_tasks :: "task list"

definition task_step :: "(int \<Rightarrow> bool) \<Rightarrow> (int \<Rightarrow> str) \<Rightarrow> task \<Rightarrow> registry \<Rightarrow> task option \<times> registry" where
  "task_step P clock t g =
     (if \<not> tk_started t
      then (Some (t\<lparr>tk_started := True\<rparr>), update_record (tk_run_id t) (on_start P clock) g)
      else case tk_updates t of
             u # us \<Rightarrow> (Some (t\<lparr>tk_updates := us\<rparr>), update_record (tk_run_id t) (on_update P clock u) g)
           | [] \<Rightarrow> (None, finish (tk_run_id t) (update_record (tk_run_id t) (on_end P clock (tk_end t)) g)))"

inductive server_step :: "(int \<Rightarrow> bool) \<Rightarrow> (int \<Rightarrow> str) \<Rightarrow> server \<Rightarrow> server \<Rightarrow> bool" for P clock where
  admit: "create_run now i raw (sv_registry s) = (Reply 200 b, g) \<Longrightarrow> get_record i (sv_registry s) = None \<Longrightarrow>
     server_step P clock s
       \<lparr>sv_registry = g, sv_tasks = \<lparr>tk_run_id = i, tk_started = False, tk_updates = us, tk_end = fin\<rparr> # sv_tasks s\<rparr>"
| refuse: "create_run now i raw (sv_registry s) = (Reply 409 b, g) \<Longrightarrow>
     server_step P clock s (s\<lparr>sv_registry := g\<rparr>)"
| advance: "sv_tasks s = as @ t # bs \<Longrightarrow> task_step P clock t (sv_registry s) = (Some t', g) \<Longrightarrow>
     server_step P clock s \<lparr>sv_registry = g, sv_tasks = as @ t' # bs\<rparr>"
| complete: "sv_tasks s = as @ t # bs \<Longrightarrow> task_step P clock t (sv_registry s) = (None, g) \<Longrightarrow>
     server_step P clock s \<lparr>sv_registry = g, sv_tasks = as @ bs\<rparr>"

inductive_cases server_stepE: "server_step P clock s s'"

inductive server_reachable :: "(int \<Rightarrow> bool) \<Rightarrow> (int \<Rightarrow> str) \<Rightarrow> server \<Rightarrow> bool" for P clock where
  initial: "server_reachable P clock \<lparr>sv_registry = new_registry, sv_tasks = []\<rparr>"
| step: "server_reachable P clock s \<Longrightarrow> server_step P clock s s' \<Longrightarrow> server_reachable P clock s'"

section \<open>The invariant of the server\<close>

definition record_done :: "run_record \<Rightarrow> bool" where
  "record_done r \<longleftrightarrow> rr_status r \<noteq> Queued \<and> rr_status r \<noteq> Running
     \<and> (\<exists>es e. rr_backlog r = es @ [e] \<and> is_terminal e)"

definition record_live :: "task \<Rightarrow> run_record \<Rightarrow> bool" where
  "record_live t r \<longleftrightarrow>
     (if tk_started t then rr_status r = Running else rr_status r = Queued \<and> rr_backlog r = [])
     \<and> \<not> list_ex is_terminal (rr_backlog r)"

definition server_inv :: "server \<Rightarrow> bool" where
  "server_inv s \<longleftrightarrow>
     (\<forall>i r. get_record i (sv_registry s) = Some r \<longrightarrow> rr_run_id r = i \<and> seqs_ok r)
     \<and> (case sv_tasks s of
          [] \<Rightarrow> rg_active (sv_registry s) = None
                \<and> (\<forall>i r. get_record i (sv_registry s) = Some r \<longrightarrow> record_done r)
        | t # ts \<Rightarrow> ts = [] \<and> rg_active (sv_registry s) = Some (tk_run_id t)
                \<and> (\<exists>r. get_record (tk_run_id t) (sv_registry s) = Some r \<and> record_live t r)
                \<and> (\<forall>i r. get_record i (sv_registry s) = Some r \<longrightarrow> i \<noteq> tk_run_id t \<longrightarrow> record_done r))"

lemma emit_all_status: "rr_status (emit_all P ck k nd ps r) = rr_status r"
  by (induction ps arbitrary: r) (simp_all add: emit_event_fields)

lemma on_update_status: "rr_status (on_update P ck u r) = rr_status r"
proof -
  have a: "rr_status q = rr_status r" if "extract_attempts nd d r = (as, q)" for nd d r as q
    using that by (auto simp: extract_attempts_def split: if_splits pyval.splits)
  have e: "rr_status q = rr_status r" if "extract_escalation d r = (p, q)" for d r p q
    using that by (auto simp: extract_escalation_def Let_def split: if_splits option.splits)
  show ?thesis
    by (auto simp: on_update_def Let_def emit_event_fields emit_all_status dest!: a e
          split: prod.splits option.splits)
qed

lemma list_ex_terminal: "list_ex is_terminal es \<longleftrightarrow> Run_completed \<in> ev_kind ` set es \<or> Run_failed \<in> ev_kind ` set es"
  by (induction es) (auto simp: is_terminal_def)

lemma extends_not_terminal:
  assumes "extends ks q r" and "\<not> list_ex is_terminal (rr_backlog r)"
    and "Run_completed \<notin> set ks" and "Run_failed \<notin> set ks"
  shows "\<not> list_ex is_terminal (rr_backlog q)"
proof -
  have "set (map ev_kind (rr_backlog q)) \<subseteq> set (map ev_kind (rr_backlog r)) \<union> set ks"
    using assms(1) set_last_n_subset by (fastforce simp: extends_def split: if_splits)
  with assms(2-4) show ?thesis by (auto simp: list_ex_terminal)
qed

lemma on_update_live:
  assumes "record_live t r" and "tk_started t" and "tk_started t'"
  shows "record_live t' (on_update P ck u r)"
proof (rule on_update_extends [of P ck u r])
  fix n m :: nat
  assume "extends (Node_update # replicate n Attempt @ replicate m Escalation) (on_update P ck u r) r"
  from extends_not_terminal [OF this] assms show ?thesis
    by (auto simp: record_live_def on_update_status)
qed

lemma on_start_live:
  assumes "record_live t r" and "\<not> tk_started t" and "tk_started t'"
  shows "record_live t' (on_start P ck r)"
  using extends_not_terminal [OF on_start_extends [of P ck r]] assms
  by (auto simp: record_live_def on_start_def emit_event_fields)

lemma last_n_snoc_ex: "0 < n \<Longrightarrow> \<exists>ys. last_n n (xs @ [x]) = ys @ [x]"
  by (cases "length xs < n") (auto simp: last_n_def)

lemma on_end_done: "record_done (on_end P ck fin r)"
proof -
  have "\<exists>es e. rr_backlog (emit_event P ck k nd p q) = es @ [e] \<and> ev_kind e = k" for k nd p and q :: run_record
    using last_n_snoc_ex [of BACKLOG_MAXLEN "rr_backlog q"]
    by (fastforce simp: emit_event_fields BACKLOG_MAXLEN_def)
  then have "\<exists>es e. rr_backlog (on_end P ck fin r) = es @ [e] \<and> is_terminal e"
    by (cases fin) (fastforce simp: on_end_def is_terminal_def)+
  then show ?thesis
    by (auto simp: record_done_def on_end_extends(2) end_state_def split: sum.splits)
qed

lemma run_ids_kept:
  "rr_run_id (on_start P ck r) = rr_run_id r" "rr_run_id (on_update P ck u r) = rr_run_id r"
  "rr_run_id (on_end P ck fin r) = rr_run_id r"
  "seqs_ok r \<Longrightarrow> seqs_ok (on_start P ck r)" "seqs_ok r \<Longrightarrow> seqs_ok (on_update P ck u r)"
  "seqs_ok r \<Longrightarrow> seqs_ok (on_end P ck fin r)"
  using on_start_extends [of P ck r] on_end_extends(1) [of fin P ck r] on_update_extends [of P ck u r]
  by (auto simp: extends_def)

lemma get_record_finish [simp]: "get_record i (finish j g) = get_record i g"
  by (simp add: finish_def get_record_def)

lemma create_run_cases:
  assumes "create_run now i raw g = (rep, g')"
  obtains (busy) j where "rg_active g = Some j" and "g' = g"
      and "rep = Reply 409 (PDict [(lit ''detail'', PStr (lit ''a run is already active'')), (lit ''run_id'', PStr j)])"
  | (admitted) "rg_active g = None" and "rg_active g' = Some i" and "rep = Reply 200 (PDict [(lit ''run_id'', PStr i)])"
      and "\<And>j. get_record j g' = (if j = i then Some (new_record now i raw\<lparr>rr_has_task := True\<rparr>) else get_record j g)"
proof (cases "rg_active g")
  case None
  let ?g1 = "g\<lparr>rg_runs := put_record i (new_record now i raw) (rg_runs g), rg_active := Some i\<rparr>"
  have g': "g' = update_record i (\<lambda>q. q\<lparr>rr_has_task := True\<rparr>) ?g1" "rep = Reply 200 (PDict [(lit ''run_id'', PStr i)])"
    using assms None by (simp_all add: create_run_def try_start_def Let_def)
  have "get_record j g' = (if j = i then Some (new_record now i raw\<lparr>rr_has_task := True\<rparr>) else get_record j g)" for j
    unfolding g'(1) get_update_record by (simp add: get_record_def map_of_put_record option.map_ident)
  moreover have "rg_active g' = Some i" by (simp add: g'(1))
  ultimately show thesis using None g'(2) by (intro admitted)
next
  case (Some j)
  with assms have "g' = g" and "rep = Reply 409 (PDict [(lit ''detail'', PStr (lit ''a run is already active'')),
      (lit ''run_id'', PStr j)])"
    by (auto simp: create_run_def try_start_def)
  with Some show thesis by (intro busy)
qed

lemma server_inv_single: "server_inv s \<Longrightarrow> sv_tasks s = as @ t # bs \<Longrightarrow> as = [] \<and> bs = []"
  by (cases as) (auto simp: server_inv_def)

lemma server_step_inv:
  assumes "server_step P clock s s'" and inv: "server_inv s"
  shows "server_inv s'"
  using assms(1)
proof cases
  case (admit now i raw b g us fin)
  from admit(2) show ?thesis
  proof (cases rule: create_run_cases)
    case admitted
    have "sv_tasks s = []" using inv admitted(1) by (auto simp: server_inv_def split: list.splits)
    have new: "seqs_ok (new_record now i raw\<lparr>rr_has_task := True\<rparr>)"
      "rr_run_id (new_record now i raw\<lparr>rr_has_task := True\<rparr>) = i"
      "record_live \<lparr>tk_run_id = i, tk_started = False, tk_updates = us, tk_end = fin\<rparr>
        (new_record now i raw\<lparr>rr_has_task := True\<rparr>)"
      by (auto simp: record_live_def new_record_def intro: seqs_ok_cong [OF seqs_ok_new [of now i raw]])
    from inv \<open>sv_tasks s = []\<close> have "\<forall>j r. get_record j (sv_registry s) = Some r \<longrightarrow> rr_run_id r = j \<and> seqs_ok r \<and> record_done r"
      by (simp add: server_inv_def)
    with new admitted(2,4) admit(1) \<open>sv_tasks s = []\<close> show ?thesis
      by (simp add: server_inv_def)
  qed simp
next
  case (refuse now i raw b g)
  from refuse(2) show ?thesis
    by (cases rule: create_run_cases) (use inv refuse in simp_all)
next
  case (advance as t bs t' g)
  with server_inv_single [OF inv] have e: "as = []" "bs = []" by simp_all
  with inv advance(2) obtain r where r: "get_record (tk_run_id t) (sv_registry s) = Some r" "record_live t r"
    and rest: "\<forall>i r. get_record i (sv_registry s) = Some r \<longrightarrow> i \<noteq> tk_run_id t \<longrightarrow> record_done r"
    and ids: "\<forall>i r. get_record i (sv_registry s) = Some r \<longrightarrow> rr_run_id r = i \<and> seqs_ok r"
    and act: "rg_active (sv_registry s) = Some (tk_run_id t)"
    by (auto simp: server_inv_def)
  from advance(3) obtain f where f: "g = update_record (tk_run_id t) f (sv_registry s)"
    "tk_run_id t' = tk_run_id t" "record_live t' (f r)" "rr_run_id (f r) = rr_run_id r"
    "seqs_ok r \<Longrightarrow> seqs_ok (f r)"
    using on_start_live [OF r(2), of t'] on_update_live [OF r(2), of t'] run_ids_kept
    by (auto simp: task_step_def split: if_splits list.splits)
  have "rr_run_id q = i \<and> seqs_ok q \<and> (i \<noteq> tk_run_id t \<longrightarrow> record_done q)"
    if q: "get_record i g = Some q" for i q
  proof -
    from q f(1) obtain p where p: "get_record i (sv_registry s) = Some p" "q = (if i = tk_run_id t then f p else p)"
      by (auto simp: get_update_record)
    show ?thesis
    proof (cases "i = tk_run_id t")
      case True
      with p r(1) have "p = r" by simp
      with True p f(4,5) ids show ?thesis by simp
    next
      case False
      with p rest ids show ?thesis by simp
    qed
  qed
  moreover have "get_record (tk_run_id t') g = Some (f r)" using r(1) f(1,2) by (simp add: get_update_record)
  moreover have "rg_active g = Some (tk_run_id t')" using act f(1,2) by simp
  ultimately show ?thesis
    using e advance(1) f(2,3) by (simp add: server_inv_def)
next
  case (complete as t bs g)
  with server_inv_single [OF inv] have e: "as = []" "bs = []" by simp_all
  from complete(3) have g: "g = finish (tk_run_id t) (update_record (tk_run_id t) (on_end P clock (tk_end t)) (sv_registry s))"
    by (auto simp: task_step_def split: if_splits list.splits)
  have old: "rr_run_id p = i \<and> seqs_ok p \<and> (i \<noteq> tk_run_id t \<longrightarrow> record_done p)"
    if "get_record i (sv_registry s) = Some p" for i p
    using inv e complete(2) that by (simp add: server_inv_def)
  have "rr_run_id q = i \<and> seqs_ok q \<and> record_done q" if q: "get_record i g = Some q" for i q
  proof -
    from q g obtain p where p: "get_record i (sv_registry s) = Some p"
      "q = (if i = tk_run_id t then on_end P clock (tk_end t) p else p)"
      by (auto simp: get_update_record)
    with old [OF p(1)] show ?thesis by (simp add: run_ids_kept on_end_done)
  qed
  moreover have "rg_active g = None"
    using inv e complete(2) g by (simp add: server_inv_def registry_slot.release_law)
  ultimately show ?thesis using e complete(1) by (simp add: server_inv_def)
qed

lemma server_reachable_inv: "server_reachable P clock s \<Longrightarrow> server_inv s"
proof (induction rule: server_reachable.induct)
  case initial
  then show ?case by (simp add: server_inv_def new_registry_def get_record_def)
next
  case (step s s')
  show ?case by (rule server_step_inv [OF step.hyps(2) step.IH])
qed

section \<open>Properties\<close>

lemma record_done_last: "record_done r \<Longrightarrow> rr_status r \<notin> {Queued, Running} \<and> rr_backlog r \<noteq> [] \<and> is_terminal (last (rr_backlog r))"
  by (auto simp: record_done_def)

text \<open>
  C11: the server runs one run at a time and never forgets how one ended. In every state it can reach
  there is at most one task; the slot is taken exactly by its run; and every other run it knows has
  left the states queued and running and its backlog ends with its terminal event.
\<close>

theorem server_runs_one_at_a_time:
  assumes "server_reachable P clock s"
  shows "length (sv_tasks s) \<le> 1
    \<and> rg_active (sv_registry s) = (case sv_tasks s of [] \<Rightarrow> None | t # ts \<Rightarrow> Some (tk_run_id t))
    \<and> (\<forall>i r. get_record i (sv_registry s) = Some r \<longrightarrow> rg_active (sv_registry s) \<noteq> Some i \<longrightarrow>
         rr_status r \<notin> {Queued, Running} \<and> rr_backlog r \<noteq> [] \<and> is_terminal (last (rr_backlog r)))"
proof -
  note inv = server_reachable_inv [OF assms, unfolded server_inv_def]
  show ?thesis
  proof (cases "sv_tasks s")
    case Nil
    with inv record_done_last show ?thesis by simp
  next
    case (Cons t ts)
    with inv record_done_last show ?thesis by auto
  qed
qed

text \<open>The witness: one request admitted by the empty server.\<close>

theorem server_runs_one_at_a_time_witness:
  "\<exists>s. server_reachable (\<lambda>_. True) (\<lambda>_. []) s \<and> rg_active (sv_registry s) = Some [114] \<and> length (sv_tasks s) \<le> 1"
proof -
  let ?s0 = "\<lparr>sv_registry = new_registry, sv_tasks = []\<rparr>"
  obtain rep g where c: "create_run [] [114] [] new_registry = (rep, g)" by fastforce
  then have r: "rep = Reply 200 (PDict [(lit ''run_id'', PStr [114])])" "rg_active g = Some [114]"
    by (cases rule: create_run_cases; simp add: new_registry_def)+
  let ?s1 = "\<lparr>sv_registry = g, sv_tasks = [\<lparr>tk_run_id = [114], tk_started = False, tk_updates = [], tk_end = Inr PNone\<rparr>]\<rparr>"
  have "server_step (\<lambda>_. True) (\<lambda>_. []) ?s0 ?s1"
    using server_step.admit [of "[]" "[114]" "[]" ?s0 _ g "\<lambda>_. True" "\<lambda>_. []" "[]" "Inr PNone"] c r(1)
    by (simp add: new_registry_def get_record_def)
  with server_reachable.initial have "server_reachable (\<lambda>_. True) (\<lambda>_. []) ?s1" by (rule server_reachable.step)
  from this server_runs_one_at_a_time [OF this] r(2) show ?thesis by (intro exI [of _ ?s1]) simp
qed

text \<open>
  A request to start a run while one is active is refused with 409 and the id of the active run,
  and it changes nothing; otherwise it is answered 200 with the new id, the new run is registered,
  queued and takes the slot, and no other record is touched.
\<close>

theorem create_run_admission:
  "case create_run now i raw g of
     (Reply code body, g') \<Rightarrow>
       (case rg_active g of
          Some j \<Rightarrow> code = 409 \<and> g' = g \<and> body = PDict [(lit ''detail'', PStr (lit ''a run is already active'')), (lit ''run_id'', PStr j)]
        | None \<Rightarrow> code = 200 \<and> body = PDict [(lit ''run_id'', PStr i)] \<and> rg_active g' = Some i
            \<and> (\<exists>r. get_record i g' = Some r \<and> rr_status r = Queued \<and> rr_backlog r = [] \<and> rr_raw_request r = raw)
            \<and> (\<forall>j. j = i \<or> get_record j g' = get_record j g))"
proof -
  obtain rep g' where c: "create_run now i raw g = (rep, g')" by fastforce
  show ?thesis
    by (subst c, rule create_run_cases [OF c]) (simp_all add: new_record_def)
qed

lemma str_less_trans: "str_less a b \<Longrightarrow> str_less b c \<Longrightarrow> str_less a c"
proof (induction a b arbitrary: c rule: str_less.induct)
  case (2 y ys)
  then show ?case by (cases c) auto
next
  case (3 x xs y ys)
  then show ?case by (cases c) auto
qed simp

lemma str_less_total: "\<not> str_less a b \<Longrightarrow> \<not> str_less b a \<Longrightarrow> a = b"
proof (induction a b rule: str_less.induct)
  case (1 s)
  then show ?case by (cases s) auto
qed auto

lemma str_less_irrefl: "\<not> str_less a a"
  by (induction a) auto

lemma set_insert_row: "set (insert_row P x ys) = insert x (set ys)"
  by (induction ys) auto

lemma set_sort_rows: "set (sort_rows P rows) = set rows"
  unfolding sort_rows_def by (induction rows) (simp_all add: set_insert_row)

definition descending :: "(int \<Rightarrow> bool) \<Rightarrow> run_row list \<Rightarrow> bool" where
  "descending P rows \<longleftrightarrow> sorted_wrt (\<lambda>a b. \<not> str_less (row_key P a) (row_key P b)) rows"

lemma descending_insert_row: "descending P ys \<Longrightarrow> descending P (insert_row P x ys)"
proof (induction ys)
  case (Cons y ys)
  show ?case
  proof (cases "str_less (row_key P x) (row_key P y)")
    case True
    then have "\<not> str_less (row_key P y) (row_key P x)"
      using str_less_trans [of "row_key P x" "row_key P y" "row_key P x"] str_less_irrefl by blast
    with True Cons show ?thesis by (auto simp: descending_def set_insert_row)
  next
    case False
    have "\<not> str_less (row_key P x) (row_key P z)" if z: "z \<in> set ys" for z
    proof
      assume l: "str_less (row_key P x) (row_key P z)"
      from Cons.prems z have n: "\<not> str_less (row_key P y) (row_key P z)" by (simp add: descending_def)
      then consider "row_key P y = row_key P z" | "str_less (row_key P z) (row_key P y)"
        using str_less_total by blast
      then show False using l False str_less_trans by cases (simp, blast)
    qed
    with False Cons show ?thesis by (auto simp: descending_def)
  qed
qed (simp add: descending_def)

lemma descending_sort_rows: "descending P (sort_rows P rows)"
  unfolding sort_rows_def by (induction rows) (simp_all add: descending_insert_row, simp add: descending_def)

lemma fst_keep_latest: "fst ` set (keep_latest c m) = insert (cp_thread_id c) (fst ` set m)"
proof (induction m)
  case (Cons p m)
  then show ?case by (cases p) (simp add: insert_commute)
qed simp

lemma fst_latest_by_thread:
  "fst ` set (latest_by_thread known cs) = cp_thread_id ` set cs - set known"
proof -
  have "fst ` set (foldl (\<lambda>m c. if cp_thread_id c \<in> set known then m else keep_latest c m) m cs)
      = fst ` set m \<union> (cp_thread_id ` set cs - set known)" for m
    by (induction cs arbitrary: m) (auto simp: fst_keep_latest)
  then show ?thesis by (simp add: latest_by_thread_def)
qed

text \<open>
  The list of runs is complete and sorted. Its ids are those of the runs in memory and of the
  threads the checkpointer knows, a run in memory shows its own status, and the rows are in
  descending order of the text of their creation time.
\<close>

theorem list_runs_complete_sorted:
  "row_run_id ` set (list_runs P g cs) = rr_run_id ` set (all_known g) \<union> cp_thread_id ` set cs
   \<and> row_of_record ` set (all_known g) \<subseteq> set (list_runs P g cs)
   \<and> sorted_wrt (\<lambda>a b. \<not> str_less (row_key P a) (row_key P b)) (list_runs P g cs)"
proof (intro conjI)
  let ?l = "latest_by_thread (map rr_run_id (all_known g)) cs"
  have s: "set (list_runs P g cs) = row_of_record ` set (all_known g) \<union> row_of_checkpoint ` set ?l"
    by (simp add: list_runs_def set_sort_rows)
  have "row_run_id ` row_of_checkpoint ` set ?l = fst ` set ?l"
    by (simp add: image_image row_of_checkpoint_def Let_def)
  moreover have "row_run_id ` row_of_record ` set (all_known g) = rr_run_id ` set (all_known g)"
    by (simp add: image_image row_of_record_def)
  ultimately show "row_run_id ` set (list_runs P g cs) = rr_run_id ` set (all_known g) \<union> cp_thread_id ` set cs"
    unfolding s image_Un fst_latest_by_thread by auto
  show "row_of_record ` set (all_known g) \<subseteq> set (list_runs P g cs)" unfolding s by blast
  show "sorted_wrt (\<lambda>a b. \<not> str_less (row_key P a) (row_key P b)) (list_runs P g cs)"
    using descending_sort_rows by (simp add: list_runs_def descending_def)
qed

end
