(* ===== verification/Entry_Points.thy ===== *)
theory Entry_Points
  imports Server_App
begin

text \<open>
  The programs around the graph: \<open>scripts/run_real_issue.py\<close>, which runs one GitHub issue against a
  live runtime and reports by its exit code, and what \<open>scripts/smoke_e2e_mock.py\<close> expects of a run
  in mock mode. \<open>system_env\<close> is the environment of the nodes that the process environment and the
  two external clients give. What argparse makes of the command line is an argument; printing is left out.
\<close>

definition system_env ::
  "(int \<Rightarrow> bool) \<Rightarrow> 'h http \<Rightarrow> ('l, 'l llm_client) prog \<Rightarrow> environ \<Rightarrow> int \<Rightarrow> ('h, 'l) sys_world node_env" where
  "system_env P h anthropic env max_escalations =
     \<lparr>ne_get_runtime_client = get_runtime_client P h env, ne_get_llm_client = get_llm_client P anthropic env,
      ne_max_escalations = max_escalations, ne_printable = P\<rparr>"

definition is_unset :: "environ \<Rightarrow> string \<Rightarrow> bool" where
  \<comment> \<open>\<open>not os.environ.get(name)\<close>\<close>
  "is_unset env name \<longleftrightarrow> env (lit name) = None \<or> env (lit name) = Some []"

definition issue_state :: "github_issue \<Rightarrow> agent_state" where
  "issue_state i = empty_state\<lparr>issue := Some i\<rparr>"

text \<open>
  The namespace of \<open>_parse_args\<close>. Its body options are a required group of which exactly one is given.
\<close>

datatype body_option = Body str | Body_file str

record real_args =
  ra_repo :: str
  ra_number :: int
  ra_title :: str
  ra_body :: body_option
  ra_workspace_dir :: str

definition issue_of_args :: "(str \<Rightarrow> exc + str) \<Rightarrow> real_args \<Rightarrow> exc + github_issue" where
  "issue_of_args read_text args =
     (case (case ra_body args of Body text \<Rightarrow> Inr text | Body_file path \<Rightarrow> read_text path) of
        Inl e \<Rightarrow> Inl e
      | Inr body \<Rightarrow>
          Inr \<lparr>gi_repo = Some (ra_repo args), gi_number = Some (ra_number args), gi_title = Some (ra_title args),
               gi_body = Some body, gi_workspace_dir = Some (ra_workspace_dir args)\<rparr>)"

text \<open>
  The exit code, or the exception that ends the process. \<open>parsed\<close> is what argparse makes of the command
  line: a namespace, or the code it exits with (0 after \<open>--help\<close>, 2 on a usage error).
\<close>

definition real_issue_main ::
  "(int \<Rightarrow> bool) \<Rightarrow> 'h http \<Rightarrow> ('l, 'l llm_client) prog \<Rightarrow> (str \<Rightarrow> exc + str) \<Rightarrow> environ \<Rightarrow> int + real_args
   \<Rightarrow> (('h, 'l) sys_world, int) prog" where
  "real_issue_main P h anthropic read_text env parsed w =
     (if is_unset env ''ANTHROPIC_API_KEY'' then (Inr 2, w)
      else if is_unset env ''SYNDICATE_RUNTIME_URL'' then (Inr 2, w)
      else
        (let env1 = env(lit ''SYNDICATE_MOCK_CLIENT'' := None)
         in case parsed of
              Inl code \<Rightarrow> (Inr code, w)
            | Inr args \<Rightarrow>
          (case issue_of_args read_text args of
             Inl e \<Rightarrow> (Inl e, w)
           | Inr i \<Rightarrow>
           (case max_escalations_of env1 of
              Inl e \<Rightarrow> (Inl e, w)
            | Inr m \<Rightarrow>
                (case run_graph (system_env P h anthropic env1 m) RECURSION_LIMIT (issue_state i) w of
                   (us, out, s', w') \<Rightarrow>
                     (case out of
                        Finished \<Rightarrow> (Inr (if ticket_status s' = Some DONE then 0 else 1), w')
                      | Raised e \<Rightarrow> (Inl e, w')
                      | Out_of_steps \<Rightarrow> (Inl (ExternalError (lit ''Recursion limit reached'')), w')))))))"

definition EXPECTED_TRANSITIONS :: "str list" where
  "EXPECTED_TRANSITIONS =
     [lit ''analyzer'', lit ''architect'', lit ''dispatch'', lit ''executor'', lit ''validator'',
      lit ''oversight_git'', lit ''advance'', lit ''dispatch'', lit ''END'']"

text \<open>The transitions as the script collects them from the stream.\<close>

definition transitions :: "(node_name \<times> delta) list \<Rightarrow> str list" where
  "transitions us = map (\<lambda>(n, d). node_label n) us @ [lit ''END'']"

lemma fresh_issue_state: "fresh (issue_state i)"
  by (simp add: fresh_def issue_state_def empty_state_def validated_def strikes_def escalations_def)

lemma fresh_initial_state: "fresh (build_initial_state i raw)"
  by (simp add: fresh_def build_initial_state_def empty_state_def validated_def strikes_def escalations_def)

section \<open>The ticket of a UI run\<close>

text \<open>Without an issue no node replaces the ticket the run started with.\<close>

definition same_ticket :: "agent_state \<Rightarrow> agent_state \<Rightarrow> bool" where
  "same_ticket s0 s \<longleftrightarrow> issue s = None \<and> ticket_of s = ticket_of s0"

lemma same_ticket_step:
  assumes "node_fun E n s w = (Inr d, w')" and "same_ticket s0 s" and "ticket_of s0 \<noteq> []"
  shows "same_ticket s0 (merge s d)"
proof (cases n)
  case Analyzer
  with assms(1) have "analyzer_node E s w = (Inr d, w')" by simp
  then show ?thesis
    by (cases rule: analyzer_node_cases) (use assms in \<open>auto simp: same_ticket_def ticket_of_def\<close>)
next
  case Architect
  with assms(1) have "architect_node E s w = (Inr d, w')" by simp
  then show ?thesis by (cases rule: architect_node_cases) (use assms in \<open>auto simp: same_ticket_def\<close>)
next
  case Executor
  with assms(1) have r: "executor_node E s w = (Inr d, w')" by simp
  from executor_tn.frame [OF r] executor_tn.frame_reads [OF r] assms(2) show ?thesis
    by (simp add: same_ticket_def)
next
  case Validator
  with assms(1) have r: "validator_node E s w = (Inr d, w')" by simp
  from validator_tn.frame [OF r] validator_tn.frame_reads [OF r] assms(2) show ?thesis
    by (simp add: same_ticket_def)
next
  case Oversight_git
  with assms(1) have r: "oversight_git_node E s w = (Inr d, w')" by simp
  from oversight_tn.frame [OF r] oversight_tn.frame_reads [OF r] assms(2) show ?thesis
    by (simp add: same_ticket_def)
qed (use assms in \<open>auto simp: dispatch_node_def escalate_node_def advance_node_def Let_def same_ticket_def ticket_of_def split: if_splits\<close>)

lemma same_ticket_reachable:
  assumes "reachable E (At n0 s0 w0) c" and "issue s0 = None" and "ticket_of s0 \<noteq> []"
  shows "same_ticket s0 (conf_state c)"
  using assms(1)
proof (induction rule: reachable.induct)
  case start
  from assms(2) show ?case by (simp add: same_ticket_def)
next
  case (step c c')
  from step.hyps(2) step.IH show ?case
    by (cases rule: graph_step.cases) (auto intro: same_ticket_step [OF _ _ assms(3)])
qed

lemma initial_ticket:
  "issue (build_initial_state i raw) = None" "ticket_of (build_initial_state i raw) \<noteq> []"
  "\<not> truthy (files_of (ticket_of (build_initial_state i raw)))"
  by (simp_all add: build_initial_state_def empty_state_def ticket_of_def files_of_def dget_def py_or_def)

section \<open>A run that commits\<close>

text \<open>
  The scripted double with a repository whose HEAD moves at the commit, from a state whose ticket
  declares a file: every node of the run, one after the other.
\<close>

lemma demo_steps:
  "node_fun (scripted_env t) Analyzer demo_state w = (Inr [Set_active_ticket demo_ticket], w)"
  "merge demo_state [Set_active_ticket demo_ticket] = demo_state"
  "node_fun (scripted_env t) Architect demo_state w = (Inr [], w)"
  "next_node Dispatch demo_state = Some Executor"
  by (simp_all add: analyzer_node_def architect_node_def dispatch_router_def validated_def demo_state_def
        empty_state_def ticket_of_def demo_ticket_def)

lemma commit_world_clean: "scripted_run_action P (PStr c) cwd t commit_world
   = (Inr \<lparr>exit_code = 0, output = lit ''[scripted] '' @ c\<rparr>, commit_world\<lparr>scr_commands := [PStr c]\<rparr>)"
  if "\<not> is_prefix (lit ''git rev-parse HEAD'') c"
  using that by (simp add: scripted_action commit_world_def scripted_world_def)

lemma demo_exec:
  "\<exists>l. node_fun (scripted_env ''ok'') Executor demo_state commit_world
     = (Inr [Set_attempt_log l, Set_ticket_status LOCAL_PASS, Set_strike_count 1, Set_validation_diagnosis None],
        commit_world\<lparr>scr_commands := map PStr FAST_CHECK_ACTIONS\<rparr>)"
  by (simp add: executor_node_def executor_loop.simps run_agentic_loop_def run_fast_checks_def FAST_CHECK_ACTIONS_def
        MAX_STRIKES_def Let_def demo_reads scripted_action commit_world_def scripted_world_def scripted_env_def completing_llm_def
        scripted_client_def MAX_TOOL_CALLS_def eval_nat_numeral prog_simps split_beta lit_def)

definition passed_state :: "str list \<Rightarrow> agent_state" where
  "passed_state l = demo_state\<lparr>attempt_log := Some l, ticket_status := Some LOCAL_PASS, strike_count := Some 1,
     validation_diagnosis := Some None, last_validation_passed := Some True\<rparr>"

lemma passed_reads: "ticket_of (passed_state l) = demo_ticket" "log_of (passed_state l) = l" "validated (passed_state l)"
  "ticket_status (passed_state l) = Some LOCAL_PASS"
  by (simp_all add: passed_state_def demo_state_def ticket_of_def log_of_def validated_def)

lemma demo_validator:
  "\<exists>cs. node_fun (scripted_env ''ok'') Validator
       (demo_state\<lparr>attempt_log := Some l, ticket_status := Some LOCAL_PASS, strike_count := Some 1, validation_diagnosis := Some None\<rparr>)
       (commit_world\<lparr>scr_commands := map PStr FAST_CHECK_ACTIONS\<rparr>)
     = (Inr [Set_last_validation_passed True, Set_validation_diagnosis None], commit_world\<lparr>scr_commands := cs\<rparr>)"
  by (simp add: validator_node_def Let_def scripted_action commit_world_def scripted_world_def scripted_env_def
        scripted_client_def prog_simps split_beta lit_def demo_state_def ticket_of_def demo_ticket_def dget_def py_or_def
        DEFAULT_VERIFICATION_COMMAND_def)

lemma demo_oversight:
  "\<exists>l' w'. node_fun (scripted_env ''ok'') Oversight_git (passed_state l) (commit_world\<lparr>scr_commands := cs\<rparr>)
     = (Inr [Set_attempt_log l', Set_ticket_status DONE], w')"
  by (simp add: oversight_git_node_def oversight_commit_def commit_staged_def verify_head_def git_run_def passed_reads demo_reads
        scripted_action commit_world_def scripted_world_def git_commands quoted_paths_def quote_value_def
        lit_def head_of_def answer_def py_strip_def is_space_def prog_simps split_beta Let_def)

definition ends_done :: "'w node_env \<Rightarrow> nat \<Rightarrow> node_name \<Rightarrow> agent_state \<Rightarrow> 'w \<Rightarrow> bool" where
  "ends_done E k n s w \<longleftrightarrow>
     (\<exists>us s' w'. run_from E k n s w = (us, Finished, s', w') \<and> ticket_status s' = Some DONE)"

lemma ends_done_step:
  assumes "ends_done E k m (merge s d) w'" and "node_fun E n s w = (Inr d, w')" and "next_node n (merge s d) = Some m"
  shows "ends_done E (Suc k) n s w"
  using assms by (auto simp: ends_done_def)

lemma ends_done_end:
  assumes "node_fun E n s w = (Inr d, w')" and "next_node n (merge s d) = None" and "ticket_status (merge s d) = Some DONE"
  shows "ends_done E (Suc k) n s w"
  using assms by (auto simp: ends_done_def)

lemma commit_run:
  "\<exists>us s' w'. run_graph (scripted_env ''ok'') 25 demo_state commit_world = (us, Finished, s', w')
     \<and> ticket_status s' = Some DONE"
proof -
  obtain l where x: "node_fun (scripted_env ''ok'') Executor demo_state commit_world
     = (Inr [Set_attempt_log l, Set_ticket_status LOCAL_PASS, Set_strike_count 1, Set_validation_diagnosis None],
        commit_world\<lparr>scr_commands := map PStr FAST_CHECK_ACTIONS\<rparr>)" using demo_exec by blast
  obtain cs where v: "node_fun (scripted_env ''ok'') Validator
       (demo_state\<lparr>attempt_log := Some l, ticket_status := Some LOCAL_PASS, strike_count := Some 1, validation_diagnosis := Some None\<rparr>)
       (commit_world\<lparr>scr_commands := map PStr FAST_CHECK_ACTIONS\<rparr>)
     = (Inr [Set_last_validation_passed True, Set_validation_diagnosis None], commit_world\<lparr>scr_commands := cs\<rparr>)"
    using demo_validator by blast
  have m: "merge (demo_state\<lparr>attempt_log := Some l, ticket_status := Some LOCAL_PASS, strike_count := Some 1,
       validation_diagnosis := Some None\<rparr>) [Set_last_validation_passed True, Set_validation_diagnosis None] = passed_state l"
    by (simp add: passed_state_def)
  obtain l' w' where o: "node_fun (scripted_env ''ok'') Oversight_git (passed_state l) (commit_world\<lparr>scr_commands := cs\<rparr>)
     = (Inr [Set_attempt_log l', Set_ticket_status DONE], w')" using demo_oversight by blast
  let ?E = "scripted_env ''ok''"
  let ?s1 = "demo_state\<lparr>attempt_log := Some l, ticket_status := Some LOCAL_PASS, strike_count := Some 1,
       validation_diagnosis := Some None\<rparr>"
  let ?s3 = "merge (passed_state l) [Set_attempt_log l', Set_ticket_status DONE]"
  let ?s4 = "merge ?s3 (advance_node ?s3)"
  have n: "node_fun ?E Dispatch s w = (Inr [], w)" "node_fun ?E Advance s w = (Inr (advance_node s), w)" for s w
    by (simp_all add: dispatch_node_def)
  have st: "validated ?s4" "ticket_status ?s4 = Some DONE" "ticket_status ?s3 = Some DONE"
    using passed_reads(3) by (simp_all add: advance_node_def validated_def)
  have "ends_done ?E (Suc 17) Dispatch ?s4 w'"
    by (rule ends_done_end [OF n(1)]) (use st in \<open>simp_all add: dispatch_router_def\<close>)
  then have "ends_done ?E (Suc (Suc 17)) Advance ?s3 w'"
    by (rule ends_done_step [OF _ n(2)]) simp
  then have "ends_done ?E (Suc (Suc (Suc 17))) Oversight_git (passed_state l) (commit_world\<lparr>scr_commands := cs\<rparr>)"
    by (rule ends_done_step [OF _ o]) (use st in \<open>simp add: oversight_git_router_def\<close>)
  then have "ends_done ?E (Suc (Suc (Suc (Suc 17)))) Validator ?s1 (commit_world\<lparr>scr_commands := map PStr FAST_CHECK_ACTIONS\<rparr>)"
    unfolding m [symmetric] by (rule ends_done_step [OF _ v]) (simp add: validator_router_def validated_def)
  then have "ends_done ?E (Suc (Suc (Suc (Suc (Suc 17))))) Executor demo_state commit_world"
    by (intro ends_done_step [OF _ x]) simp_all
  then have "ends_done ?E (Suc (Suc (Suc (Suc (Suc (Suc 17)))))) Dispatch demo_state commit_world"
    by (intro ends_done_step [OF _ n(1)]) (simp_all add: demo_steps(4) del: next_node.simps)
  then have "ends_done ?E (Suc (Suc (Suc (Suc (Suc (Suc (Suc 17))))))) Architect demo_state commit_world"
    by (intro ends_done_step [OF _ demo_steps(3)]) simp_all
  then have "ends_done ?E (Suc (Suc (Suc (Suc (Suc (Suc (Suc (Suc 17)))))))) Analyzer demo_state commit_world"
    by (intro ends_done_step [OF _ demo_steps(1)]) (simp_all add: demo_steps(2) del: merge_Cons)
  then have "ends_done ?E 25 entry_point demo_state commit_world" by (simp add: entry_point_def)
  then show ?thesis by (simp add: ends_done_def run_graph_def)
qed

end
