(* ===== verification/Json_Roundtrip.thy ===== *)
theory Json_Roundtrip
  imports Events
begin

text \<open>
  \<open>json.loads\<close> reads back what \<open>json.dumps\<close> wrote. \<open>json_exact\<close> are the values for which this is
  so: JSON values whose dicts have distinct keys, whose floats are JSON numerals, and whose texts
  have no high surrogate directly before a low one (the parser would join the two). A viewer that
  parses the \<open>data:\<close> line of a frame therefore gets the envelope the server sent
  (\<open>parse_sse_line\<close>).
\<close>

section \<open>Texts\<close>

fun json_text :: "str \<Rightarrow> bool" where
  "json_text [] = True"
| "json_text (c # s) =
     (0 \<le> c \<and> c \<le> 1114111
      \<and> \<not> (55296 \<le> c \<and> c \<le> 56319 \<and> (case s of [] \<Rightarrow> False | d # _ \<Rightarrow> 56320 \<le> d \<and> d \<le> 57343))
      \<and> json_text s)"

lemma json_text_scalar: "\<forall>c \<in> set s. is_scalar c \<Longrightarrow> json_text s"
  by (induction s) (auto simp: is_scalar_def is_surrogate_def split: list.splits)

lemma hex_value_digit: "0 \<le> d \<Longrightarrow> d < 16 \<Longrightarrow> hex_value (hex_digit d) = Some d"
  by (auto simp: hex_value_def hex_digit_def)

lemma hex4_value_digits:
  assumes "w \<in> {0..<16}" and "x \<in> {0..<16}" and "y \<in> {0..<16}" and "z \<in> {0..<16}"
  shows "hex4_value ([hex_digit w, hex_digit x, hex_digit y, hex_digit z] @ r)
    = Some (4096 * w + 256 * x + 16 * y + z)"
  using assms by (simp add: hex4_value_def hex_value_digit)

lemma hex_digits_sum:
  assumes "0 \<le> (c :: int)" and "c < 65536"
  shows "4096 * (c div 4096 mod 16) + 256 * (c div 256 mod 16) + 16 * (c div 16 mod 16) + c mod 16 = c"
proof -
  have q: "c div 256 = c div 16 div 16" "c div 4096 = c div 16 div 16 div 16"
    by (simp_all add: zdiv_zmult2_eq [symmetric])
  have "c div 16 div 16 div 16 mod 16 = c div 16 div 16 div 16"
    unfolding q(2) [symmetric] using assms by (intro mod_pos_pos_trivial) (simp_all add: pos_imp_zdiv_nonneg_iff)
  then show ?thesis
    unfolding q using mult_div_mod_eq [of 16 c] mult_div_mod_eq [of 16 "c div 16"]
      mult_div_mod_eq [of 16 "c div 16 div 16"] by linarith
qed

lemma hex4_value_hex4:
  assumes "0 \<le> c" and "c < 65536"
  shows "hex4_value (hex4 c @ r) = Some c"
  unfolding hex4_def by (subst hex4_value_digits) (simp_all only: hex_digits_sum [OF assms], simp_all)

lemma length_hex4 [simp]: "length (hex4 c) = 4"
  by (simp add: hex4_def)

lemma drop_hex4 [simp]: "drop 4 (hex4 c @ r) = r" "drop 6 (hex4 c @ a # b # r) = r"
  by (simp_all add: hex4_def)

text \<open>An escape for one code unit is read back, unless it is a high surrogate before an escaped low one.\<close>

lemma json_escape_u:
  assumes "0 \<le> c" and "c < 65536"
    and "55296 \<le> c \<Longrightarrow> c \<le> 56319 \<Longrightarrow> is_prefix [92, 117] r \<Longrightarrow>
           \<exists>l. hex4_value (drop 2 r) = Some l \<and> \<not> (56320 \<le> l \<and> l \<le> 57343)"
  shows "json_escape (117 # hex4 c @ r) = Some (c, 5)"
proof (cases "55296 \<le> c \<and> c \<le> 56319 \<and> is_prefix [92, 117] r")
  case True
  with assms(3) obtain l where l: "hex4_value (drop 2 r) = Some l" "\<not> (56320 \<le> l \<and> l \<le> 57343)" by blast
  have "drop 6 (hex4 c @ r) = drop 2 r" by (simp add: hex4_def numeral_eq_Suc)
  with True l assms(1,2) show ?thesis by (simp add: json_escape_def hex4_value_hex4)
next
  case False
  then show ?thesis using assms(1,2) by (auto simp: json_escape_def hex4_value_hex4)
qed

lemma json_escape_pair:
  assumes "65536 \<le> c" and "c \<le> 1114111"
  shows "json_escape (117 # hex4 (55296 + (c - 65536) div 1024)
             @ 92 # 117 # hex4 (56320 + (c - 65536) mod 1024) @ r) = Some (c, 11)"
proof -
  let ?h = "55296 + (c - 65536) div 1024" and ?l = "56320 + (c - 65536) mod 1024"
  have "0 \<le> (c - 65536) div 1024" "(c - 65536) div 1024 < 1024" "0 \<le> (c - 65536) mod 1024" "(c - 65536) mod 1024 < 1024"
    using assms by (simp_all add: pos_imp_zdiv_nonneg_iff)
  then have h: "0 \<le> ?h" "?h < 65536" "55296 \<le> ?h" "?h \<le> 56319"
    and l: "0 \<le> ?l" "?l < 65536" "56320 \<le> ?l" "?l \<le> 57343" by simp_all
  have "65536 + (?h - 55296) * 1024 + (?l - 56320) = c"
    using mult_div_mod_eq [of 1024 "c - 65536"] by simp
  with h l show ?thesis by (simp add: json_escape_def hex4_value_hex4)
qed

text \<open>The four shapes of an escaped character.\<close>

lemma json_esc_cases:
  assumes "0 \<le> c"
  obtains (simple) e where "json_esc c = [92, e]" and "e \<noteq> 117" and "simple_escape e = Some c"
  | (plain) "json_esc c = [c]" and "32 \<le> c" and "c \<noteq> 34" and "c \<noteq> 92"
  | (u) "json_esc c = 92 # 117 # hex4 c" and "c < 65536"
  | (pair) "json_esc c = 92 # 117 # hex4 (55296 + (c - 65536) div 1024)
        @ 92 # 117 # hex4 (56320 + (c - 65536) mod 1024)" and "65536 \<le> c"
proof -
  consider "c \<in> {34, 92, 10, 13, 9, 12, 8}" | "c \<notin> {34, 92, 10, 13, 9, 12, 8}" "32 \<le> c \<and> c \<le> 126"
    | "c \<notin> {34, 92, 10, 13, 9, 12, 8}" "\<not> (32 \<le> c \<and> c \<le> 126)" "c < 65536" | "65536 \<le> c"
    by fastforce
  then show thesis
  proof cases
    case 1
    then show thesis by (auto intro: simple simp: json_esc_def simple_escape_def)
  next
    case 2
    then have "json_esc c = [c]" by (simp add: json_esc_def)
    with 2 show thesis by (intro plain) auto
  next
    case 3
    then have "json_esc c = json_u c" by (auto simp: json_esc_def)
    with 3 show thesis by (intro u) (simp_all add: json_u_def)
  next
    case 4
    then show thesis by (intro pair) (simp_all add: json_esc_def json_u_def)
  qed
qed

text \<open>What follows a character in the printed text starts with an escaped low surrogate only if the next character is one.\<close>

lemma json_rest_not_low:
  assumes "json_text s" and "case s of [] \<Rightarrow> True | d # _ \<Rightarrow> \<not> (56320 \<le> d \<and> d \<le> 57343)"
    and "is_prefix [92, 117] (concat (map json_esc s) @ 34 # r)"
  shows "\<exists>l. hex4_value (drop 2 (concat (map json_esc s) @ 34 # r)) = Some l \<and> \<not> (56320 \<le> l \<and> l \<le> 57343)"
proof (cases s)
  case (Cons d t)
  let ?t = "concat (map json_esc t) @ 34 # r"
  from assms(1) Cons have d: "0 \<le> d" "d \<le> 1114111" by simp_all
  show ?thesis
  proof (cases rule: json_esc_cases [OF d(1)])
    case (1 e)
    with assms(3) Cons show ?thesis by simp
  next
    case 2
    with assms(3) Cons show ?thesis by simp
  next
    case 3
    with assms(2) d Cons show ?thesis by (simp add: hex4_value_hex4)
  next
    case 4
    then have "0 \<le> 55296 + (d - 65536) div 1024" "55296 + (d - 65536) div 1024 \<le> 56319"
      using d by (simp_all add: pos_imp_zdiv_nonneg_iff)
    with 4 Cons show ?thesis by (simp add: hex4_value_hex4)
  qed
qed (use assms(3) in simp)

lemma json_string_text:
  "json_text s \<Longrightarrow> json_string (concat (map json_esc s) @ 34 # r) = Some (s, r)"
proof (induction s)
  case (Cons c s)
  let ?t = "concat (map json_esc s) @ 34 # r"
  have ih: "json_string ?t = Some (s, r)" using Cons by simp
  have c: "0 \<le> c" "c \<le> 1114111" using Cons.prems by simp_all
  have esc: "json_string (92 # e @ ?t) = Some (c # s, r)" if "json_escape (e @ ?t) = Some (c, length e)" for e
    using that ih by simp
  show ?case
  proof (cases rule: json_esc_cases [OF c(1)])
    case (1 e)
    then have "json_escape ([e] @ ?t) = Some (c, length [e])" by (simp add: json_escape_def)
    from esc [OF this] 1 show ?thesis by simp
  next
    case 2
    with ih show ?thesis by simp
  next
    case 3
    have "json_escape (117 # hex4 c @ ?t) = Some (c, 5)"
    proof (rule json_escape_u [OF c(1) 3(2)])
      assume "55296 \<le> c" "c \<le> 56319" "is_prefix [92, 117] ?t"
      with Cons.prems show "\<exists>l. hex4_value (drop 2 ?t) = Some l \<and> \<not> (56320 \<le> l \<and> l \<le> 57343)"
        by (intro json_rest_not_low) (auto split: list.splits)
    qed
    with esc [of "117 # hex4 c"] 3 show ?thesis by simp
  next
    case 4
    from json_escape_pair [OF 4(2) c(2), of ?t] esc
      [of "117 # hex4 (55296 + (c - 65536) div 1024) @ 92 # 117 # hex4 (56320 + (c - 65536) mod 1024)"] 4
    show ?thesis by simp
  qed
qed simp

section \<open>Numbers\<close>

text \<open>What may stand behind a printed value: nothing, a comma or a closing bracket.\<close>

definition stops :: "str \<Rightarrow> bool" where
  "stops r \<longleftrightarrow> (case r of [] \<Rightarrow> True | c # _ \<Rightarrow> c \<in> {44, 93, 125})"

lemma stops_simps [simp]: "stops []" "stops (44 # r)" "stops (93 # r)" "stops (125 # r)"
  by (simp_all add: stops_def)

lemma stops_prefix: "stops r \<Longrightarrow> c \<notin> {44, 93, 125} \<Longrightarrow> is_prefix [c] (s @ r) = is_prefix [c] s"
  by (cases s; cases r) (auto simp: stops_def)

lemma stops_takeWhile: "stops r \<Longrightarrow> takeWhile is_digit (s @ r) = takeWhile is_digit s"
  by (induction s) (auto simp: stops_def is_digit_def split: list.splits)

lemma frac_len_append: "stops r \<Longrightarrow> frac_len (s @ r) = frac_len s"
proof -
  assume r: "stops r"
  show ?thesis
  proof (cases "is_prefix [46] s")
    case True
    then obtain t where "s = 46 # t" by (cases s) auto
    with r show ?thesis by (simp add: frac_len_def stops_takeWhile)
  next
    case False
    with stops_prefix [OF r, of 46 s] show ?thesis by (simp add: frac_len_def)
  qed
qed

lemma exp_len_append: "stops r \<Longrightarrow> exp_len (s @ r) = exp_len s"
proof -
  assume r: "stops r"
  show ?thesis
  proof (cases "is_prefix [101] s \<or> is_prefix [69] s")
    case True
    then obtain t where s: "s = 101 # t \<or> s = 69 # t" by (cases s) auto
    have p: "is_prefix [43] (t @ r) = is_prefix [43] t" "is_prefix [45] (t @ r) = is_prefix [45] t"
      using stops_prefix [OF r] by simp_all
    have w: "takeWhile is_digit (drop 1 (t @ r)) = takeWhile is_digit (drop 1 t)"
      if "is_prefix [43] t \<or> is_prefix [45] t"
      using that by (cases t) (simp_all add: stops_takeWhile [OF r])
    from s have "is_prefix [101] s \<or> is_prefix [69] s" "is_prefix [101] (s @ r) \<or> is_prefix [69] (s @ r)"
      "drop 1 s = t" "drop 1 (s @ r) = t @ r" "drop 2 s = drop 1 t" "drop 2 (s @ r) = drop 1 (t @ r)"
      by auto
    with p w stops_takeWhile [OF r, of t] show ?thesis
      by (cases "is_prefix [43] t \<or> is_prefix [45] t") (simp_all add: exp_len_def Let_def)
  next
    case False
    with stops_prefix [OF r, of 101 s] stops_prefix [OF r, of 69 s] show ?thesis by (simp add: exp_len_def)
  qed
qed

lemma frac_len_le: "frac_len s \<le> length s"
  using length_takeWhile_le [of is_digit "drop 1 s"] by (cases s) (auto simp: frac_len_def)

lemma exp_len_le: "exp_len s \<le> length s"
proof -
  have "length (takeWhile is_digit (drop n s)) \<le> length s - n" for n
    using length_takeWhile_le [of is_digit "drop n s"] by simp
  from this [of 1] this [of 2] show ?thesis
    by (cases s; cases "tl s") (auto simp: exp_len_def Let_def split: if_splits)
qed

lemma int_part_append: "stops r \<Longrightarrow> int_part (s @ r) = int_part s"
  using stops_prefix [of r 48 s] by (simp add: int_part_def stops_takeWhile)

lemma int_part_le: "length (int_part s) \<le> length s"
  using length_takeWhile_le [of is_digit s] by (cases s) (auto simp: int_part_def)

text \<open>A numeral is read the same whatever follows the value.\<close>

lemma json_number_append:
  assumes r: "stops r"
  shows "json_number (s @ r) = map_option (\<lambda>(v, t). (v, t @ r)) (json_number s)"
proof -
  define s1 where "s1 = (if is_prefix [45] s then drop 1 s else s)"
  define s2 where "s2 = drop (length (int_part s1)) s1"
  define s3 where "s3 = drop (frac_len s2) s2"
  define s4 where "s4 = drop (exp_len s3) s3"
  have "1 \<le> length s" if "is_prefix [45] s" using that by (cases s) auto
  then have e1: "(if is_prefix [45] s then drop 1 (s @ r) else s @ r) = s1 @ r"
    by (cases s) (auto simp: s1_def)
  have e2: "drop (length (int_part s1)) (s1 @ r) = s2 @ r"
    using int_part_le [of s1] by (simp add: s2_def)
  have e3: "drop (frac_len s2) (s2 @ r) = s3 @ r"
    using frac_len_le [of s2] by (simp add: s3_def)
  have e4: "drop (exp_len s3) (s3 @ r) = s4 @ r"
    using exp_len_le [of s3] by (simp add: s4_def)
  have p: "is_prefix [45] (s @ r) = is_prefix [45] s" using stops_prefix [OF r, of 45 s] by simp
  have l: "length (s @ r) - length (s4 @ r) = length s - length s4" by simp
  have "length s4 \<le> length s" by (simp add: s4_def s3_def s2_def s1_def)
  then have t: "take (length s - length s4) (s @ r) = take (length s - length s4) s" by simp
  show ?thesis
    unfolding json_number_def Let_def e1 e2 e3 e4 s1_def [symmetric] s2_def [symmetric]
      s3_def [symmetric] s4_def [symmetric] int_part_append [OF r] frac_len_append [OF r] exp_len_append [OF r] p l t
    by simp
qed

lemma digits_value_append:
  "\<forall>c \<in> set s. is_digit c \<Longrightarrow> digits_value a (s @ t) = digits_value (the (digits_value a s)) t"
  by (induction s arbitrary: a) simp_all

lemma nat_digits_digit: "c \<in> set (nat_digits n) \<Longrightarrow> is_digit c"
  using nat_digits_ascii by (auto simp: is_digit_def)

lemma digits_value_nat_digits: "digits_value 0 (nat_digits n) = Some (int n)"
proof (induction n rule: nat_digits.induct)
  case (1 n)
  show ?case
  proof (cases "n < 10")
    case True
    then show ?thesis by (simp add: nat_digits.simps [of n] is_digit_def)
  next
    case False
    have "digits_value 0 (nat_digits (n div 10) @ [48 + int (n mod 10)])
        = digits_value (the (digits_value 0 (nat_digits (n div 10)))) [48 + int (n mod 10)]"
      by (rule digits_value_append) (simp add: nat_digits_digit)
    also have "\<dots> = Some (int n)"
      using 1 [OF False] by (simp add: is_digit_def) (simp add: zmod_int zdiv_int)
    finally show ?thesis using False by (simp add: nat_digits.simps [of n])
  qed
qed

lemma nat_digits_zero: "is_prefix [48] (nat_digits n) \<Longrightarrow> nat_digits n = [48]"
proof (induction n rule: nat_digits.induct)
  case (1 n)
  show ?case
  proof (cases "n < 10")
    case True
    with 1 have "n = 0" by (simp add: nat_digits.simps [of n])
    then show ?thesis by (simp add: nat_digits.simps [of 0])
  next
    case False
    then have n: "nat_digits n = nat_digits (n div 10) @ [48 + int (n mod 10)]"
      by (simp add: nat_digits.simps [of n])
    moreover have "nat_digits (n div 10) \<noteq> []" by simp
    ultimately have "is_prefix [48] (nat_digits (n div 10))"
      using "1.prems" by (cases "nat_digits (n div 10)") auto
    with 1 False have "nat_digits (n div 10) = [48]" by blast
    then have "n div 10 = 0" using digits_value_nat_digits [of "n div 10"] by (simp add: is_digit_def)
    with False show ?thesis by simp
  qed
qed

lemma json_number_int: "json_number (int_str i) = Some (PInt i, [])"
proof -
  have d: "\<forall>c \<in> set (nat_digits n). is_digit c" for n by (simp add: nat_digits_digit)
  have ip: "int_part (nat_digits n) = nat_digits n" for n
    using d [of n] nat_digits_zero [of n] by (auto simp: int_part_def takeWhile_eq_all_conv)
  have "\<not> is_prefix [45] (nat_digits n)" for n
    using d [of n] by (cases "nat_digits n") (auto simp: is_digit_def)
  with ip show ?thesis
    by (auto simp: json_number_def int_str_def Let_def digits_value_nat_digits frac_len_def exp_len_def)
qed

section \<open>Values\<close>

definition float_text :: "str \<Rightarrow> bool" where
  "float_text t \<longleftrightarrow> t = lit ''NaN'' \<or> t = lit ''Infinity'' \<or> t = lit ''-Infinity'' \<or> json_number t = Some (PFloat t, [])"

fun json_exact :: "pyval \<Rightarrow> bool" and json_exact_list :: "pyval list \<Rightarrow> bool"
and json_exact_items :: "dict \<Rightarrow> bool" where
  "json_exact (PFloat t) = float_text t"
| "json_exact (PStr s) = json_text s"
| "json_exact (PList xs) = json_exact_list xs"
| "json_exact (PDict d) = (distinct (map fst d) \<and> json_exact_items d)"
| "json_exact (PTicketStatus s) = False"
| "json_exact (PRunStatus s) = False"
| "json_exact (PSummary d) = False"
| "json_exact v = True"
| "json_exact_list [] = True"
| "json_exact_list (x # xs) = (json_exact x \<and> json_exact_list xs)"
| "json_exact_items [] = True"
| "json_exact_items ((k, v) # d) = (json_text k \<and> json_exact v \<and> json_exact_items d)"

lemma json_number_head: "json_number s = Some q \<Longrightarrow> \<exists>c cs. s = c # cs \<and> (c = 45 \<or> is_digit c)"
proof (cases s)
  case (Cons c cs)
  assume "json_number s = Some q"
  with Cons have "c = 45 \<or> is_digit c"
    by (auto simp: json_number_def Let_def int_part_def is_digit_def split: if_splits)
  with Cons show ?thesis by blast
qed (simp add: json_number_def int_part_def)

lemma json_literal_number:
  assumes "json_number s = Some (v, [])" and "stops r"
  shows "json_literal (s @ r) = Some (v, r)"
proof -
  obtain c cs where s: "s = c # cs" and c: "c = 45 \<or> is_digit c" using json_number_head [OF assms(1)] by blast
  have "json_number (s @ r) = Some (v, r)" using assms by (simp add: json_number_append)
  moreover have "\<not> is_prefix (lit ''null'') (s @ r)" "\<not> is_prefix (lit ''true'') (s @ r)" "\<not> is_prefix (lit ''false'') (s @ r)"
    using c unfolding s by (auto simp: lit_def is_digit_def)
  ultimately show ?thesis by (simp add: json_literal_def)
qed

lemma json_number_no_digit: "(case s of c # _ \<Rightarrow> \<not> is_digit c \<and> c \<noteq> 45 | [] \<Rightarrow> True) \<Longrightarrow> json_number s = None"
  by (cases "json_number s") (auto dest!: json_number_head)

lemma json_literal_float:
  assumes "float_text t" and "stops r"
  shows "json_literal (t @ r) = Some (PFloat t, r)" and "\<exists>c cs. t = c # cs \<and> c \<notin> {34, 91, 123}"
proof -
  consider "t = lit ''NaN''" | "t = lit ''Infinity''" | "t = lit ''-Infinity''" | "json_number t = Some (PFloat t, [])"
    using assms(1) unfolding float_text_def by blast
  then have "json_literal (t @ r) = Some (PFloat t, r) \<and> (\<exists>c cs. t = c # cs \<and> c \<notin> {34, 91, 123})"
  proof cases
    case 3
    have "json_number (45 # 73 # x) = None" for x
      by (simp add: json_number_def int_part_def is_digit_def)
    with 3 show ?thesis by (simp add: json_literal_def lit_def)
  next
    case 4
    with json_literal_number [OF 4 assms(2)] json_number_head [OF 4] show ?thesis
      by (auto simp: is_digit_def)
  qed (simp_all add: json_literal_def lit_def json_number_no_digit is_digit_def)
  then show "json_literal (t @ r) = Some (PFloat t, r)" "\<exists>c cs. t = c # cs \<and> c \<notin> {34, 91, 123}" by simp_all
qed

text \<open>Parsing with any fuel is parsing with enough (\<open>json_parsers_fuel\<close>).\<close>

lemma fuelled_value: "json_value k s = Some (v, r) \<Longrightarrow> fuelled json_value s v r"
  and fuelled_elements: "json_elements k s = Some (xs, r) \<Longrightarrow> fuelled json_elements s xs r"
  and fuelled_members: "json_members k s = Some (ps, r) \<Longrightarrow> fuelled json_members s ps r"
  using json_parsers_fuel [of k] by blast+

lemma fuelled_value_literal:
  assumes "json_literal s = Some (v, r)" and "\<exists>c cs. s = c # cs \<and> c \<notin> {34, 91, 123}"
  shows "fuelled json_value s v r"
  using assms by (intro fuelled_value [of "Suc 0"]) auto

lemma fuelled_some: "fuelled f s x r \<Longrightarrow> f (length s) s = Some (x, r)"
  by (simp add: fuelled_def)

lemma fuelled_more: "fuelled f s x r \<Longrightarrow> length s \<le> m \<Longrightarrow> f m s = Some (x, r)"
  by (simp add: fuelled_def)

lemma json_ws_id: "(case s of [] \<Rightarrow> True | c # _ \<Rightarrow> c \<notin> {32, 9, 10, 13}) \<Longrightarrow> json_ws s = s"
  by (cases s) (auto simp: json_ws_def)

text \<open>What a printed value starts with: never blank, never a byte order
  mark, and never the bracket that ends an empty list or dict.\<close>

definition starts_ok :: "str \<Rightarrow> bool" where
  "starts_ok s \<longleftrightarrow> (\<exists>c cs. s = c # cs \<and> c \<notin> {32, 9, 10, 13, 93, 125, 65279})"

lemma starts_ok_append: "starts_ok s \<Longrightarrow> starts_ok (s @ t)"
  by (auto simp: starts_ok_def)

lemma starts_ok_ws: "starts_ok s \<Longrightarrow> json_ws s = s"
  by (auto simp: starts_ok_def json_ws_def)

lemma json_dumps_starts: "json_exact v \<Longrightarrow> starts_ok (json_dumps P v)"
proof (cases v)
  case (PFloat t)
  assume "json_exact v"
  with PFloat have "float_text t" by simp
  then have "t = lit ''NaN'' \<or> t = lit ''Infinity'' \<or> t = lit ''-Infinity'' \<or> (\<exists>c cs. t = c # cs \<and> (c = 45 \<or> is_digit c))"
    unfolding float_text_def using json_number_head by blast
  with PFloat show ?thesis by (auto simp: starts_ok_def lit_def is_digit_def)
next
  case (PInt i)
  with json_number_head [OF json_number_int [of i]] show ?thesis by (auto simp: starts_ok_def is_digit_def)
qed (auto simp: starts_ok_def lit_def json_str_def)

lemma dict_of_pairs_distinct: "distinct (map fst d) \<Longrightarrow> dict_of_pairs d = d"
proof -
  have "foldl (\<lambda>d (k, v). dict_set d k v) a d = a @ d" if "distinct (map fst (a @ d))" for a
    using that
  proof (induction d arbitrary: a)
    case (Cons kv d)
    obtain k v where kv: "kv = (k, v)" by (cases kv)
    with Cons.prems have "k \<notin> fst ` set a" by auto
    then have "dict_set a k v = a @ [(k, v)]" by (simp add: dict_set_def)
    with Cons.IH [of "a @ [(k, v)]"] Cons.prems kv show ?case by simp
  qed simp
  from this [of "[]"] show "distinct (map fst d) \<Longrightarrow> dict_of_pairs d = d" by (simp add: dict_of_pairs_def)
qed

section \<open>What is printed is read back\<close>

text \<open>Enough fuel for a whole text is enough for each of its parts.\<close>

lemma fuelled_at:
  assumes "fuelled f s x r" and "length s \<le> n"
  shows "f n s = Some (x, r)"
  by (rule fuelled_more [OF assms])

lemma elements_one:
  assumes "fuelled json_value (s @ 93 # r) x (93 # r)"
  shows "fuelled json_elements (s @ 93 # r) [x] r"
proof -
  obtain n where "length (s @ 93 # r) \<le> n" by blast
  from fuelled_at [OF assms this] show ?thesis
    by (intro fuelled_elements [of "Suc n"]) (simp add: json_ws_id)
qed

lemma elements_more:
  assumes "fuelled json_value (s @ 44 # 32 # t) x (44 # 32 # t)" and "starts_ok t" and "fuelled json_elements t xs r"
  shows "fuelled json_elements (s @ 44 # 32 # t) (x # xs) r"
proof -
  have w: "json_ws (32 # t) = t" using starts_ok_ws [OF assms(2)] by (simp add: json_ws_def)
  obtain n where n: "length (s @ 44 # 32 # t) \<le> n" by blast
  then have "length t \<le> n" by simp
  from fuelled_at [OF assms(1) n] fuelled_at [OF assms(3) this] w show ?thesis
    by (intro fuelled_elements [of "Suc n"]) (simp add: json_ws_id)
qed

lemma member_key:
  assumes "json_text k" and "starts_ok (s @ t)"
  shows "json_string (concat (map json_esc k) @ 34 # 58 # 32 # s @ t) = Some (k, 58 # 32 # s @ t)"
    and "json_ws (32 # s @ t) = s @ t"
  using json_string_text [OF assms(1)] starts_ok_ws [OF assms(2)] by (simp_all add: json_ws_def)

lemma members_one:
  assumes "json_text k" and "starts_ok (s @ 125 # r)" and "fuelled json_value (s @ 125 # r) v (125 # r)"
  shows "fuelled json_members (json_str k @ [58, 32] @ s @ 125 # r) [(k, v)] r"
proof -
  obtain n where "length (s @ 125 # r) \<le> n" by blast
  from fuelled_at [OF assms(3) this] member_key [OF assms(1,2)] show ?thesis
    by (intro fuelled_members [of "Suc n"]) (simp add: json_str_def json_ws_id)
qed

lemma members_more:
  assumes "json_text k" and "starts_ok (s @ 44 # 32 # t)" and "fuelled json_value (s @ 44 # 32 # t) v (44 # 32 # t)"
    and "starts_ok t" and "fuelled json_members t d r"
  shows "fuelled json_members (json_str k @ [58, 32] @ s @ 44 # 32 # t) ((k, v) # d) r"
proof -
  have w: "json_ws (32 # t) = t" using starts_ok_ws [OF assms(4)] by (simp add: json_ws_def)
  obtain n where n: "length (s @ 44 # 32 # t) \<le> n" by blast
  then have "length t \<le> n" by simp
  from fuelled_at [OF assms(3) n] fuelled_at [OF assms(5) this] member_key [OF assms(1,2)] w show ?thesis
    by (intro fuelled_members [of "Suc n"]) (simp add: json_str_def json_ws_id)
qed

lemma value_list:
  assumes "starts_ok t" and "fuelled json_elements t xs r"
  shows "fuelled json_value (91 # t) (PList xs) r"
proof -
  obtain c cs where c: "t = c # cs" "c \<noteq> 93" using assms(1) by (auto simp: starts_ok_def)
  with starts_ok_ws [OF assms(1)] fuelled_some [OF assms(2)] show ?thesis
    by (intro fuelled_value [of "Suc (length t)"]) simp
qed

lemma value_dict:
  assumes "starts_ok t" and "fuelled json_members t d r" and "distinct (map fst d)"
  shows "fuelled json_value (123 # t) (PDict d) r"
proof -
  obtain c cs where c: "t = c # cs" "c \<noteq> 125" using assms(1) by (auto simp: starts_ok_def)
  with starts_ok_ws [OF assms(1)] fuelled_some [OF assms(2)] dict_of_pairs_distinct [OF assms(3)] show ?thesis
    by (intro fuelled_value [of "Suc (length t)"]) simp
qed

lemma starts_ok_key: "starts_ok (json_str k @ s)"
  by (simp add: starts_ok_def json_str_def)

lemma join_list_starts: "json_exact_list xs \<Longrightarrow> xs \<noteq> [] \<Longrightarrow> starts_ok (py_join [44, 32] (json_dumps_list P xs) @ s)"
  by (cases xs; cases "tl xs") (auto simp: json_dumps_starts starts_ok_append)

lemma join_items_starts: "d \<noteq> [] \<Longrightarrow> starts_ok (py_join [44, 32] (json_dumps_items P d) @ s)"
  by (cases d; cases "tl d") (auto simp: starts_ok_key)

lemma json_dumps_parsed:
  "json_exact v \<Longrightarrow> \<forall>r. stops r \<longrightarrow> fuelled json_value (json_dumps P v @ r) v r"
  "json_exact_list xs \<Longrightarrow> xs \<noteq> [] \<longrightarrow>
     (\<forall>r. fuelled json_elements (py_join [44, 32] (json_dumps_list P xs) @ 93 # r) xs r)"
  "json_exact_items d \<Longrightarrow> d \<noteq> [] \<longrightarrow>
     (\<forall>r. fuelled json_members (py_join [44, 32] (json_dumps_items P d) @ 125 # r) d r)"
proof (induction P v and P xs and P d rule: json_dumps_json_dumps_list_json_dumps_items.induct)
  case (3 P i)
  show ?case
    using json_literal_number [OF json_number_int [of i]] json_number_head [OF json_number_int [of i]]
    by (auto intro!: fuelled_value_literal simp: is_digit_def)
next
  case (4 P t)
  then show ?case
    using json_literal_float [of t] by (fastforce intro!: fuelled_value_literal)
next
  case (5 P s)
  then show ?case
    by (auto intro!: fuelled_value [of "Suc 0"] simp: json_str_def json_string_text)
next
  case (6 P xs)
  show ?case
  proof (cases "xs = []")
    case True
    then show ?thesis by (auto intro!: fuelled_value [of "Suc 0"] simp: json_ws_id)
  next
    case False
    with 6 show ?thesis by (auto intro!: value_list join_list_starts)
  qed
next
  case (7 P d)
  show ?case
  proof (cases "d = []")
    case True
    then show ?thesis by (auto intro!: fuelled_value [of "Suc 0"] simp: json_ws_id)
  next
    case False
    with 7 show ?thesis by (auto intro!: value_dict join_items_starts)
  qed
next
  case (12 P x xs)
  show ?case
  proof (cases xs)
    case Nil
    with 12 show ?thesis by (auto intro!: elements_one)
  next
    case (Cons y ys)
    with 12 show ?thesis
      using elements_more join_list_starts [of xs P] by (auto simp del: json_elements.simps)
  qed
next
  case (14 P k v d)
  note st = json_dumps_starts [of v P, THEN starts_ok_append]
  show ?case
  proof (cases d)
    case Nil
    with 14 st members_one [of k "json_dumps P v"] show ?thesis by auto
  next
    case (Cons y ys)
    obtain k' v' where "y = (k', v')" by (cases y)
    with Cons 14 st members_more [of k "json_dumps P v"] join_items_starts [of d P] show ?thesis by auto
  qed
qed (auto intro!: fuelled_value_literal simp: json_literal_def lit_def)

lemma json_loads_dumps:
  assumes "json_exact v"
  shows "json_loads (json_dumps P v) = Some v"
proof -
  have f: "fuelled json_value (json_dumps P v) v []"
    using json_dumps_parsed(1) [OF assms, of P, rule_format, of "[]"] by simp
  have s: "starts_ok (json_dumps P v)" by (rule json_dumps_starts [OF assms])
  have "json_value (Suc (length (json_dumps P v))) (json_ws (json_dumps P v)) = Some (v, [])"
    unfolding starts_ok_ws [OF s] using fuelled_more [OF f, of "Suc (length (json_dumps P v))"] by simp
  moreover have "\<not> is_prefix [65279] (json_dumps P v)"
    using s by (auto simp: starts_ok_def)
  ultimately show ?thesis by (simp add: json_loads_def json_ws_id del: json_value.simps)
qed

section \<open>What the server puts into a frame\<close>

text \<open>
  Payloads as the runner passes them: JSON values, enums and \<open>DecisionSummary\<close> objects, whose
  texts are Unicode scalars.
\<close>

fun sendable :: "pyval \<Rightarrow> bool" and sendable_list :: "pyval list \<Rightarrow> bool" and sendable_items :: "dict \<Rightarrow> bool" where
  "sendable (PFloat t) = float_text t"
| "sendable (PStr s) = (\<forall>c \<in> set s. is_scalar c)"
| "sendable (PSummary d) = (\<forall>c \<in> set (summary d). is_scalar c)"
| "sendable (PList xs) = sendable_list xs"
| "sendable (PDict d) = (distinct (map fst d) \<and> sendable_items d)"
| "sendable _ = True"
| "sendable_list [] = True"
| "sendable_list (x # xs) = (sendable x \<and> sendable_list xs)"
| "sendable_items [] = True"
| "sendable_items ((k, v) # d) = (json_text k \<and> sendable v \<and> sendable_items d)"

lemma set_rx_sub: "set (rx_sub p new s) \<subseteq> set new \<union> set s"
proof (induction p new s rule: rx_sub.induct)
  case (2 p new c cs)
  show ?case
  proof (cases "rx_rests p (c # cs)")
    case Nil
    with 2 show ?thesis by (auto simp: rx_sub.simps(2))
  next
    case (Cons r rs)
    show ?thesis
    proof (cases "length r \<le> length cs")
      case True
      have "r \<in> set (rx_rests p (c # cs))" using Cons by simp
      then obtain u where "c # cs = u @ r" unfolding set_rx_rests by blast
      then have "set r \<subseteq> set (c # cs)" by (metis Un_upper2 set_append)
      with 2(2) [OF Cons True] Cons True show ?thesis by (auto simp: rx_sub.simps(2))
    next
      case False
      with 2(3) [OF Cons False] Cons show ?thesis by (auto simp: rx_sub.simps(2))
    qed
  qed
qed simp

lemma REDACTED_scalar: "c \<in> set REDACTED \<Longrightarrow> is_scalar c"
  by (auto simp: REDACTED_def lit_def is_scalar_def is_surrogate_def)

lemma redact_text_scalar: "\<forall>c \<in> set s. is_scalar c \<Longrightarrow> \<forall>c \<in> set (redact_text s). is_scalar c"
proof -
  have "\<forall>c \<in> set (foldl (\<lambda>t pattern. rx_sub pattern REDACTED t) s ps). is_scalar c"
    if "\<forall>c \<in> set s. is_scalar c" for ps
    using that
  proof (induction ps arbitrary: s)
    case (Cons p ps)
    have "\<forall>c \<in> set (rx_sub p REDACTED s). is_scalar c"
      using set_rx_sub [of p REDACTED s] Cons.prems REDACTED_scalar by blast
    from Cons.IH [OF this] show ?case by simp
  qed simp
  then show "\<forall>c \<in> set s. is_scalar c \<Longrightarrow> \<forall>c \<in> set (redact_text s). is_scalar c"
    by (simp add: redact_text_def)
qed

lemma redact_text_json: "\<forall>c \<in> set s. is_scalar c \<Longrightarrow> json_text (redact_text s)"
  by (rule json_text_scalar [OF redact_text_scalar])

lemma lit_scalar: "\<forall>c \<in> set (lit s). is_scalar c"
proof -
  have b: "0 \<le> (of_char c :: int) \<and> (of_char c :: int) < 256" for c by (cases c) simp
  have "is_scalar (of_char c)" for c :: char
    using b [of c] unfolding is_scalar_def is_surrogate_def by linarith
  then show ?thesis by (simp add: lit_def)
qed

lemma json_text_lit [simp]: "json_text (lit s)"
  by (rule json_text_scalar [OF lit_scalar])

lemma status_scalar: "\<forall>c \<in> set (ticket_status_value t). is_scalar c" "\<forall>c \<in> set (run_status_value r). is_scalar c"
  by (cases t; simp add: lit_scalar) (cases r; simp add: lit_scalar)

lemma redacted_exact:
  "sendable v \<Longrightarrow> json_exact (redact_value v)"
  "sendable_list vs \<Longrightarrow> json_exact_list (redact_values vs)"
  "sendable_items d \<Longrightarrow> json_exact_items (redact_items d)"
  by (induction v and vs and d rule: redact_value_redact_values_redact_items.induct)
     (auto simp: redacted_keys redact_text_json status_scalar)

text \<open>A numeral is ASCII.\<close>

definition numeral_char :: "int \<Rightarrow> bool" where
  "numeral_char c \<longleftrightarrow> is_digit c \<or> c \<in> {43, 45, 46, 69, 101}"

lemma numeral_char_ascii: "\<forall>c \<in> set t. numeral_char c \<Longrightarrow> ascii_text t"
  by (auto simp: ascii_text_def numeral_char_def is_digit_def)

lemma takeWhile_chars: "\<forall>c \<in> set (takeWhile is_digit s). numeral_char c"
  by (auto simp: numeral_char_def dest: set_takeWhileD)

lemma take_takeWhile: "take (length (takeWhile Q s)) s = takeWhile Q s"
  by (metis takeWhile_eq_take length_takeWhile_le take_all_iff take_take min.absorb2)

lemma int_part_chars: "\<forall>c \<in> set (take (length (int_part s)) s). numeral_char c"
proof (cases "is_prefix [48] s")
  case True
  then show ?thesis by (cases s) (auto simp: int_part_def numeral_char_def is_digit_def)
next
  case False
  then show ?thesis using takeWhile_chars [of s] by (simp add: int_part_def take_takeWhile)
qed

lemma frac_chars: "\<forall>c \<in> set (take (frac_len s) s). numeral_char c"
proof (cases s)
  case (Cons d t)
  then show ?thesis using takeWhile_chars [of t]
    by (auto simp: frac_len_def take_takeWhile numeral_char_def)
qed (simp add: frac_len_def)

lemma exp_chars: "\<forall>c \<in> set (take (exp_len s) s). numeral_char c"
proof (cases "is_prefix [101] s \<or> is_prefix [69] s")
  case True
  then obtain d t where s: "s = d # t" "d = 101 \<or> d = 69" by (cases s) auto
  show ?thesis
  proof (cases "is_prefix [43] t \<or> is_prefix [45] t")
    case True
    then obtain e u where "t = e # u" "e = 43 \<or> e = 45" by (cases t) auto
    with s takeWhile_chars [of u] show ?thesis
      by (auto simp: exp_len_def Let_def take_takeWhile numeral_char_def)
  next
    case False
    with s takeWhile_chars [of t] show ?thesis
      by (auto simp: exp_len_def Let_def take_takeWhile numeral_char_def)
  qed
qed (simp add: exp_len_def)

lemma json_number_chars:
  assumes "json_number s = Some (v, [])"
  shows "\<forall>c \<in> set s. numeral_char c"
proof -
  define s1 where "s1 = (if is_prefix [45] s then drop 1 s else s)"
  define s2 where "s2 = drop (length (int_part s1)) s1"
  define s3 where "s3 = drop (frac_len s2) s2"
  have "drop (exp_len s3) s3 = []"
    using assms unfolding json_number_def Let_def s1_def [symmetric] s2_def [symmetric] s3_def [symmetric]
    by (simp split: if_splits)
  then have "s3 = take (exp_len s3) s3" by (metis append_Nil2 append_take_drop_id)
  then have "s1 = take (length (int_part s1)) s1 @ take (frac_len s2) s2 @ take (exp_len s3) s3"
    by (metis append_take_drop_id s2_def s3_def)
  then have "\<forall>c \<in> set s1. numeral_char c"
    using int_part_chars [of s1] frac_chars [of s2] exp_chars [of s3] by (metis Un_iff set_append)
  moreover have "set s \<subseteq> insert 45 (set s1)" by (cases s) (auto simp: s1_def)
  ultimately show ?thesis by (auto simp: numeral_char_def)
qed

lemma float_text_ascii: "float_text t \<Longrightarrow> ascii_text t"
  unfolding float_text_def
  by (elim disjE) (simp_all add: lit_ascii numeral_char_ascii [OF json_number_chars])

lemma json_exact_floats:
  "json_exact v \<Longrightarrow> floats_ascii v"
  "json_exact_list xs \<Longrightarrow> floats_ascii_list xs"
  "json_exact_items d \<Longrightarrow> floats_ascii_items d"
  by (induction v and xs and d rule: json_exact_json_exact_list_json_exact_items.induct)
     (auto simp: float_text_ascii)

lemma ascii_json_text: "ascii_text s \<Longrightarrow> json_text s"
  by (rule json_text_scalar) (auto simp: ascii_text_def is_scalar_def is_surrogate_def)

lemma cap_payload_exact:
  assumes "distinct (map fst d)" and "json_exact_items d"
  shows "distinct (map fst (cap_payload P d n)) \<and> json_exact_items (cap_payload P d n)"
proof -
  have "ascii_text (json_dumps P (PDict d))"
    using json_dumps_ascii(1) [of "PDict d" P] json_exact_floats(3) [OF assms(2)] by simp
  then have "json_text (take m (json_dumps P (PDict d)))" for m
    by (intro ascii_json_text ascii_take)
  with assms show ?thesis by (simp add: cap_payload_def Let_def del: json_dumps.simps)
qed

section \<open>The line a client parses\<close>

text \<open>\<open>json.loads(line[len('data:'):].strip())\<close> for a line that starts with \<open>data:\<close>.\<close>

definition parse_sse_line :: "str \<Rightarrow> pyval option" where
  "parse_sse_line line = json_loads (py_strip (drop 5 line))"

lemma strip_solid:
  assumes "s \<noteq> []" and "\<not> is_space (hd s)" and "\<not> is_space (last s)"
  shows "py_strip (32 # s) = s"
proof -
  have "is_space 32" by (simp add: is_space_def)
  then have "dropWhile is_space (32 # s) = s" using assms(1,2) by (cases s) simp_all
  moreover have "dropWhile is_space (rev s) = rev s"
    using assms(1,3) by (cases s rule: rev_cases) simp_all
  ultimately show ?thesis by (simp add: py_strip_def)
qed

lemma splitlines_ascii:
  "ascii_text s \<Longrightarrow> s \<noteq> [] \<Longrightarrow> py_splitlines (s @ 10 # t) = s # py_splitlines t"
proof (induction s)
  case (Cons c s)
  have c: "\<not> is_linebreak c" using Cons.prems(1) by (auto simp: is_linebreak_def)
  show ?case
  proof (cases s)
    case Nil
    with c show ?thesis by (simp add: is_linebreak_def)
  next
    case (Cons d ds)
    with Cons.IH Cons.prems c show ?thesis by simp
  qed
qed simp

lemma envelope_exact:
  assumes "json_text (ev_ts e)" and "json_text (ev_run_id e)" and "\<forall>n. ev_node e = Some n \<longrightarrow> json_text n"
    and "distinct (map fst (ev_payload e))" and "json_exact_items (ev_payload e)"
  shows "json_exact (PDict (envelope_dict e))"
proof -
  have "json_text (event_kind_value (ev_kind e))" by (cases "ev_kind e") simp_all
  with assms show ?thesis by (cases "ev_node e") (simp_all add: envelope_dict_def)
qed

lemma dict_brackets: "hd (json_dumps P (PDict d)) = 123" "last (json_dumps P (PDict d)) = 125" "json_dumps P (PDict d) \<noteq> []"
  by simp_all

section \<open>Properties\<close>

text \<open>
  What \<open>json.dumps\<close> writes, \<open>json.loads\<close> reads back: for every JSON value whose dicts have
  distinct keys and whose texts have no stray surrogate pair the parser returns the very value,
  control characters, quotes, non-ASCII text and nesting included.
\<close>

theorem json_roundtrip:
  assumes "json_exact v"
  shows "json_loads (json_dumps P v) = Some v"
  using assms by (rule json_loads_dumps)

theorem json_roundtrip_witness:
  "json_loads (json_dumps (\<lambda>_. True) (PDict [(lit ''a'', PList [PStr [10, 34, 8364, 128512], PInt (- 7), PNone])]))
     = Some (PDict [(lit ''a'', PList [PStr [10, 34, 8364, 128512], PInt (- 7), PNone])])"
  by (rule json_roundtrip) simp

text \<open>
  C34: a viewer that parses a frame gets the envelope that was sent. Whatever Unicode text, enums
  and summaries the payload of an event holds, its frame is one \<open>data:\<close> line and a blank line, and
  parsing the line gives the six fields of the envelope, the payload redacted and capped.
\<close>

theorem sse_frame_roundtrip:
  assumes "e = make_envelope P ts sq run_id kind node payload"
    and "json_text ts" and "json_text run_id" and "json_text (case node of None \<Rightarrow> [] | Some n \<Rightarrow> n)"
    and "sendable (PDict payload)"
  shows "\<exists>line. py_splitlines (format_sse P e) = [line, []] \<and> is_prefix (lit ''data:'') line
    \<and> parse_sse_line line = Some (PDict (envelope_dict e))
    \<and> ev_payload e = cap_payload P (redact_items payload) 8192"
proof -
  have "distinct (map fst (redact_items payload))" "json_exact_items (redact_items payload)"
    using assms(5) redacted_exact(3) [of payload] by (simp_all add: redacted_keys)
  from cap_payload_exact [OF this, of P MAX_PAYLOAD_BYTES] assms(1-4)
  have x: "json_exact (PDict (envelope_dict e))"
    by (intro envelope_exact) (auto simp: make_envelope_def)
  let ?j = "json_dumps P (PDict (envelope_dict e))"
  have a: "ascii_text ?j" by (rule json_dumps_ascii(1) [OF json_exact_floats(1) [OF x]])
  have "ascii_text (lit ''data: '' @ ?j)" using a by (simp add: lit_def del: json_dumps.simps)
  then have "py_splitlines (format_sse P e) = [lit ''data: '' @ ?j, []]"
    using splitlines_ascii [of "lit ''data: '' @ ?j" "[10]"]
    by (simp add: format_sse_def is_linebreak_def lit_def del: json_dumps.simps)
  moreover have "py_strip (32 # ?j) = ?j"
    by (rule strip_solid) (simp_all only: dict_brackets, simp_all add: is_space_def)
  then have "parse_sse_line (lit ''data: '' @ ?j) = Some (PDict (envelope_dict e))"
    using json_loads_dumps [OF x] by (simp add: parse_sse_line_def lit_def del: json_dumps.simps)
  ultimately show ?thesis using assms(1)
    by (intro exI [of _ "lit ''data: '' @ ?j"]) (simp add: make_envelope_def MAX_PAYLOAD_BYTES_def lit_def del: json_dumps.simps)
qed

theorem sse_frame_roundtrip_witness:
  "\<exists>line. parse_sse_line line = Some (PDict (envelope_dict
     (make_envelope (\<lambda>_. True) (lit ''t'') 3 (lit ''r'') Escalation (Some (lit ''escalate''))
        [(lit ''ticket_status'', PTicketStatus ESCALATED)])))"
  using sse_frame_roundtrip [OF refl, of "lit ''t''" "lit ''r''" "Some (lit ''escalate'')"
      "[(lit ''ticket_status'', PTicketStatus ESCALATED)]" "\<lambda>_. True" 3 Escalation]
  by auto

end
