(* ===== verification/Lifecycle.thy ===== *)
theory Lifecycle
  imports Graph
begin

text \<open>
  What the graph promises about a ticket, as an abstract machine without state, nodes or sandbox,
  and the proof that the graph implements it. The abstract state is the phase the ticket is in, with
  the strikes spent so far, and the number of decisions recorded; \<open>life_step\<close> is the specification,
  \<open>life_of\<close> the abstraction of a configuration, \<open>graph_refines_life\<close> the simulation: every step of
  the graph is a step of the specification. \<open>life_invariant\<close> is then proved on the small machine
  only and carried over.
\<close>

section \<open>The specification\<close>

datatype verdict = Committed | Passed_unchanged | Given_up

datatype life =
    Planning
  | Attempting int
  | Validating int
  | Committing int
  | Escalating int
  | Recording verdict
  | Closing verdict
  | Closed verdict
  | Broken

text \<open>A strike leads to the next attempt while the budget lasts and to the escalation after that.\<close>

definition after_strike :: "int \<Rightarrow> life" where
  "after_strike k = (if k < 3 then Attempting k else Escalating k)"

inductive life_step :: "life \<times> nat \<Rightarrow> life \<times> nat \<Rightarrow> bool" where
  plan: "life_step (Planning, n) (Planning, n)"
| begin_work: "life_step (Planning, n) (Attempting 0, n)"
| attempted: "k < 3 \<Longrightarrow> k \<le> j \<Longrightarrow> j \<le> 3 \<Longrightarrow> life_step (Attempting k, n) (Validating j, n)"
| valid: "life_step (Validating k, n) (Committing k, n)"
| invalid: "life_step (Validating k, n) (after_strike (k + 1), n)"
| committed: "life_step (Committing k, n) (Recording Committed, n)"
| nothing_to_commit: "life_step (Committing k, n) (Recording Passed_unchanged, n)"
| not_committed: "life_step (Committing k, n) (after_strike (k + 1), n)"
| give_up: "3 \<le> k \<Longrightarrow> life_step (Escalating k, n) (Recording Given_up, n)"
| record_decision: "life_step (Recording v, n) (Closing v, Suc n)"
| close: "life_step (Closing v, n) (Closed v, n)"
| break: "p \<noteq> Broken \<Longrightarrow> \<forall>v. p \<noteq> Closed v \<Longrightarrow> life_step (p, n) (Broken, n)"

inductive_cases life_step_ClosedE: "life_step (Closed v, n) q"
inductive_cases life_step_RecordingE: "life_step (Recording v, n) q"

section \<open>The abstraction\<close>

definition verdict_of :: "agent_state \<Rightarrow> verdict" where
  "verdict_of s =
     (if ticket_status s = Some DONE then Committed
      else if escalations s = 0 then Passed_unchanged else Given_up)"

fun phase_of :: "node_name \<Rightarrow> agent_state \<Rightarrow> life" where
  "phase_of Analyzer s = Planning"
| "phase_of Architect s = Planning"
| "phase_of Dispatch s = (if dispatch_router s = None then Closing (verdict_of s) else Planning)"
| "phase_of Executor s = Attempting (strikes s)"
| "phase_of Validator s = Validating (strikes s)"
| "phase_of Oversight_git s = Committing (strikes s)"
| "phase_of Escalate s = Escalating (strikes s)"
| "phase_of Advance s = Recording (verdict_of s)"

fun life_of :: "'w conf \<Rightarrow> life \<times> nat" where
  "life_of (At n s w) = (phase_of n s, length (ledger_of s))"
| "life_of (Ended s w) = (Closed (verdict_of s), length (ledger_of s))"
| "life_of (Failed e s w) = (Broken, length (ledger_of s))"

section \<open>The simulation, node by node\<close>

lemma verdict_settled:
  "committed_end s \<Longrightarrow> verdict_of s = Committed"
  "no_files_end s \<Longrightarrow> verdict_of s = Passed_unchanged"
  "escalated_end E s \<Longrightarrow> verdict_of s = Given_up"
  by (auto simp: verdict_of_def committed_end_def no_files_end_def escalated_end_def)

lemma closed_verdict: "closed_with E s0 s \<Longrightarrow> dispatch_router s = None"
  by (auto simp: closed_with_def intro: settled_ends)

lemma simulate_executor:
  assumes r: "executor_node E s w = (Inr d, w')" and "strikes s < MAX_STRIKES"
  shows "life_step (Attempting (strikes s), n) (Validating (strikes (merge s d)), n)"
proof -
  have "strikes s \<le> strikes (merge s d) \<and> strikes (merge s d) \<le> MAX_STRIKES"
    using r assms(2) by (cases rule: executor_node_cases) (auto simp: strikes_def)
  with assms(2) show ?thesis by (intro life_step.attempted) (simp_all add: MAX_STRIKES_def)
qed

lemma simulate_validator:
  assumes r: "validator_node E s w = (Inr d, w')"
  shows "life_step (Validating (strikes s), n) (phase_of (validator_router (merge s d)) (merge s d), n)"
  using r
proof (cases rule: validator_node_cases)
  case (fail diag)
  then have "strikes (merge s d) = strikes s + 1" "\<not> validated (merge s d)"
    by (simp_all add: strikes_def validated_def)
  with life_step.invalid [of "strikes s" n] show ?thesis
    by (simp add: validator_router_def after_strike_def MAX_STRIKES_def split: if_splits)
qed (simp_all add: validator_router_def validated_def strikes_def life_step.valid)

lemma simulate_oversight:
  assumes r: "oversight_git_node E s w = (Inr d, w')" and inv: "graph_inv E s0 Oversight_git s"
  shows "life_step (Committing (strikes s), n) (phase_of (oversight_git_router (merge s d)) (merge s d), n)"
proof -
  note f = oversight_tn.frame_reads [OF r]
  from inv have i: "ticket_status s \<noteq> Some DONE" "escalations s = 0" by (auto simp: untouched_def)
  from r show ?thesis
  proof (cases rule: oversight_node_deltas)
    case (no_files g)
    then have "ticket_status (merge s d) = ticket_status s" by simp
    with no_files(1) i f life_step.nothing_to_commit show ?thesis
      by (simp add: oversight_git_router_def verdict_of_def)
  next
    case (strike g)
    then have "ticket_status (merge s d) = ticket_status s" "strikes (merge s d) = strikes s + 1"
      by (auto simp: is_strike_def git_strike_def strikes_def)
    with strike(1) i f life_step.not_committed [of "strikes s" n] show ?thesis
      by (simp add: oversight_git_router_def after_strike_def MAX_STRIKES_def split: if_splits)
  next
    case (committed g)
    then have "ticket_status (merge s d) = Some DONE" by (simp add: is_done_def)
    with life_step.committed show ?thesis by (simp add: oversight_git_router_def verdict_of_def)
  qed
qed

lemma ledger_kept:
  assumes "node_fun E n s w = (Inr d, w')" and "n \<noteq> Advance"
  shows "ledger_of (merge s d) = ledger_of s"
proof (cases n)
  case Analyzer
  with assms have "analyzer_node E s w = (Inr d, w')" by simp
  then show ?thesis by (cases rule: analyzer_node_cases) (simp_all add: ledger_of_def)
next
  case Architect
  with assms have "architect_node E s w = (Inr d, w')" by simp
  then show ?thesis by (cases rule: architect_node_cases) (simp_all add: ledger_of_def)
next
  case Executor
  with assms executor_tn.frame_reads(2) [of E s w d w'] show ?thesis by simp
next
  case Validator
  with assms validator_tn.frame_reads(2) [of E s w d w'] show ?thesis by simp
next
  case Oversight_git
  with assms oversight_tn.frame_reads(2) [of E s w d w'] show ?thesis by simp
qed (use assms in \<open>auto simp: dispatch_node_def escalate_node_def Let_def ledger_of_def\<close>)

lemma simulate_node:
  assumes r: "node_fun E n s w = (Inr d, w')" and inv: "graph_inv E s0 n s"
  shows "life_step (phase_of n s, length (ledger_of s))
    (case next_node n (merge s d) of Some m \<Rightarrow> phase_of m (merge s d) | None \<Rightarrow> Closed (verdict_of (merge s d)),
     length (ledger_of (merge s d)))"
proof (cases "n = Advance")
  case True
  with r have d: "d = advance_node s" by simp
  have c: "closed_with E s0 (merge s d)" using inv True unfolding d by (intro inv_advance) simp
  have "verdict_of (merge s d) = verdict_of s" "length (ledger_of (merge s d)) = Suc (length (ledger_of s))"
    by (simp_all add: d advance_node_def verdict_of_def escalations_def ledger_of_def)
  with True closed_verdict [OF c] show ?thesis by (simp add: life_step.record_decision)
next
  case False
  note l = ledger_kept [OF r False]
  show ?thesis
  proof (cases n)
    case Executor
    with r inv simulate_executor [of E s w d w'] l show ?thesis by simp
  next
    case Validator
    with r simulate_validator [of E s w d w'] l show ?thesis by simp
  next
    case Oversight_git
    with r inv simulate_oversight [of E s w d w' s0] l show ?thesis by simp
  next
    case Dispatch
    with r have d: "d = []" by (simp add: dispatch_node_def)
    show ?thesis
    proof (cases "dispatch_router s")
      case None
      with Dispatch d show ?thesis by (simp add: life_step.close)
    next
      case (Some m)
      with inv Dispatch closed_verdict have "fresh s" by fastforce
      with Dispatch d fresh_dispatch show ?thesis by (simp add: fresh_def life_step.begin_work)
    qed
  next
    case Architect
    with r have "architect_node E s w = (Inr d, w')" by simp
    then have "phase_of Dispatch (merge s d) = Planning"
      by (cases rule: architect_node_cases) (use inv Architect in \<open>simp_all add: fresh_dispatch\<close>)
    with Architect l show ?thesis by (simp add: life_step.plan)
  next
    case Escalate
    with r inv have "verdict_of (merge s d) = Given_up"
      by (cases "ne_max_escalations E < escalations s + 1")
         (auto simp: escalate_node_def Let_def verdict_of_def untouched_def escalations_def)
    with Escalate inv l show ?thesis by (simp add: life_step.give_up MAX_STRIKES_def)
  qed (use l False in \<open>simp_all add: life_step.plan\<close>)
qed

lemma simulate_step:
  assumes "graph_step E c c'" and "conf_inv E s0 c"
  shows "life_step (life_of c) (life_of c')"
  using assms
proof (induction rule: graph_step.induct)
  case (move n s w d w' m)
  with simulate_node [of E n s w d w' s0] show ?case by simp
next
  case (finish n s w d w')
  with simulate_node [of E n s w d w' s0] show ?case by simp
next
  case (failure n s w e w')
  have "phase_of n s \<noteq> Broken \<and> (\<forall>v. phase_of n s \<noteq> Closed v)" by (cases n) simp_all
  then show ?case by (simp add: life_step.break)
qed

section \<open>What the specification guarantees\<close>

text \<open>
  On the small machine: the strikes stay between 0 and 4, and the attempts below 3; one decision is
  recorded, exactly when a verdict has been reached, and the verdict does not change any more.
\<close>

fun life_inv :: "nat \<Rightarrow> life \<times> nat \<Rightarrow> bool" where
  "life_inv n0 (Planning, n) \<longleftrightarrow> n = n0"
| "life_inv n0 (Attempting k, n) \<longleftrightarrow> n = n0 \<and> 0 \<le> k \<and> k < 3"
| "life_inv n0 (Validating k, n) \<longleftrightarrow> n = n0 \<and> 0 \<le> k \<and> k \<le> 3"
| "life_inv n0 (Committing k, n) \<longleftrightarrow> n = n0 \<and> 0 \<le> k \<and> k \<le> 3"
| "life_inv n0 (Escalating k, n) \<longleftrightarrow> n = n0 \<and> 3 \<le> k \<and> k \<le> 4"
| "life_inv n0 (Recording v, n) \<longleftrightarrow> n = n0"
| "life_inv n0 (Closing v, n) \<longleftrightarrow> n = Suc n0"
| "life_inv n0 (Closed v, n) \<longleftrightarrow> n = Suc n0"
| "life_inv n0 (Broken, n) \<longleftrightarrow> n = n0 \<or> n = Suc n0"

lemma life_inv_step: "life_step p q \<Longrightarrow> life_inv n0 p \<Longrightarrow> life_inv n0 q"
proof (induction rule: life_step.induct)
  case (break p n)
  then show ?case by (cases p) auto
qed (auto simp: after_strike_def)

lemma life_inv_run: "life_step\<^sup>*\<^sup>* (Planning, n0) q \<Longrightarrow> life_inv n0 q"
  by (induction rule: rtranclp_induct) (auto intro: life_inv_step)

fun verdict_in :: "life \<times> nat \<Rightarrow> verdict option" where
  "verdict_in (Recording v, n) = Some v"
| "verdict_in (Closing v, n) = Some v"
| "verdict_in (Closed v, n) = Some v"
| "verdict_in _ = None"

lemma verdict_step: "life_step p q \<Longrightarrow> verdict_in p = Some v \<Longrightarrow> verdict_in q = Some v \<or> fst q = Broken"
  by (induction rule: life_step.induct) auto


lemma reachable_life:
  assumes "reachable E (At entry_point s0 w0) c" and "fresh s0"
  shows "life_step\<^sup>*\<^sup>* (Planning, length (ledger_of s0)) (life_of c)"
  using assms(1)
proof (induction rule: reachable.induct)
  case start
  show ?case by (simp add: entry_point_def)
next
  case (step c c')
  with simulate_step [OF step.hyps(2) conf_inv_reachable [OF step.hyps(1) assms(2)]]
  show ?case by (simp add: rtranclp.rtrancl_into_rtrancl)
qed

section \<open>Properties\<close>

text \<open>
  C6: the graph refines the life cycle. A run from a fresh state starts in the phase \<open>Planning\<close>, and
  whatever step a reachable configuration takes, its abstraction takes a step of the specification:
  at most three attempts with a strike each, validation before commit, escalation only after three
  strikes, one recorded decision, and nothing after the verdict but closing. With it the invariant of
  the specification holds of the run, and a verdict once reached is not revised.
\<close>

theorem graph_refines_life:
  assumes "fresh s0" and "reachable E (At entry_point s0 w0) c" and "graph_step E c c'"
  shows "life_of (At entry_point s0 w0) = (Planning, length (ledger_of s0))
    \<and> life_step (life_of c) (life_of c')
    \<and> life_inv (length (ledger_of s0)) (life_of c')
    \<and> (\<forall>v. verdict_in (life_of c) = Some v
          \<longrightarrow> verdict_in (life_of c') = Some v \<or> fst (life_of c') = Broken)"
proof -
  note st = simulate_step [OF assms(3) conf_inv_reachable [OF assms(2,1)]]
  moreover have "life_inv (length (ledger_of s0)) (life_of c')"
    by (rule life_inv_run, rule reachable_life [OF reachable.step [OF assms(2,3)] assms(1)])
  ultimately show ?thesis using verdict_step [OF st] by (simp add: entry_point_def)
qed

theorem graph_refines_life_witness:
  "life_step (life_of (At Analyzer empty_state Map.empty))
     (life_of (At Architect (merge empty_state [Set_active_ticket stub_ticket]) (Map.empty :: mock_files)))"
proof -
  have "graph_step mock_env (At entry_point empty_state Map.empty)
      (At Architect (merge empty_state [Set_active_ticket stub_ticket]) Map.empty)"
    unfolding entry_point_def
    by (rule graph_step.move) (simp_all add: analyzer_node_def empty_state_def ticket_of_def)
  from graph_refines_life [OF fresh_empty reachable.start this] show ?thesis by (simp add: entry_point_def ledger_of_def)
qed

end
