(* ===== verification/Verify_Nodes.thy ===== *)
theory Verify_Nodes
  imports Entry_Points
begin

text \<open>
  The verification scripts that need no model: \<open>verify_step7_escalation.py\<close>,
  \<open>verify_step7_escalation_budget.py\<close>, \<open>verify_runtime_echo.py\<close>, \<open>verify_runtime_fileops.py\<close>,
  \<open>smoke_e2e_mock.py\<close> and \<open>smoke_e2e_real.py\<close>. A script is a
  program over the node functions whose assertions raise; what is proved is either that it passes
  in every environment, or what a sandbox must have done when it passes.
\<close>

section \<open>verify_step7_escalation.py\<close>

definition exhausted_state :: agent_state where
  "exhausted_state = empty_state\<lparr>
     active_ticket := Some [(lit ''id'', PStr (lit ''ESC-TICKET-1''))],
     attempt_log := Some
       [lit ''strike=1 fast_check exit_code=1 output='' @ [39] @ lit ''boom'' @ [39],
        lit ''strike=2 fast_check exit_code=1 output='' @ [39] @ lit ''boom again'' @ [39],
        lit ''strike=3 fast_check exit_code=1 output='' @ [39] @ lit ''boom once more'' @ [39]],
     strike_count := Some 3,
     decision_ledger := Some []\<rparr>"

definition escalation_main :: "'w node_env \<Rightarrow> ('w, unit) prog" where
  "escalation_main E =
     (let state1 = merge exhausted_state (escalate_node E exhausted_state);
          state2 = merge state1 (advance_node state1);
          entry = hd (ledger_of state2)
      in bnd (py_assert (ticket_status state1 = Some ESCALATED) ''expected ticket_status ESCALATED'') (\<lambda>_.
         bnd (py_assert (ledger_of state1 = []) ''expected empty decision_ledger before advance_node'') (\<lambda>_.
         bnd (py_assert (length (ledger_of state2) = 1) ''expected exactly one distilled ledger entry'') (\<lambda>_.
         bnd (py_assert (attempt_count entry = 3) ''expected attempt_count=3'') (\<lambda>_.
         bnd (py_assert (py_in (lit ''boom'') (summary entry))
                ''expected distilled summary to carry the failure text'') (\<lambda>_.
         bnd (py_assert (attempt_log state2 = Some []) ''expected attempt_log cleared'') (\<lambda>_.
           py_assert (dispatch_router state2 = None)
             ''expected dispatch to route to END after an escalated ticket'')))))))"

section \<open>verify_step7_escalation_budget.py\<close>

text \<open>
  The script overrides the variable before \<open>nodes\<close> is imported; \<open>E\<close> is the environment of the
  nodes, whose escalation budget the import reads.
\<close>

definition budget_main :: "environ \<Rightarrow> 'w node_env \<Rightarrow> ('w, unit) prog" where
  "budget_main env E0 =
     bnd (of_result (max_escalations_of (env(lit ''SYNDICATE_MAX_ESCALATIONS'' \<mapsto> lit ''1'')))) (\<lambda>m.
       let E = E0\<lparr>ne_max_escalations := m\<rparr>;
           state = empty_state\<lparr>active_ticket := Some [(lit ''id'', PStr (lit ''TICKET-1''))]\<rparr>;
           state1 = merge state (escalate_node E state);
           state2 = state1\<lparr>active_ticket := Some [(lit ''id'', PStr (lit ''TICKET-2''))],
                          ticket_status := Some PENDING\<rparr>;
           state3 = merge state2 (escalate_node E state2)
       in bnd (py_assert (ne_max_escalations E = 1) ''expected cap=1 from env override'') (\<lambda>_.
          bnd (py_assert (escalation_count state1 = Some 1) '''') (\<lambda>_.
          bnd (py_assert (run_status state1 = None) ''budget should not be exceeded yet'') (\<lambda>_.
          bnd (py_assert (dispatch_router state1 = None) ''single-ticket run'') (\<lambda>_.
          bnd (py_assert (escalation_count state3 = Some 2) ''expected cumulative count 2'') (\<lambda>_.
          bnd (py_assert (run_status state3 = Some HALTED_ESCALATION_BUDGET) ''expected run halted'') (\<lambda>_.
            py_assert (dispatch_router state3 = None)
              ''run must halt to END once the global escalation budget is exceeded'')))))))"

section \<open>verify_runtime_echo.py and verify_runtime_fileops.py\<close>

definition MARKER :: str where
  "MARKER = lit ''syndicate_runtime_ok''"

definition echo_main :: "('w, 'w runtime_client) prog \<Rightarrow> ('w, unit) prog" where
  "echo_main get_client =
     bnd get_client (\<lambda>client. finally_do
       (bnd (rc_run_action client (PStr (lit ''echo '' @ MARKER)) PNone None) (\<lambda>result.
        bnd (py_assert (exit_code result = 0) ''expected exit_code 0'') (\<lambda>_.
          py_assert (py_in MARKER (output result)) ''expected marker'')))
       (rc_aclose client))"

definition FILEOPS_PATH :: pyval where
  "FILEOPS_PATH = PStr (lit ''/tmp/syndicate_fileops_check.txt'')"

definition FILEOPS_MISSING_PATH :: pyval where
  "FILEOPS_MISSING_PATH = PStr (lit ''/tmp/syndicate_fileops_missing.txt'')"

definition FILEOPS_ORIGINAL :: pyval where
  "FILEOPS_ORIGINAL = PStr (lit ''hello syndicate fileops'')"

definition FILEOPS_REPLACED :: pyval where
  "FILEOPS_REPLACED = PStr (lit ''hello syndicate fileops, edited'')"

text \<open>\<open>try: read except FileNotFoundError: pass else: raise AssertionError\<close>.\<close>

definition fileops_main :: "('w, 'w runtime_client) prog \<Rightarrow> ('w, unit) prog" where
  "fileops_main get_client =
     bnd get_client (\<lambda>client. finally_do
       (bnd (rc_write_file client FILEOPS_PATH FILEOPS_ORIGINAL) (\<lambda>_.
        bnd (rc_read_file client FILEOPS_PATH) (\<lambda>read_back.
        bnd (py_assert (read_back = FILEOPS_ORIGINAL) ''expected'') (\<lambda>_.
        bnd (rc_edit_file client FILEOPS_PATH (PStr (lit ''fileops'')) (PStr (lit ''fileops, edited''))) (\<lambda>_.
        bnd (rc_read_file client FILEOPS_PATH) (\<lambda>read_back2.
        bnd (py_assert (read_back2 = FILEOPS_REPLACED) ''expected'') (\<lambda>_.
        bnd (catch (bnd (rc_read_file client FILEOPS_MISSING_PATH) (\<lambda>_. ret False))
               is_file_not_found (\<lambda>_. ret True)) (\<lambda>missing.
          py_assert missing ''expected FileNotFoundError for a missing file''))))))))
       (rc_aclose client))"

section \<open>smoke_e2e_mock.py and smoke_e2e_real.py\<close>

definition graph_invoke :: "'w node_env \<Rightarrow> agent_state \<Rightarrow> ('w, agent_state) prog" where
  \<comment> \<open>\<open>await app.ainvoke(state)\<close>\<close>
  "graph_invoke E state w =
     (case run_graph E RECURSION_LIMIT state w of
        (us, out, s', w') \<Rightarrow>
          (case out of
             Finished \<Rightarrow> (Inr s', w')
           | Raised e \<Rightarrow> (Inl e, w')
           | Out_of_steps \<Rightarrow> (Inl (ExternalError (lit ''Recursion limit reached'')), w')))"

definition graph_astream :: "'w node_env \<Rightarrow> agent_state \<Rightarrow> ('w, (node_name \<times> delta) list) prog" where
  \<comment> \<open>all chunks of \<open>app.astream(state)\<close>\<close>
  "graph_astream E state w =
     (case run_graph E RECURSION_LIMIT state w of
        (us, out, s', w') \<Rightarrow>
          (case out of
             Finished \<Rightarrow> (Inr us, w')
           | Raised e \<Rightarrow> (Inl e, w')
           | Out_of_steps \<Rightarrow> (Inl (ExternalError (lit ''Recursion limit reached'')), w')))"

definition smoke_mock_main :: "'w node_env \<Rightarrow> ('w, unit) prog" where
  "smoke_mock_main E =
     bnd (graph_astream E empty_state) (\<lambda>chunks.
     bnd (py_assert (transitions chunks = EXPECTED_TRANSITIONS) ''Unexpected transitions.'') (\<lambda>_.
     bnd (graph_invoke E empty_state) (\<lambda>final_state.
       py_assert (log_of final_state = []) ''attempt_log must be empty after advance_node'')))"

definition smoke_ticket :: "str \<Rightarrow> str \<Rightarrow> str \<Rightarrow> str list \<Rightarrow> str \<Rightarrow> dict" where
  "smoke_ticket i title intent files workspace_dir =
     [(lit ''id'', PStr i), (lit ''title'', PStr title), (lit ''intent'', PStr intent),
      (lit ''verification_command'', PStr (lit ''python3 -m pytest -q'')),
      (lit ''workspace_dir'', PStr workspace_dir), (lit ''files_changed'', PList (map PStr files))]"

definition TRIVIAL_TICKET :: "str \<Rightarrow> dict" where
  "TRIVIAL_TICKET = smoke_ticket (lit ''SMOKE-TRIVIAL'') (lit ''Add a trivially passing no-op change'')
     (lit ''smoke: trivial resolve'') []"

definition SEEDED_FAILURE_TICKET :: "str \<Rightarrow> dict" where
  "SEEDED_FAILURE_TICKET = smoke_ticket (lit ''SMOKE-SEEDED-FAILURE'')
     (lit ''Fix the intentionally broken calc.add() implementation'')
     (lit ''smoke: seeded-failure self-heal'') [lit ''calc.py'']"

definition ticket_state :: "dict \<Rightarrow> agent_state" where
  "ticket_state ticket = empty_state\<lparr>active_ticket := Some ticket\<rparr>"

definition run_ticket :: "'w node_env \<Rightarrow> dict \<Rightarrow> ('w, agent_state) prog" where
  "run_ticket E ticket = graph_invoke E (ticket_state ticket)"

definition count_strikes :: "agent_state \<Rightarrow> nat" where
  "count_strikes final_state =
     length (filter (py_in (lit ''strike='')) (log_of final_state @ map summary (ledger_of final_state)))"

definition smoke_real_main :: "'w node_env \<Rightarrow> str \<Rightarrow> ('w, unit) prog" where
  "smoke_real_main E workspace_dir =
     bnd (run_ticket E (TRIVIAL_TICKET workspace_dir)) (\<lambda>trivial_final.
     bnd (py_assert (ticket_status trivial_final \<in> {Some DONE, Some LOCAL_PASS})
            ''expected trivial ticket to resolve'') (\<lambda>_.
     bnd (run_ticket E (SEEDED_FAILURE_TICKET workspace_dir)) (\<lambda>seeded_final.
       let strikes_seen = count_strikes seeded_final
       in bnd (py_assert (1 \<le> strikes_seen) ''expected at least one visible strike in the self-heal loop'') (\<lambda>_.
          bnd (py_assert (strikes_seen \<le> 3) ''strike budget exceeded'') (\<lambda>_.
            py_assert (ticket_status seeded_final \<in> {Some DONE, Some LOCAL_PASS, Some ESCALATED})
              ''unexpected terminal status'')))))"

definition smoke_real :: "environ \<Rightarrow> 'w node_env \<Rightarrow> ('w, int) prog" where
  \<comment> \<open>the exit code\<close>
  "smoke_real env E =
     (if is_unset env ''ANTHROPIC_API_KEY'' then ret 2
      else bnd (smoke_real_main E
             (case env (lit ''SYNDICATE_SMOKE_WORKSPACE'') of
                None \<Rightarrow> lit ''/home/openhands/syndicate-workspace/sample_project'' | Some d \<Rightarrow> d))
             (\<lambda>_. ret 0))"

section \<open>The escalation scripts pass\<close>

lemma exhausted_summary:
  "\<exists>a. distil (log_of exhausted_state) = \<lparr>summary = a, attempt_count = 3\<rparr> \<and> py_in (lit ''boom'') a"
  by (simp add: exhausted_state_def log_of_def distil_def lit_def)

text \<open>
  Both escalation harnesses pass whatever the environment: an escalated ticket's log is distilled
  into one ledger entry that carries the failure text before the graph would exit, and with the
  budget overridden to 1 the second escalation of a run halts it.
\<close>

theorem escalation_scripts_pass:
  "escalation_main E w = (Inr (), w) \<and> budget_main env E w = (Inr (), w)"
proof
  obtain a where a: "distil (log_of exhausted_state) = \<lparr>summary = a, attempt_count = 3\<rparr>" "py_in (lit ''boom'') a"
    using exhausted_summary by blast
  let ?s1 = "merge exhausted_state (escalate_node E exhausted_state)"
  let ?s2 = "merge ?s1 (advance_node ?s1)"
  have l: "log_of ?s1 = log_of exhausted_state" "ledger_of ?s1 = []" "ticket_status ?s1 = Some ESCALATED"
    by (simp_all add: escalate_node_def Let_def log_of_def ledger_of_def exhausted_state_def)
  then have "ledger_of ?s2 = [\<lparr>summary = a, attempt_count = 3\<rparr>]" "attempt_log ?s2 = Some []"
    "ticket_status ?s2 = Some ESCALATED"
    using a(1) by (simp_all add: advance_node_def ledger_of_def)
  moreover from this have "dispatch_router ?s2 = None" by (simp add: dispatch_router_def)
  ultimately show "escalation_main E w = (Inr (), w)"
    using l a(2) by (simp add: escalation_main_def Let_def)
next
  have "max_escalations_of (env(lit ''SYNDICATE_MAX_ESCALATIONS'' \<mapsto> lit ''1'')) = Inr 1"
    by (simp add: max_escalations_of_def) code_simp
  then show "budget_main env E w = (Inr (), w)"
    by (simp add: budget_main_def Let_def escalate_node_def escalations_def empty_state_def dispatch_router_def)
qed

section \<open>The file operations script passes on a store of text files\<close>

text \<open>
  What the script relies on: reads and writes behave as a map from paths to texts (of Unicode scalar
  values, which UTF-8 can carry) and an edit is a read, a unique replacement and a write. The mock
  and the adapter for the agent server provide it, the latter for a server whose upload and download
  endpoints store and return the bytes of a file (\<open>serves_files\<close>).
\<close>

locale text_files =
  fixes P :: "int \<Rightarrow> bool" and client :: "'w runtime_client" and files :: "'w \<Rightarrow> str \<Rightarrow> str option"
    and good :: "'w \<Rightarrow> bool"
  assumes read_law: "good w \<Longrightarrow> \<exists>w'. good w' \<and> files w' = files w \<and> rc_read_file client (PStr p) w =
      (case files w p of None \<Rightarrow> (Inl (FileNotFoundError p), w') | Some c \<Rightarrow> (Inr (PStr c), w'))"
    and write_law: "good w \<Longrightarrow> \<forall>c \<in> set t. is_scalar c \<Longrightarrow>
      \<exists>w'. good w' \<and> files w' = (files w)(p \<mapsto> t) \<and> rc_write_file client (PStr p) (PStr t) w = (Inr (), w')"
    and edit_law: "rc_edit_file client path old new = bnd (rc_read_file client path) (\<lambda>content.
      bnd (of_result (str_replace P content old new path)) (\<lambda>replaced. rc_write_file client path replaced))"
    and close_law: "good w \<Longrightarrow> \<exists>w'. rc_aclose client w = (Inr (), w')"
begin

lemma fileops_passes:
  assumes "get_client w = (Inr client, w0)" and "good w0" and "FILEOPS_MISSING_PATH = PStr m" and "files w0 m = None"
  shows "\<exists>w'. fileops_main get_client w = (Inr (), w')"
proof -
  obtain p where p: "FILEOPS_PATH = PStr p" "p \<noteq> m"
    using assms(3) by (auto simp: FILEOPS_PATH_def FILEOPS_MISSING_PATH_def)
  let ?o = "lit ''hello syndicate fileops''" and ?r = "lit ''hello syndicate fileops, edited''"
  have sc: "\<forall>c \<in> set ?o. is_scalar c" "\<forall>c \<in> set ?r. is_scalar c" by (simp_all add: lit_def is_scalar_def is_surrogate_def)
  have rep: "str_replace P (PStr ?o) (PStr (lit ''fileops'')) (PStr (lit ''fileops, edited'')) (PStr p) = Inr (PStr ?r)"
    by (simp add: str_replace_def py_count_def count_nonempty.simps py_replace_first_def lit_def)
  obtain w1 where w1: "good w1" "files w1 = (files w0)(p \<mapsto> ?o)" "rc_write_file client (PStr p) (PStr ?o) w0 = (Inr (), w1)"
    using write_law [OF assms(2) sc(1)] by blast
  obtain w2 where w2: "good w2" "files w2 = files w1" "rc_read_file client (PStr p) w1 = (Inr (PStr ?o), w2)"
    using read_law [OF w1(1), of p] w1(2) by auto
  obtain w3 where w3: "good w3" "files w3 = files w2" "rc_read_file client (PStr p) w2 = (Inr (PStr ?o), w3)"
    using read_law [OF w2(1), of p] w1(2) w2(2) by auto
  obtain w4 where w4: "good w4" "files w4 = (files w3)(p \<mapsto> ?r)" "rc_write_file client (PStr p) (PStr ?r) w3 = (Inr (), w4)"
    using write_law [OF w3(1) sc(2)] by blast
  have e: "rc_edit_file client (PStr p) (PStr (lit ''fileops'')) (PStr (lit ''fileops, edited'')) w2 = (Inr (), w4)"
    by (simp add: edit_law w3(3) rep w4(3) bnd_app)
  obtain w5 where w5: "good w5" "files w5 = files w4" "rc_read_file client (PStr p) w4 = (Inr (PStr ?r), w5)"
    using read_law [OF w4(1), of p] w4(2) by auto
  have "files w5 m = None" using w1(2) w2(2) w3(2) w4(2) w5(2) p(2) assms(4) by simp
  with read_law [OF w5(1), of m] obtain w6 where
    w6: "good w6" "rc_read_file client (PStr m) w5 = (Inl (FileNotFoundError m), w6)"
    by auto
  obtain w7 where w7: "rc_aclose client w6 = (Inr (), w7)" using close_law [OF w6(1)] by blast
  show ?thesis
    using w1(3) w2(3) w5(3) w6(2) w7 e
    by (simp add: fileops_main_def assms(1,3) p(1) FILEOPS_ORIGINAL_def FILEOPS_REPLACED_def bnd_app catch_def finally_do_def)
qed

end

definition text_at :: "mock_files \<Rightarrow> str \<Rightarrow> str option" where
  "text_at f p = (case f (PStr p) of Some (PStr t) \<Rightarrow> Some t | _ \<Rightarrow> None)"

definition texts_only :: "mock_files \<Rightarrow> bool" where
  "texts_only f \<longleftrightarrow> (\<forall>p c. f (PStr p) = Some c \<longrightarrow> (\<exists>t. c = PStr t))"

interpretation mock_text: text_files P "mock_client P" text_at texts_only
proof unfold_locales
  fix f :: mock_files and p
  assume "texts_only f"
  then show "\<exists>f'. texts_only f' \<and> text_at f' = text_at f \<and> rc_read_file (mock_client P) (PStr p) f =
      (case text_at f p of None \<Rightarrow> (Inl (FileNotFoundError p), f') | Some c \<Rightarrow> (Inr (PStr c), f'))"
    by (intro exI [of _ f]) (fastforce simp: mock_client_def mock_read_file_def text_at_def texts_only_def split: option.splits pyval.splits)
next
  fix f :: mock_files and t p
  assume "texts_only f"
  then show "\<exists>f'. texts_only f' \<and> text_at f' = (text_at f)(p \<mapsto> t)
      \<and> rc_write_file (mock_client P) (PStr p) (PStr t) f = (Inr (), f')"
    by (intro exI [of _ "f(PStr p \<mapsto> PStr t)"])
       (auto simp: mock_client_def mock_write_file_def text_at_def texts_only_def fun_eq_iff)
qed (simp_all add: mock_client_def mock_edit_file_def mock_aclose_def)

definition serves_files :: "'h http \<Rightarrow> http_config \<Rightarrow> ('h \<Rightarrow> str \<Rightarrow> int list option) \<Rightarrow> bool" where
  "serves_files h cfg store \<longleftrightarrow>
     (\<forall>p n b w. \<exists>r w'. http_post_file h cfg (lit ''/api/file/upload/'' @ p) n b w = (Inr r, w')
        \<and> status_code r = 200 \<and> store w' = (store w)(p \<mapsto> b))
   \<and> (\<forall>p w. \<exists>r w'. http_get h cfg (lit ''/api/file/download/'' @ p) w = (Inr r, w') \<and> store w' = store w
        \<and> (case store w p of None \<Rightarrow> status_code r = 404
           | Some b \<Rightarrow> status_code r = 200 \<and> resp_text r = py_decode_replace b))
   \<and> (\<forall>w. \<exists>w'. http_aclose h cfg w = (Inr (), w'))"

definition stored_text :: "('h \<Rightarrow> str \<Rightarrow> int list option) \<Rightarrow> 'h \<Rightarrow> str \<Rightarrow> str option" where
  "stored_text store w p = map_option py_decode_replace (store w p)"

lemma openhands_text_files:
  assumes "serves_files h cfg store"
  shows "text_files P (openhands_client P h cfg) (stored_text store) (\<lambda>_. True)"
proof
  fix w p
  obtain r w' where r: "http_get h cfg (lit ''/api/file/download/'' @ p) w = (Inr r, w')" "store w' = store w"
    "case store w p of None \<Rightarrow> status_code r = 404 | Some b \<Rightarrow> status_code r = 200 \<and> resp_text r = py_decode_replace b"
    using assms unfolding serves_files_def by blast
  then show "\<exists>w'. True \<and> stored_text store w' = stored_text store w \<and> rc_read_file (openhands_client P h cfg) (PStr p) w =
      (case stored_text store w p of None \<Rightarrow> (Inl (FileNotFoundError p), w') | Some c \<Rightarrow> (Inr (PStr c), w'))"
    by (intro exI [of _ w'])
       (auto simp: openhands_client_def openhands_read_file_def stored_text_def fun_eq_iff bnd_app raise_for_status_def
          split: option.splits)
next
  fix w and t p :: str
  assume sc: "\<forall>c \<in> set t. is_scalar c"
  define n where "n = (if py_rsplit_last 47 p = [] then lit ''file'' else py_rsplit_last 47 p)"
  obtain r w' where "http_post_file h cfg (lit ''/api/file/upload/'' @ p) n (utf8_bytes t) w = (Inr r, w')"
    "status_code r = 200" "store w' = (store w)(p \<mapsto> utf8_bytes t)"
    using assms unfolding serves_files_def by blast
  then show "\<exists>w'. True \<and> stored_text store w' = (stored_text store w)(p \<mapsto> t)
      \<and> rc_write_file (openhands_client P h cfg) (PStr p) (PStr t) w = (Inr (), w')"
    by (intro exI [of _ w'])
       (simp add: openhands_client_def openhands_write_file_def n_def [symmetric] py_encode_scalar [OF sc] stored_text_def
          fun_eq_iff decode_utf8_bytes [OF sc] raise_for_status_def Let_def)
qed (use assms in \<open>simp_all add: openhands_client_def openhands_edit_file_def openhands_aclose_def serves_files_def\<close>)

text \<open>
  C39: the file operations script passes on every agent server whose upload and download endpoints
  store and return the bytes of a file, as long as the missing file is missing, and on the mock.
  The text survives the trip through UTF-8, the edit replaces the one occurrence, and the 404 of the
  missing file arrives as the exception the script expects.
\<close>

theorem fileops_script_passes:
  assumes "serves_files h cfg store" and "FILEOPS_MISSING_PATH = PStr m" and "store w m = None"
  shows "(\<exists>w'. fileops_main (ret (openhands_client P h cfg)) w = (Inr (), w'))
    \<and> (\<exists>f. fileops_main (ret (mock_client P)) Map.empty = (Inr (), f))"
proof
  show "\<exists>w'. fileops_main (ret (openhands_client P h cfg)) w = (Inr (), w')"
    by (rule text_files.fileops_passes [OF openhands_text_files [OF assms(1)]])
       (use assms in \<open>simp_all add: stored_text_def\<close>)
  show "\<exists>f. fileops_main (ret (mock_client P)) Map.empty = (Inr (), f)"
    by (rule mock_text.fileops_passes [OF _ _ assms(2)]) (auto simp: texts_only_def text_at_def)
qed

definition disk_http :: "(str \<Rightarrow> int list option) http" where
  \<comment> \<open>an agent server whose files are the world\<close>
  "disk_http =
     \<lparr>http_post_json = (\<lambda>c u d t f. (Inr \<lparr>status_code = 404, resp_text = [], resp_json = Inl (JSONDecodeError [])\<rparr>, f)),
      http_get = (\<lambda>c u f. (Inr (case f (drop (length (lit ''/api/file/download/'')) u) of
          None \<Rightarrow> \<lparr>status_code = 404, resp_text = [], resp_json = Inl (JSONDecodeError [])\<rparr>
        | Some b \<Rightarrow> \<lparr>status_code = 200, resp_text = py_decode_replace b, resp_json = Inl (JSONDecodeError [])\<rparr>), f)),
      http_post_file = (\<lambda>c u n b f. (Inr \<lparr>status_code = 200, resp_text = [], resp_json = Inl (JSONDecodeError [])\<rparr>,
          f(drop (length (lit ''/api/file/upload/'')) u \<mapsto> b))),
      http_aclose = (\<lambda>c. ret ())\<rparr>"

lemma serves_disk: "serves_files disk_http cfg (\<lambda>f. f)"
  by (auto simp: serves_files_def disk_http_def split: option.splits)

theorem fileops_script_passes_witness:
  "(\<exists>f. fileops_main (ret (openhands_client (\<lambda>_. True) disk_http (openhands_init [] None 300))) Map.empty = (Inr (), f))
   \<and> (\<exists>f. fileops_main (ret (mock_client (\<lambda>_. True))) Map.empty = (Inr (), f))"
  by (rule fileops_script_passes [OF serves_disk FILEOPS_MISSING_PATH_def]) simp

section \<open>The mock smoke test passes\<close>

lemma mock_run_any:
  "case run_graph mock_env 25 empty_state w of
     (us, out, s', w') \<Rightarrow> map fst us = [Analyzer, Architect, Dispatch, Executor, Validator, Oversight_git, Advance, Dispatch]
       \<and> out = Finished \<and> attempt_log s' = Some []"
  by (simp add: run_graph_def eval_nat_numeral entry_point_def empty_state_def analyzer_node_def
        architect_node_def dispatch_node_def dispatch_router_def executor_node_def validator_node_def
        run_mock DUMMY_ACTIONS_def oversight_git_node_def git_run_def git_commands
        validator_router_def oversight_git_router_def advance_node_def
        ticket_of_def log_of_def ledger_of_def strikes_def validated_def stub_ticket_def files_of_def dget_def py_or_def
        workspace_of_def prog_simps split_beta Let_def)

lemma smoke_mock_passes: "\<exists>w'. smoke_mock_main mock_env w = (Inr (), w')"
proof -
  obtain us s1 w1 where a: "run_graph mock_env 25 empty_state w = (us, Finished, s1, w1)"
    "map fst us = [Analyzer, Architect, Dispatch, Executor, Validator, Oversight_git, Advance, Dispatch]"
    using mock_run_any [of w] by (auto split: prod.splits)
  obtain vs s2 w2 where b: "run_graph mock_env 25 empty_state w1 = (vs, Finished, s2, w2)" "attempt_log s2 = Some []"
    using mock_run_any [of w1] by (auto split: prod.splits)
  have "transitions us = map node_label (map fst us) @ [lit ''END'']"
    by (simp add: transitions_def split_beta comp_def)
  with a(2) have "transitions us = EXPECTED_TRANSITIONS" by (simp add: EXPECTED_TRANSITIONS_def)
  with a(1) b show ?thesis
    by (simp add: smoke_mock_main_def graph_astream_def graph_invoke_def RECURSION_LIMIT_def log_of_def bnd_app)
qed

section \<open>What smoke_e2e_real.py counts\<close>

text \<open>
  Outside mock mode every attempt is logged under \<open>strike=\<close>, a passing one too, and \<open>advance_node\<close>
  folds the whole log into one summary.
\<close>

definition strike_logged :: "str list \<Rightarrow> bool" where
  "strike_logged l \<longleftrightarrow> list_ex (py_in (lit ''strike='')) l"

lemma strike_logged_append [simp]: "strike_logged (l @ k) \<longleftrightarrow> strike_logged l \<or> strike_logged k"
  by (simp add: strike_logged_def)

lemma strike_lines [simp]:
  "strike_logged (summary_line E k s # l)" "strike_logged (a # fast_check_line E k c # l)"
  unfolding strike_logged_def summary_line_def fast_check_line_def list_ex_iff set_simps
  by (blast intro: py_in_prefix)+

lemma executor_loop_logs:
  assumes "executor_loop E client tp wd tid strike fb alog w = (Inr d, w')"
    and "strike < MAX_STRIKES \<or> strike_logged alog"
  shows "strike_logged (log_of (merge s d))"
  using assms
proof (induction E client tp wd tid strike fb alog w rule: executor_loop.induct)
  case (1 E client tp wd tid strike fb alog w)
  show ?case
  proof (cases "strike < MAX_STRIKES")
    case True
    from True "1.prems" obtain summ w1 check w2
      where a: "run_agentic_loop E client tp fb wd tid w = (Inr summ, w1)"
        and c: "run_fast_checks client wd w1 = (Inr check, w2)"
        and r: "(if exit_code check = 0
             then ret [Set_attempt_log (alog @ [summary_line E (strike + 1) summ, fast_check_line E (strike + 1) check]),
                       Set_ticket_status LOCAL_PASS, Set_strike_count (strike + 1), Set_validation_diagnosis None]
             else executor_loop E client tp wd tid (strike + 1) (Some (output check))
                    (alog @ [summary_line E (strike + 1) summ, fast_check_line E (strike + 1) check])) w2
             = (Inr d, w')"
      by (subst (asm) executor_loop.simps) (auto simp: Let_def elim!: bnd_eq_InrE)
    show ?thesis
    proof (cases "exit_code check = 0")
      case True
      with r show ?thesis by (auto simp: log_of_def)
    next
      case False
      with r "1.IH" [OF True a c refl False] show ?thesis by simp
    qed
  next
    case False
    with "1.prems" show ?thesis by (auto simp: executor_loop.simps log_of_def)
  qed
qed

definition real_client :: "'w node_env \<Rightarrow> bool" where
  "real_client E \<longleftrightarrow> (\<forall>w c w'. ne_get_runtime_client E w = (Inr c, w') \<longrightarrow> \<not> rc_is_mock c)"

fun strike_inv :: "node_name \<Rightarrow> agent_state \<Rightarrow> bool" where
  "strike_inv Analyzer s = True"
| "strike_inv Architect s = True"
| "strike_inv Executor s = True"
| "strike_inv Dispatch s \<longleftrightarrow> dispatch_router s = None \<longrightarrow> strike_logged (map summary (ledger_of s))"
| "strike_inv _ s = strike_logged (log_of s)"

lemma distil_strike: "strike_logged l \<Longrightarrow> py_in (lit ''strike='') (summary (distil l))"
  by (auto simp: distil_def strike_logged_def list_ex_iff intro: py_in_join)

lemma oversight_keeps_log:
  assumes "oversight_git_node E s w = (Inr d, w')" and "strike_logged (log_of s)"
  shows "strike_logged (log_of (merge s d))"
  using assms(1)
  by (cases rule: oversight_node_deltas)
     (use assms(2) in \<open>auto simp: is_strike_def is_done_def git_strike_def log_of_def\<close>)

lemma strike_inv_step:
  assumes r: "node_fun E n s w = (Inr d, w')" and inv: "graph_inv E s0 n s" "strike_inv n s" and real: "real_client E"
  shows "case next_node n (merge s d) of Some m \<Rightarrow> strike_inv m (merge s d)
    | None \<Rightarrow> strike_logged (map summary (ledger_of (merge s d)))"
proof (cases n)
  case Architect
  with r have "architect_node E s w = (Inr d, w')" by simp
  then have "dispatch_router (merge s d) = Some Executor"
    by (cases rule: architect_node_cases) (use inv Architect in \<open>simp_all add: fresh_dispatch\<close>)
  with Architect show ?thesis by simp
next
  case Dispatch
  with r have "d = []" by (simp add: dispatch_node_def)
  with Dispatch inv show ?thesis by (auto simp: dispatch_router_def split: option.splits)
next
  case Executor
  with r have "executor_node E s w = (Inr d, w')" by simp
  then obtain client w0 where c: "ne_get_runtime_client E w = (Inr client, w0)" and n: "(if rc_is_mock client then
         bnd (run_dummy_actions E client DUMMY_ACTIONS (log_of s)) (\<lambda>alog.
           ret [Set_attempt_log alog, Set_ticket_status LOCAL_PASS])
       else executor_loop E client (lit ''Ticket: '' @ py_repr (ne_printable E) (PDict (ticket_of s)))
           (workspace_of (ticket_of s)) (ticket_id_of (ticket_of s))
           (strikes s) (feedback_of s) (log_of s)) w0 = (Inr d, w')"
    unfolding executor_node_def by (rule bnd_eq_InrE)
  from c real have "\<not> rc_is_mock client" by (auto simp: real_client_def)
  with n have "executor_loop E client (lit ''Ticket: '' @ py_repr (ne_printable E) (PDict (ticket_of s)))
           (workspace_of (ticket_of s)) (ticket_id_of (ticket_of s))
           (strikes s) (feedback_of s) (log_of s) w0 = (Inr d, w')" by simp
  from executor_loop_logs [OF this] Executor inv show ?thesis by simp
next
  case Validator
  with r have "validator_node E s w = (Inr d, w')" by simp
  then have "log_of (merge s d) = log_of s"
    by (cases rule: validator_node_cases) (simp_all add: log_of_def)
  with Validator inv show ?thesis by (simp add: validator_router_def)
next
  case Oversight_git
  with r inv oversight_keeps_log [of E s w d w'] show ?thesis by (simp add: oversight_git_router_def)
next
  case Escalate
  with r inv show ?thesis by (auto simp: escalate_node_def Let_def log_of_def)
next
  case Advance
  with r have "d = advance_node s" by simp
  then have "strike_logged (map summary (ledger_of (merge s d)))"
    using distil_strike [of "log_of s"] Advance inv
    by (simp add: advance_node_def ledger_of_def strike_logged_def)
  with Advance show ?thesis by simp
qed (use r in simp)

fun conf_strike_inv :: "'w conf \<Rightarrow> bool" where
  "conf_strike_inv (At n s w) = strike_inv n s"
| "conf_strike_inv (Ended s w) = strike_logged (map summary (ledger_of s))"
| "conf_strike_inv (Failed e s w) = True"

lemma strike_inv_reachable:
  assumes "reachable E (At entry_point s0 w0) c" and "fresh s0" and "real_client E"
  shows "conf_strike_inv c"
  using assms(1)
proof (induction rule: reachable.induct)
  case start
  show ?case by (simp add: entry_point_def)
next
  case (step c c')
  note inv = conf_inv_reachable [OF step.hyps(1) assms(2)]
  from step.hyps(2) show ?case
  proof cases
    case (move n s w d w' m)
    with strike_inv_step [OF move(3) _ _ assms(3)] inv step.IH show ?thesis by fastforce
  next
    case (finish n s w d w')
    with strike_inv_step [OF finish(3) _ _ assms(3)] inv step.IH show ?thesis by fastforce
  qed simp
qed

lemma fresh_ticket_state: "fresh (ticket_state t)"
  by (simp add: fresh_def ticket_state_def empty_state_def validated_def strikes_def escalations_def)

text \<open>
  C38: what the smoke test calls strikes is always 1. For every ticket, sandbox and model, a run that
  finishes outside mock mode leaves exactly one text that mentions \<open>strike=\<close>, the summary of its one
  decision, whether it took one attempt or three; and its status is one of the three that the script
  accepts. So of its assertions only the one on the trivial ticket can fail.
\<close>

theorem smoke_counts_one_strike:
  assumes "run_ticket E ticket w = (Inr s', w')" and "real_client E"
  shows "count_strikes s' = 1 \<and> ticket_status s' \<in> {Some DONE, Some LOCAL_PASS, Some ESCALATED}"
proof -
  obtain us where r: "run_graph E RECURSION_LIMIT (ticket_state ticket) w = (us, Finished, s', w')"
    using assms(1) by (auto simp: run_ticket_def graph_invoke_def split: prod.splits outcome.splits)
  have reach: "reachable E (At entry_point (ticket_state ticket) w) (Ended s' w')"
    using run_from_reaches [of E RECURSION_LIMIT entry_point "ticket_state ticket" w us Finished s' w'] r
    by (simp add: run_graph_def)
  have "ledger_of (ticket_state ticket) = []" by (simp add: ticket_state_def empty_state_def ledger_of_def)
  with conf_inv_reachable [OF reach fresh_ticket_state]
  obtain l where l: "ledger_of s' = [distil l]" "attempt_log s' = Some []" "settled E s'"
    by (auto simp: closed_with_def)
  moreover from l(1) strike_inv_reachable [OF reach fresh_ticket_state assms(2)]
  have "py_in (lit ''strike='') (summary (distil l))" by (simp add: strike_logged_def)
  ultimately show ?thesis
    by (auto simp: count_strikes_def log_of_def settled_def committed_end_def no_files_end_def escalated_end_def)
qed

text \<open>The double's model completes at once; its sandbox answers without a queue are exit code 0.\<close>

lemma completing_loop [simp]:
  "run_agentic_loop (scripted_env t) client tp fb cwd tid w = (Inr (lit t), w)"
  by (simp add: run_agentic_loop_def scripted_env_def completing_llm_def MAX_TOOL_CALLS_def eval_nat_numeral
        text_of_def bnd_def ret_def)

lemma scripted_max_escalations [simp]: "ne_max_escalations (scripted_env t) = 3" "ne_printable (scripted_env t) = (\<lambda>_. True)"
  and scripted_real [simp]: "\<not> rc_is_mock (scripted_client P)" "real_client (scripted_env t)"
  by (simp_all add: scripted_env_def scripted_client_def real_client_def)

lemma trivial_run:
  "\<exists>s' w'. run_ticket (scripted_env ''ok'') [(lit ''id'', PStr (lit ''T''))] (scripted_world []) = (Inr s', w')"
  by (simp add: run_ticket_def graph_invoke_def ticket_state_def RECURSION_LIMIT_def
        run_graph_def eval_nat_numeral entry_point_def empty_state_def analyzer_node_def
        architect_node_def dispatch_node_def dispatch_router_def validator_node_def scripted_world_def
        executor_node_def executor_loop.simps run_fast_checks_def FAST_CHECK_ACTIONS_def MAX_STRIKES_def
        scripted_action oversight_git_node_def git_run_def git_commands
        validator_router_def oversight_git_router_def advance_node_def
        ticket_of_def log_of_def ledger_of_def strikes_def validated_def files_of_def dget_def py_or_def
        workspace_of_def DEFAULT_VERIFICATION_COMMAND_def prog_simps split_beta Let_def)

theorem smoke_counts_one_strike_witness:
  "\<exists>s' w'. run_ticket (scripted_env ''ok'') [(lit ''id'', PStr (lit ''T''))] (scripted_world []) = (Inr s', w')
     \<and> count_strikes s' = 1"
proof -
  obtain s' w' where r: "run_ticket (scripted_env ''ok'') [(lit ''id'', PStr (lit ''T''))] (scripted_world []) = (Inr s', w')"
    using trivial_run by blast
  from smoke_counts_one_strike [OF this] r show ?thesis by auto
qed

end
