(* ===== verification/Verify_Step6.thy ===== *)
theory Verify_Step6
  imports Verify_Nodes
begin

text \<open>
  \<open>scripts/verify_step6_validation_git.py\<close>: the harness that drives \<open>validator_node\<close> and
  \<open>oversight_git_node\<close> by hand against a real sandbox. Proved is what a sandbox must have done when
  the harness passes (\<open>step6_pass_certifies\<close>); the witness is a sandbox with which it does, the
  scripted double with a queue of answers per command.
\<close>

section \<open>verify_step6_validation_git.py\<close>

definition STEP6_WORKSPACE :: "environ \<Rightarrow> str" where
  "STEP6_WORKSPACE env = (case env (lit ''SYNDICATE_VERIFY_WORKSPACE'') of
     None \<Rightarrow> lit ''/home/openhands/syndicate-workspace/sample_project'' | Some d \<Rightarrow> d)"

definition STEP6_CALC_PY :: str where
  "STEP6_CALC_PY = lit ''def add(a, b):'' @ [10] @ lit ''    return a + b'' @ [10]"

definition STEP6_TEST_CALC_PY :: str where
  "STEP6_TEST_CALC_PY =
     lit ''from calc import add'' @ [10, 10, 10]
     @ lit ''def test_add_positive():'' @ [10]
     @ lit ''    assert add(2, 3) == 5'' @ [10, 10, 10]
     @ lit ''def test_add_negative():'' @ [10]
     @ lit ''    assert add(-1, -1) == -2'' @ [10]"

definition GITIGNORE :: str where
  "GITIGNORE = lit ''__pycache__/'' @ [10] @ lit ''*.pyc'' @ [10] @ lit ''.pytest_cache/'' @ [10]"

definition step6_ticket :: "str \<Rightarrow> dict" where
  "step6_ticket ws =
     [(lit ''id'', PStr (lit ''STEP6-SAMPLE'')), (lit ''intent'', PStr (lit ''step6 verification harness run'')),
      (lit ''verification_command'', PStr (lit ''python3 -m pytest -q'')),
      (lit ''workspace_dir'', PStr ws), (lit ''files_changed'', PList [PStr (lit ''calc.py'')])]"

definition step6_seed :: "'w runtime_client \<Rightarrow> str \<Rightarrow> ('w, unit) prog" where
  "step6_seed client ws =
     bnd (rc_run_action client (PStr (lit ''mkdir -p '' @ ws @ lit ''/tests'')) PNone None) (\<lambda>setup.
     bnd (py_assert (exit_code setup = 0) ''workspace mkdir failed'') (\<lambda>_.
     bnd (rc_write_file client (PStr (ws @ lit ''/tests/test_calc.py'')) (PStr STEP6_TEST_CALC_PY)) (\<lambda>_.
     bnd (rc_write_file client (PStr (ws @ lit ''/.gitignore'')) (PStr GITIGNORE)) (\<lambda>_.
     bnd (rc_run_action client
            (PStr (lit ''git init -q && git config user.name syndicate-bot ''
              @ lit ''&& git config user.email syndicate-bot@example.invalid ''
              @ lit ''&& python3 -m pip install --quiet pytest ''
              @ lit ''&& git add -- tests/test_calc.py .gitignore && git commit -q -m seed''))
            (PStr ws) None) (\<lambda>init.
     bnd (py_assert (exit_code init = 0) ''workspace git/pytest setup failed'') (\<lambda>_.
       rc_write_file client (PStr (ws @ lit ''/calc.py'')) (PStr STEP6_CALC_PY)))))))"

definition step6_state_a :: "str \<Rightarrow> agent_state" where
  "step6_state_a ws = empty_state\<lparr>active_ticket := Some (step6_ticket ws),
     attempt_log := Some [lit ''strike=1 fast_check exit_code=0 output='' @ [39] @ lit ''fast checks passed'' @ [39]]\<rparr>"

definition step6_scenario_a :: "'w node_env \<Rightarrow> 'w runtime_client \<Rightarrow> str \<Rightarrow> ('w, unit) prog" where
  "step6_scenario_a E client ws =
     bnd (validator_node E (step6_state_a ws)) (\<lambda>validator_result.
       let state1 = merge (step6_state_a ws) validator_result
       in bnd (py_assert (last_validation_passed state1 = Some True) ''expected validation to pass'') (\<lambda>_.
          bnd (py_assert (validator_router state1 = Oversight_git) ''expected pass routing to oversight_git'') (\<lambda>_.
          bnd (oversight_git_node E state1) (\<lambda>git_result.
          bnd (rc_run_action client (PStr (lit ''git log --oneline'')) (PStr ws) None) (\<lambda>log.
          bnd (py_assert (py_in (lit ''STEP6-SAMPLE'') (output log)) ''expected templated commit in git log'') (\<lambda>_.
          bnd (rc_run_action client (PStr (lit ''git status --porcelain'')) (PStr ws) None) (\<lambda>status.
            py_assert (py_strip (output status) = []) ''expected clean working tree after commit'')))))))"

definition step6_state_b :: "str \<Rightarrow> agent_state" where
  "step6_state_b ws = empty_state\<lparr>active_ticket := Some (step6_ticket ws), strike_count := Some 0\<rparr>"

definition step6_scenario_b :: "'w node_env \<Rightarrow> 'w runtime_client \<Rightarrow> str \<Rightarrow> ('w, unit) prog" where
  "step6_scenario_b E client ws =
     bnd (rc_edit_file client (PStr (ws @ lit ''/calc.py'')) (PStr (lit ''return a + b'')) (PStr (lit ''return a - b''))) (\<lambda>_.
     bnd (rc_run_action client (PStr (lit ''git log --oneline'')) (PStr ws) None) (\<lambda>before.
     bnd (validator_node E (step6_state_b ws)) (\<lambda>validator_result.
       let state1 = merge (step6_state_b ws) validator_result;
           diagnosis = (case feedback_of state1 of None \<Rightarrow> [] | Some t \<Rightarrow> t)
       in bnd (py_assert (last_validation_passed state1 = Some False) ''expected validation to fail'') (\<lambda>_.
          bnd (py_assert (diagnosis \<noteq> []) ''expected a non-empty truncated diagnosis'') (\<lambda>_.
          bnd (py_assert (validator_router state1 = Executor) ''expected fail-under-cap routing to executor'') (\<lambda>_.
          bnd (rc_run_action client (PStr (lit ''git log --oneline'')) (PStr ws) None) (\<lambda>after.
          bnd (py_assert (length (py_splitlines (py_strip (output after)))
                          = length (py_splitlines (py_strip (output before))))
                 ''expected no commit on the fail path'') (\<lambda>_.
            rc_edit_file client (PStr (ws @ lit ''/calc.py'')) (PStr (lit ''return a - b'')) (PStr (lit ''return a + b''))))))))))"

text \<open>
  The guardrails scenario, over the texts of \<open>syndicate/*.py\<close>. Its five patterns are literal texts
  (the one special character is escaped), so a match of a pattern is an occurrence of the text.
\<close>

definition FORBIDDEN_PATTERNS :: "str list" where
  "FORBIDDEN_PATTERNS =
     [lit ''git add .'', lit ''add -A'', lit ''--force'', lit ''push'', lit ''config --global'']"

definition step6_scenario_c :: "str list \<Rightarrow> ('w, unit) prog" where
  "step6_scenario_c texts =
     py_assert (list_all (\<lambda>text. list_all (\<lambda>pattern. \<not> py_in pattern text) FORBIDDEN_PATTERNS) texts)
       ''forbidden git patterns found''"

definition step6_main :: "'w node_env \<Rightarrow> str \<Rightarrow> str list \<Rightarrow> ('w, unit) prog" where
  "step6_main E ws texts =
     bnd (ne_get_runtime_client E) (\<lambda>client. finally_do
       (bnd (step6_seed client ws) (\<lambda>_.
        bnd (step6_scenario_a E client ws) (\<lambda>_.
        bnd (step6_scenario_b E client ws) (\<lambda>_.
          step6_scenario_c texts))))
       (rc_aclose client))"

section \<open>What it takes to pass verify_step6_validation_git.py\<close>

definition verified_with :: "'w node_env \<Rightarrow> str \<Rightarrow> (int \<Rightarrow> bool) \<Rightarrow> 'w \<Rightarrow> 'w \<Rightarrow> bool" where
  \<comment> \<open>from \<open>w\<close> to \<open>w'\<close> the ticket's verification command was run in the workspace, with an exit code in \<open>Q\<close>\<close>
  "verified_with E ws Q w w' \<longleftrightarrow>
     (\<exists>client w1 r. ne_get_runtime_client E w = (Inr client, w1)
        \<and> rc_run_action client (PStr (lit ''python3 -m pytest -q'')) (PStr ws) (Some VALIDATOR_TIMEOUT_SECONDS) w1 = (Inr r, w')
        \<and> Q (exit_code r))"

lemma validator_real_run:
  assumes "validator_node E s w = (Inr d, w')" and "real_client E" and "active_ticket s = Some (step6_ticket ws)"
    and "ws \<noteq> []"
  shows "verified_with E ws (\<lambda>c. c = 0 \<longleftrightarrow> last_validation_passed (merge s d) = Some True) w w'"
proof -
  have t: "py_or (dget (ticket_of s) ''verification_command'') (PStr DEFAULT_VERIFICATION_COMMAND) = PStr (lit ''python3 -m pytest -q'')"
    "workspace_of (ticket_of s) = PStr ws"
    using assms(3,4) by (simp_all add: ticket_of_def step6_ticket_def dget_def py_or_def workspace_of_def)
  from assms(1) obtain client w1 where c: "ne_get_runtime_client E w = (Inr client, w1)"
    and k: "(if rc_is_mock client then ret [Set_last_validation_passed True]
       else bnd (rc_run_action client (PStr (lit ''python3 -m pytest -q'')) (PStr ws) (Some VALIDATOR_TIMEOUT_SECONDS)) (\<lambda>result.
               if exit_code result = 0
               then ret [Set_last_validation_passed True, Set_validation_diagnosis None]
               else bnd (of_result (truncate_diagnosis (output result))) (\<lambda>diagnosis.
                   ret [Set_last_validation_passed False, Set_validation_diagnosis (Some diagnosis),
                        Set_strike_count (strikes s + 1)]))) w1 = (Inr d, w')"
    unfolding validator_node_def Let_def t by (rule bnd_eq_InrE)
  from c assms(2) have "\<not> rc_is_mock client" by (auto simp: real_client_def)
  with k obtain r where "rc_run_action client (PStr (lit ''python3 -m pytest -q'')) (PStr ws) (Some VALIDATOR_TIMEOUT_SECONDS) w1 = (Inr r, w')"
    and "exit_code r = 0 \<longleftrightarrow> last_validation_passed (merge s d) = Some True"
    by (auto elim!: bnd_eq_InrE split: if_split_asm)
  with c show ?thesis unfolding verified_with_def by blast
qed

lemma scenario_a_verified:
  assumes "step6_scenario_a E client ws w = (Inr u, w')" and "real_client E" and "ws \<noteq> []"
  shows "\<exists>w1. verified_with E ws (\<lambda>c. c = 0) w w1"
proof -
  from assms(1) obtain d w1 where v: "validator_node E (step6_state_a ws) w = (Inr d, w1)"
    and a: "last_validation_passed (merge (step6_state_a ws) d) = Some True"
    unfolding step6_scenario_a_def Let_def by (elim bnd_eq_InrE) (auto simp: py_assert_Inr_iff)
  from validator_real_run [OF v assms(2) _ assms(3)] a show ?thesis by (auto simp: step6_state_a_def)
qed

text \<open>The implementation is broken before the second verification, and repaired at the end.\<close>

definition breaks_calc :: "'w runtime_client \<Rightarrow> str \<Rightarrow> 'w \<Rightarrow> 'w \<Rightarrow> bool" where
  "breaks_calc client ws w w' \<longleftrightarrow>
     (\<exists>w1 log. rc_edit_file client (PStr (ws @ lit ''/calc.py'')) (PStr (lit ''return a + b'')) (PStr (lit ''return a - b'')) w = (Inr (), w1)
        \<and> rc_run_action client (PStr (lit ''git log --oneline'')) (PStr ws) None w1 = (Inr log, w'))"

lemma scenario_b_verified:
  assumes "step6_scenario_b E client ws w = (Inr u, w')" and "real_client E" and "ws \<noteq> []"
  shows "\<exists>w1 w2. breaks_calc client ws w w1 \<and> verified_with E ws (\<lambda>c. c \<noteq> 0) w1 w2"
proof -
  from assms(1) obtain d w0 w1 where b: "breaks_calc client ws w w0" and v: "validator_node E (step6_state_b ws) w0 = (Inr d, w1)"
    and a: "last_validation_passed (merge (step6_state_b ws) d) = Some False"
    unfolding step6_scenario_b_def Let_def breaks_calc_def by (elim bnd_eq_InrE) (auto simp: py_assert_Inr_iff)
  from validator_real_run [OF v assms(2) _ assms(3)] a b show ?thesis by (auto simp: step6_state_b_def)
qed

section \<open>A sandbox with which the harness passes\<close>

definition step6_queues :: "action_result list \<Rightarrow> action_result list \<Rightarrow> action_result list \<Rightarrow> action_result list \<Rightarrow> (str \<times> action_result list) list" where
  "step6_queues py lg st he =
     [(lit ''python3'', py), (lit ''git log'', lg), (lit ''git status'', st), (lit ''git rev-parse HEAD'', he)]"

definition step6_world :: "mock_files \<Rightarrow> (str \<times> action_result list) list \<Rightarrow> pyval list \<Rightarrow> scripted" where
  "step6_world f q cs = \<lparr>scr_files = f, scr_queues = q, scr_commands = cs\<rparr>"

abbreviation committed_log :: action_result where
  "committed_log \<equiv> answer 0 ''bbb [STEP6-SAMPLE] step6 verification harness run''"

definition seeded_files :: mock_files where
  "seeded_files = [PStr (lit ''/ws/tests/test_calc.py'') \<mapsto> PStr STEP6_TEST_CALC_PY,
     PStr (lit ''/ws/.gitignore'') \<mapsto> PStr GITIGNORE, PStr (lit ''/ws/calc.py'') \<mapsto> PStr STEP6_CALC_PY]"

lemma step6_world_inject [simp]: "step6_world f q a = step6_world g r b \<longleftrightarrow> f = g \<and> q = r \<and> a = b"
  by (simp add: step6_world_def)

lemma scripted_edit:
  "f (PStr p) = Some (PStr c) \<Longrightarrow> rc_edit_file (scripted_client P) (PStr p) (PStr old) (PStr new) (step6_world f q cs)
     = (Inr (), step6_world (f(PStr p \<mapsto> PStr (py_replace_first c old new))) q cs)"
  by (simp add: scripted_client_def scripted_edit_file_def on_files_def mock_read_file_def mock_write_file_def
        step6_world_def bnd_app)

lemma scripted_answer:
  "scripted_run_action P (PStr a) cwd t (step6_world f q cs) =
     (case scripted_pop a q of
        Some (r, qs) \<Rightarrow> (Inr r, step6_world f qs (cs @ [PStr a]))
      | None \<Rightarrow> (Inr \<lparr>exit_code = 0, output = lit ''[scripted] '' @ a\<rparr>, step6_world f q (cs @ [PStr a])))"
  by (simp add: scripted_action step6_world_def split: option.splits)

lemma scripted_write:
  "rc_write_file (scripted_client P) (PStr p) c (step6_world f q cs) = (Inr (), step6_world (f(PStr p \<mapsto> c)) q cs)"
  by (simp add: scripted_client_def on_files_def mock_write_file_def step6_world_def)

lemma seed_demo:
  "\<exists>cs'. step6_seed (scripted_client P) (lit ''/ws'') (step6_world Map.empty (step6_queues py lg st he) cs)
     = (Inr (), step6_world seeded_files (step6_queues py lg st he) cs')"
  by (simp add: step6_seed_def scripted_answer scripted_write step6_queues_def seeded_files_def lit_append [symmetric] is_prefix_lit)

lemmas step6_eval = bnd_app scripted_answer scripted_write step6_queues_def Let_def split_beta

lemma ticket_reads:
  "ticket_of (step6_state_a ws) = step6_ticket ws" "ticket_of (step6_state_b ws) = step6_ticket ws"
  "dget (step6_ticket ws) ''verification_command'' = PStr (lit ''python3 -m pytest -q'')"
  "files_of (step6_ticket ws) = PList [PStr (lit ''calc.py'')]"
  "ws \<noteq> [] \<Longrightarrow> workspace_of (step6_ticket ws) = PStr ws"
  by (simp_all add: step6_state_a_def step6_state_b_def ticket_of_def step6_ticket_def files_of_def dget_def py_or_def workspace_of_def)

lemma strikes_b: "strikes (step6_state_b ws) = 0"
  by (simp add: step6_state_b_def strikes_def)

lemma validator_demo:
  assumes "ticket_of s = step6_ticket (lit ''/ws'')"
  shows "\<exists>cs'. validator_node (scripted_env t) s (step6_world f (step6_queues (answer 0 x # py) lg st he) cs)
     = (Inr [Set_last_validation_passed True, Set_validation_diagnosis None], step6_world f (step6_queues py lg st he) cs')"
    "\<exists>cs'. validator_node (scripted_env t) s (step6_world f (step6_queues (answer 1 ''1 failed'' # py) lg st he) cs)
     = (Inr [Set_last_validation_passed False, Set_validation_diagnosis (Some (lit ''1 failed'')), Set_strike_count (strikes s + 1)],
        step6_world f (step6_queues py lg st he) cs')"
proof -
  have d: "truncate_diagnosis (lit ''1 failed'') = Inr (lit ''1 failed'')" by code_simp
  show "\<exists>cs'. validator_node (scripted_env t) s (step6_world f (step6_queues (answer 0 x # py) lg st he) cs)
     = (Inr [Set_last_validation_passed True, Set_validation_diagnosis None], step6_world f (step6_queues py lg st he) cs')"
    "\<exists>cs'. validator_node (scripted_env t) s (step6_world f (step6_queues (answer 1 ''1 failed'' # py) lg st he) cs)
     = (Inr [Set_last_validation_passed False, Set_validation_diagnosis (Some (lit ''1 failed'')), Set_strike_count (strikes s + 1)],
        step6_world f (step6_queues py lg st he) cs')"
    using d
    by (simp_all add: validator_node_def assms ticket_reads py_or_def scripted_answer step6_queues_def is_prefix_lit answer_def)
qed

lemma oversight_demo:
  assumes "ticket_of s = step6_ticket (lit ''/ws'')"
  shows "\<exists>d cs'. oversight_git_node (scripted_env t) s (step6_world f (step6_queues py lg st [answer 0 ''aaa'', answer 0 ''bbb'']) cs)
     = (Inr d, step6_world f (step6_queues py lg st []) cs')"
proof -
  have h: "head_of (answer 0 ''aaa'') = Some (lit ''aaa'')" "head_of (answer 0 ''bbb'') = Some (lit ''bbb'')" by code_simp+
  have q: "quoted_paths (PList [PStr (lit ''calc.py'')]) = Inr (lit ''calc.py'')" by code_simp
  show ?thesis
    using h
    by (simp add: oversight_git_node_def oversight_commit_def commit_staged_def verify_head_def git_run_def assms ticket_reads
        q git_commands scripted_answer step6_queues_def is_prefix_lit Let_def answer_def)
qed

lemma scenario_a_demo:
  "\<exists>cs'. step6_scenario_a (scripted_env t) (scripted_client (\<lambda>_. True)) (lit ''/ws'')
      (step6_world f (step6_queues (answer 0 [] # py) (committed_log # lg) (answer 0 [] # st) [answer 0 ''aaa'', answer 0 ''bbb'']) cs)
     = (Inr (), step6_world f (step6_queues py lg st []) cs')"
proof -
  obtain cs1 where v: "validator_node (scripted_env t) (step6_state_a (lit ''/ws''))
      (step6_world f (step6_queues (answer 0 [] # py) (committed_log # lg) (answer 0 [] # st) [answer 0 ''aaa'', answer 0 ''bbb'']) cs)
     = (Inr [Set_last_validation_passed True, Set_validation_diagnosis None],
        step6_world f (step6_queues py (committed_log # lg) (answer 0 [] # st) [answer 0 ''aaa'', answer 0 ''bbb'']) cs1)"
    using validator_demo(1) [OF ticket_reads(1)] by metis
  let ?s = "merge (step6_state_a (lit ''/ws'')) [Set_last_validation_passed True, Set_validation_diagnosis None]"
  have s: "ticket_of ?s = step6_ticket (lit ''/ws'')" "last_validation_passed ?s = Some True"
    using ticket_reads(1) [of "lit ''/ws''"] by (simp_all add: ticket_of_def)
  obtain d cs2 where o: "oversight_git_node (scripted_env t) ?s
      (step6_world f (step6_queues py (committed_log # lg) (answer 0 [] # st) [answer 0 ''aaa'', answer 0 ''bbb'']) cs1)
     = (Inr d, step6_world f (step6_queues py (committed_log # lg) (answer 0 [] # st) []) cs2)"
    using oversight_demo [OF s(1)] by metis
  have l: "py_in (lit ''STEP6-SAMPLE'') (output committed_log)" "py_strip (output (answer 0 [])) = []" by code_simp+
  show ?thesis
    using v o s l
    by (simp add: step6_scenario_a_def Let_def validator_router_def validated_def scripted_answer step6_queues_def is_prefix_lit answer_def
          del: merge_Cons)
qed

lemma scenario_b_demo:
  assumes "f (PStr (lit ''/ws/calc.py'')) = Some (PStr STEP6_CALC_PY)"
  shows "\<exists>f' cs'. step6_scenario_b (scripted_env t) (scripted_client (\<lambda>_. True)) (lit ''/ws'')
      (step6_world f (step6_queues (answer 1 ''1 failed'' # py) (committed_log # committed_log # lg) st []) cs)
     = (Inr (), step6_world f' (step6_queues py lg st []) cs')"
proof -
  let ?f = "f(PStr (lit ''/ws/calc.py'') \<mapsto> PStr (py_replace_first STEP6_CALC_PY (lit ''return a + b'') (lit ''return a - b'')))"
  obtain cs1 where v: "validator_node (scripted_env t) (step6_state_b (lit ''/ws''))
      (step6_world ?f (step6_queues (answer 1 ''1 failed'' # py) (committed_log # lg) st []) (cs @ [PStr (lit ''git log --oneline'')]))
     = (Inr [Set_last_validation_passed False, Set_validation_diagnosis (Some (lit ''1 failed'')), Set_strike_count 1],
        step6_world ?f (step6_queues py (committed_log # lg) st []) cs1)"
    using validator_demo(2) [OF ticket_reads(2)] by (metis add_0 strikes_b)
  let ?s = "merge (step6_state_b (lit ''/ws'')) [Set_last_validation_passed False, Set_validation_diagnosis (Some (lit ''1 failed'')), Set_strike_count 1]"
  have s: "last_validation_passed ?s = Some False" "feedback_of ?s = Some (lit ''1 failed'')" "validator_router ?s = Executor"
    by (simp_all add: feedback_of_def validator_router_def validated_def strikes_def MAX_STRIKES_def)
  show ?thesis
    using v s assms
    by (simp add: step6_scenario_b_def Let_def lit_append [symmetric] scripted_edit scripted_answer step6_queues_def is_prefix_lit answer_def
          del: merge_Cons)
qed

section \<open>Properties\<close>

text \<open>
  C37: the harness cannot be passed by a sandbox that always agrees. When \<open>main\<close> returns, the ticket's
  verification command was run right after the workspace had been seeded, with exit code 0, and again
  right after the implementation had been broken, with another exit code; and no text of the package
  contains one of the forbidden git invocations.
\<close>

theorem step6_pass_certifies:
  assumes "step6_main E ws texts w = (Inr (), w')" and "real_client E" and "ws \<noteq> []"
  shows "(\<exists>client w0 w1 w2 w3 w4 w5. ne_get_runtime_client E w = (Inr client, w0) \<and> step6_seed client ws w0 = (Inr (), w1)
      \<and> verified_with E ws (\<lambda>c. c = 0) w1 w2
      \<and> step6_scenario_a E client ws w1 = (Inr (), w3) \<and> breaks_calc client ws w3 w4
      \<and> verified_with E ws (\<lambda>c. c \<noteq> 0) w4 w5)
    \<and> (\<forall>text \<in> set texts. \<forall>pattern \<in> set FORBIDDEN_PATTERNS. \<not> py_in pattern text)"
proof -
  from assms(1) obtain client w0 w1 w3 w6 where "ne_get_runtime_client E w = (Inr client, w0)" "step6_seed client ws w0 = (Inr (), w1)"
    and a: "step6_scenario_a E client ws w1 = (Inr (), w3)"
    and b: "step6_scenario_b E client ws w3 = (Inr (), w6)" and "\<exists>w7. step6_scenario_c texts w6 = (Inr (), w7)"
    by (auto simp: step6_main_def elim!: bnd_eq_InrE finally_eq_InrE)
  with scenario_a_verified [OF a assms(2,3)] scenario_b_verified [OF b assms(2,3)] show ?thesis
    by (auto simp: step6_scenario_c_def py_assert_app list_all_iff split: if_splits)
qed

theorem step6_pass_certifies_witness:
  "\<exists>w w' w1 w2 w3 w4. step6_main (scripted_env ''ok'') (lit ''/ws'') [lit ''git add -- ''] w = (Inr (), w')
     \<and> verified_with (scripted_env ''ok'') (lit ''/ws'') (\<lambda>c. c = 0) w1 w2
     \<and> verified_with (scripted_env ''ok'') (lit ''/ws'') (\<lambda>c. c \<noteq> 0) w3 w4"
proof -
  let ?E = "scripted_env ''ok''" and ?c = "scripted_client (\<lambda>_. True)" and ?ws = "lit ''/ws''"
  let ?w = "step6_world Map.empty (step6_queues [answer 0 [], answer 1 ''1 failed''] [committed_log, committed_log, committed_log]
      [answer 0 []] [answer 0 ''aaa'', answer 0 ''bbb'']) []"
  obtain cs1 where s: "step6_seed ?c ?ws ?w = (Inr (), step6_world seeded_files
      (step6_queues [answer 0 [], answer 1 ''1 failed''] [committed_log, committed_log, committed_log]
        [answer 0 []] [answer 0 ''aaa'', answer 0 ''bbb'']) cs1)" using seed_demo by metis
  obtain cs2 where a: "step6_scenario_a ?E ?c ?ws (step6_world seeded_files
      (step6_queues [answer 0 [], answer 1 ''1 failed''] [committed_log, committed_log, committed_log]
        [answer 0 []] [answer 0 ''aaa'', answer 0 ''bbb'']) cs1)
      = (Inr (), step6_world seeded_files (step6_queues [answer 1 ''1 failed''] [committed_log, committed_log] [] []) cs2)"
    using scenario_a_demo by metis
  have "seeded_files (PStr (lit ''/ws/calc.py'')) = Some (PStr STEP6_CALC_PY)" by (simp add: seeded_files_def)
  from scenario_b_demo [where f = seeded_files, OF this] obtain f' cs3 where b: "step6_scenario_b ?E ?c ?ws
      (step6_world seeded_files (step6_queues [answer 1 ''1 failed''] [committed_log, committed_log] [] []) cs2)
      = (Inr (), step6_world f' (step6_queues [] [] [] []) cs3)" by metis
  have passed: "step6_main ?E ?ws [lit ''git add -- ''] ?w = (Inr (), step6_world f' (step6_queues [] [] [] []) cs3)"
    using s a b by (simp add: step6_main_def step6_scenario_c_def FORBIDDEN_PATTERNS_def lit_def finally_do_def scripted_client_aclose)
  have "real_client ?E" "?ws \<noteq> []" by (simp_all add: real_client_def scripted_env_def scripted_client_def lit_def)
  with step6_pass_certifies [OF passed] passed show ?thesis by blast
qed

end
