(* ===== verification/Stub_Runs.thy ===== *)
theory Stub_Runs
  imports Entry_Points
begin

text \<open>
  How an attempt of the executor goes when its model is the scripted stub and its sandbox answers
  every command. Beside \<open>always\<close> of the prelude, \<open>keeps_stub m\<close> says that \<open>m\<close> does not touch the stub. \<open>stub_plan\<close> says from the
  script alone how an attempt ends and after how many turns, \<open>attempt_runs\<close> that the loop does just
  that, and \<open>failing_attempts\<close> what the executor's retry loop does when every fast check fails.
\<close>

section \<open>Programs that always return, and programs that leave the stub alone\<close>

definition keeps_stub :: "(('h, 'l) sys_world, 'a) prog \<Rightarrow> bool" where
  "keeps_stub m \<longleftrightarrow> (\<forall>w. sw_stub (snd (m w)) = sw_stub w)"

lemma bnd_of_result [simp]: "bnd (of_result (Inr a)) f = f a"
  by (simp add: fun_eq_iff)

lemma always_on_net: "always m Q \<Longrightarrow> always (on_net m :: (('h, 'l) sys_world, 'a) prog) Q"
  unfolding always_def
proof
  fix w :: "('h, 'l) sys_world"
  assume "\<forall>w. \<exists>r w'. m w = (Inr r, w') \<and> Q r"
  then obtain r h where "m (sw_net w) = (Inr r, h)" "Q r" by blast
  then show "\<exists>r w'. on_net m w = (Inr r, w') \<and> Q r" by (simp add: on_net_def)
qed

lemma always_action:
  "always (openhands_run_action P h cfg a cwd t) Q \<Longrightarrow> always (rc_run_action (sys_openhands_client P h cfg) a cwd t) Q"
  by (simp add: sys_openhands_client_def always_on_net)

lemma always_write:
  "always (openhands_write_file P h cfg p c) Q \<Longrightarrow> always (rc_write_file (sys_openhands_client P h cfg) p c) Q"
  by (simp add: sys_openhands_client_def always_on_net)

lemma keeps_stub_basic [simp, intro]:
  "keeps_stub (ret a)" "keeps_stub (raise e)" "keeps_stub (of_result r)" "keeps_stub (on_net m)" "keeps_stub (Pair q)"
  by (simp_all add: keeps_stub_def on_net_def split: prod.splits)

lemma keeps_stub_bnd [intro]: "keeps_stub m \<Longrightarrow> (\<And>r. keeps_stub (f r)) \<Longrightarrow> keeps_stub (bnd m f)"
  unfolding keeps_stub_def bnd_app by (simp split: prod.splits sum.splits) (metis snd_conv)

lemma keeps_stub_catch [intro]: "keeps_stub m \<Longrightarrow> (\<And>e. keeps_stub (h e)) \<Longrightarrow> keeps_stub (catch m p h)"
  unfolding keeps_stub_def catch_def by (simp split: prod.splits sum.splits) (metis snd_conv)

lemma keeps_stub_client [simp, intro]:
  "keeps_stub (rc_run_action (sys_openhands_client P h cfg) a c t)"
  "keeps_stub (rc_read_file (sys_openhands_client P h cfg) p)"
  "keeps_stub (rc_write_file (sys_openhands_client P h cfg) p t')"
  "keeps_stub (rc_edit_file (sys_openhands_client P h cfg) p old new)"
  by (simp_all add: sys_openhands_client_def)

lemma keeps_stubD: "keeps_stub m \<Longrightarrow> m w = (r, w') \<Longrightarrow> sw_stub w' = sw_stub w"
  unfolding keeps_stub_def by (metis snd_conv)

lemma keeps_stub_tool: "keeps_stub (run_tool E (sys_openhands_client P h cfg) n i cwd)"
  unfolding run_tool_def run_bash_tool_def run_edit_tool_def
  by (auto intro!: keeps_stub_catch keeps_stub_bnd)

lemma keeps_stub_blocks: "keeps_stub (run_tool_blocks E (sys_openhands_client P h cfg) cwd bs)"
proof (induction bs)
  case (Cons b bs)
  then show ?case by (cases b) (auto intro!: keeps_stub_bnd keeps_stub_tool split: prod.splits)
qed simp

section \<open>What a script makes of an attempt\<close>

text \<open>The summary and the number of turns of an attempt with at most \<open>n\<close> turns.\<close>

fun stub_plan :: "nat \<Rightarrow> stub_client \<Rightarrow> str \<times> nat" where
  "stub_plan 0 c = (lit ''tool call cap reached without a final answer'', 0)"
| "stub_plan (Suc n) c =
     (let (turn, c') = next_turn c
      in if st_done turn then (st_text turn, 1)
         else let (s, m) = stub_plan n c' in (s, Suc m))"

text \<open>
  A recorded call carries the conversation so far: two messages more than the call before it, well
  formed, and its last message answers the tool calls of the turn before it, no others.
\<close>

definition call_ok :: "stub_client \<Rightarrow> nat \<Rightarrow> stub_call \<Rightarrow> bool" where
  "call_ok c i m \<longleftrightarrow> call_messages_len m = 1 + 2 * i \<and> length (call_messages m) = 1 + 2 * i
     \<and> conversation_ok (call_messages m)
     \<and> (0 < i \<longrightarrow> (let turn = sc_script c ! min (i - 1) (length (sc_script c) - 1)
          in \<not> st_done turn \<and> (\<exists>rs. msg_content (last (call_messages m)) = CResults rs
             \<and> length rs = length (st_tool_calls turn))))"

definition calls_ok :: "stub_client \<Rightarrow> bool" where
  "calls_ok c \<longleftrightarrow> call_index c = length (calls_seen c) \<and> sc_script c \<noteq> []
     \<and> (\<forall>i < length (calls_seen c). call_ok c i (calls_seen c ! i))"

lemma stub_blocks_ids: "length (tool_ids (stub_blocks ci i ts)) = length ts"
  by (induction ts arbitrary: i) simp_all

lemma conversation_ok_append:
  assumes "conversation_ok (m # ms)" and "even (length ms)" and "rounds_ok ns"
  shows "conversation_ok (m # ms @ ns)"
  using assms by (auto intro: rounds_ok_append)

definition cap_notice :: str where
  "cap_notice = lit ''tool call cap reached without a final answer''"

lemma stub_plan_cong:
  "sc_script c = sc_script c' \<Longrightarrow> call_index c = call_index c' \<Longrightarrow> stub_plan n c = stub_plan n c'"
proof (induction n arbitrary: c c')
  case (Suc n)
  from Suc.IH [of "snd (next_turn c)" "snd (next_turn c')"] Suc.prems show ?case
    by (simp add: next_turn_def split_beta)
qed simp

lemma calls_ok_snoc:
  assumes "calls_ok c" and "call_ok c (length (calls_seen c)) k"
  shows "calls_ok (c\<lparr>calls_seen := calls_seen c @ [k], call_index := call_index c + 1\<rparr>)"
  using assms by (auto simp: calls_ok_def call_ok_def nth_append less_Suc_eq)

text \<open>
  One attempt, whatever the sandbox answers: only its own client object changes, the record of its
  calls stays well formed, and if the attempt returns, then as the script plans.
\<close>

definition attempt_at :: "nat \<Rightarrow> nat \<Rightarrow> message list \<Rightarrow> stub_client \<Rightarrow> stub_state \<Rightarrow> stub_state
    \<Rightarrow> (exc + str \<times> message list) \<Rightarrow> bool" where
  "attempt_at a n msgs c s s' r \<longleftrightarrow>
     (\<exists>c'. s' = s\<lparr>ss_heap := (ss_heap s)[a := c']\<rparr> \<and> calls_ok c' \<and> sc_script c' = sc_script c
        \<and> (\<exists>ks. calls_seen c' = calls_seen c @ ks \<and> (0 < n \<longrightarrow> ks \<noteq> [] \<and> call_messages (hd ks) = msgs))
        \<and> (\<forall>summ ms. r = Inr (summ, ms) \<longrightarrow> summ = fst (stub_plan n c)
             \<and> length (calls_seen c') = length (calls_seen c) + snd (stub_plan n c)))"

lemma attempt_turns:
  assumes "a < length (ss_heap (sw_stub w))" and "ss_heap (sw_stub w) ! a = c"
    and "calls_ok c" and "call_ok c (length (calls_seen c)) k" and "call_messages k = msgs"
    and "agentic_turns E (sys_openhands_client P h cfg) (sys_stub_client a) cwd n msgs w = (r, w')"
  shows "attempt_at a n msgs c (sw_stub w) (sw_stub w') r"
  using assms
proof (induction n arbitrary: w c k msgs)
  case 0
  then show ?case by (auto simp: attempt_at_def intro!: exI [of _ c])
next
  case (Suc n)
  let ?C = "sys_openhands_client P h cfg"
  let ?k = "\<lparr>call_model = EXECUTOR_MODEL, call_max_tokens = 8096, call_tools = EXECUTOR_TOOLS,
      call_messages = msgs, call_messages_len = length msgs\<rparr>"
  let ?c = "c\<lparr>calls_seen := calls_seen c @ [?k], call_index := call_index c + 1\<rparr>"
  let ?s = "(sw_stub w)\<lparr>ss_heap := (ss_heap (sw_stub w))[a := ?c]\<rparr>"
  define turn where "turn = sc_script c ! min (call_index c) (length (sc_script c) - 1)"
  have nt: "next_turn c = (turn, c\<lparr>call_index := call_index c + 1\<rparr>)" by (simp add: next_turn_def turn_def)
  have k: "call_ok c (length (calls_seen c)) ?k"
    using Suc.prems(4,5) by (auto simp: call_ok_def)
  have c: "calls_ok ?c" by (rule calls_ok_snoc [OF Suc.prems(3) k])
  define rsp where "rsp = (if st_done turn then \<lparr>rsp_content = [TextBlock (st_text turn)], stop_reason = lit ''end_turn''\<rparr>
      else \<lparr>rsp_content = stub_blocks (call_index c + 1) 0 (st_tool_calls turn), stop_reason = lit ''tool_use''\<rparr>)"
  have create: "messages_create (sys_stub_client a) EXECUTOR_MODEL 8096 EXECUTOR_TOOLS msgs w = (Inr rsp, w\<lparr>sw_stub := ?s\<rparr>)"
    using Suc.prems(2) nt
    by (simp add: sys_stub_client_def on_stub_def stub_messages_create_def stub_create_def next_turn_def turn_def rsp_def)
  have plan: "stub_plan (Suc n) c = (if st_done turn then (st_text turn, 1)
      else (fst (stub_plan n ?c), Suc (snd (stub_plan n ?c))))"
    using nt stub_plan_cong [of "c\<lparr>call_index := call_index c + 1\<rparr>" ?c n] by (simp add: split_beta)
  let ?m1 = "msgs @ [\<lparr>msg_role = Assistant, msg_content = CBlocks (rsp_content rsp)\<rparr>]"
  show ?case
  proof (cases "st_done turn")
    case True
    with Suc.prems(6) create have "r = Inr (text_of [TextBlock (st_text turn)], ?m1)" "w' = w\<lparr>sw_stub := ?s\<rparr>"
      by (simp_all add: rsp_def Let_def)
    with True c plan show ?thesis
      by (auto simp: attempt_at_def text_of_def intro!: exI [of _ ?c])
  next
    case False
    obtain q w2 where b: "run_tool_blocks E ?C cwd (rsp_content rsp) (w\<lparr>sw_stub := ?s\<rparr>) = (q, w2)"
      by (cases "run_tool_blocks E ?C cwd (rsp_content rsp) (w\<lparr>sw_stub := ?s\<rparr>)")
    have s2: "sw_stub w2 = ?s" using keeps_stubD [OF keeps_stub_blocks b] by simp
    have step: "agentic_turns E ?C (sys_stub_client a) cwd (Suc n) msgs w
        = (case q of Inl e \<Rightarrow> (Inl e, w2) | Inr rs \<Rightarrow> agentic_turns E ?C (sys_stub_client a) cwd n
             (?m1 @ [\<lparr>msg_role = User, msg_content = CResults rs\<rparr>]) w2)"
      using False create b by (cases q) (simp_all add: rsp_def Let_def bnd_app)
    show ?thesis
    proof (cases q)
      case (Inl e)
      with step Suc.prems(6) have "r = Inl e" "w' = w2" by simp_all
      with s2 c show ?thesis by (auto simp: attempt_at_def intro!: exI [of _ ?c])
    next
      case (Inr rs)
      let ?u = "[\<lparr>msg_role = Assistant, msg_content = CBlocks (rsp_content rsp)\<rparr>, \<lparr>msg_role = User, msg_content = CResults rs\<rparr>]"
      have ids: "map tool_use_id rs = tool_ids (rsp_content rsp)"
        by (rule run_tool_blocks_ids [OF b [unfolded Inr]])
      have lrs: "length rs = length (st_tool_calls turn)"
        using ids stub_blocks_ids [of "call_index c + 1" 0 "st_tool_calls turn"] False
        by (metis length_map response.select_convs(1) rsp_def)
      obtain m ms where ms: "msgs = m # ms" "even (length ms)"
        using k by (cases msgs) (auto simp: call_ok_def)
      have conv: "conversation_ok (msgs @ ?u)"
        unfolding ms(1) append_Cons by (rule conversation_ok_append) (use k ms ids in \<open>auto simp: call_ok_def\<close>)
      let ?k2 = "?k\<lparr>call_messages := msgs @ ?u, call_messages_len := length msgs + 2\<rparr>"
      have ci: "call_index c = length (calls_seen c)" using Suc.prems(3) by (simp add: calls_ok_def)
      have k2: "call_ok ?c (length (calls_seen ?c)) ?k2"
        using k conv lrs False by (auto simp: call_ok_def turn_def ci Let_def)
      have "agentic_turns E ?C (sys_stub_client a) cwd n (msgs @ ?u) w2 = (r, w')"
        using step Suc.prems(6) Inr by simp
      from Suc.IH [OF _ _ c k2 _ this] s2 Suc.prems(1)
      have "attempt_at a n (msgs @ ?u) ?c ?s (sw_stub w') r" by simp
      then obtain c' where "sw_stub w' = ?s\<lparr>ss_heap := (ss_heap ?s)[a := c']\<rparr>" "calls_ok c'" "sc_script c' = sc_script ?c"
        "\<exists>ks. calls_seen c' = calls_seen ?c @ ks"
        "\<forall>summ ms. r = Inr (summ, ms) \<longrightarrow> summ = fst (stub_plan n ?c)
             \<and> length (calls_seen c') = length (calls_seen ?c) + snd (stub_plan n ?c)"
        unfolding attempt_at_def by blast
      then show ?thesis
        using False plan unfolding attempt_at_def by (intro exI [of _ c']) auto
    qed
  qed
qed

definition tools_run :: "('h, 'l) sys_world node_env \<Rightarrow> ('h, 'l) sys_world runtime_client \<Rightarrow> pyval \<Rightarrow> stub_turn list \<Rightarrow> bool" where
  "tools_run E client cwd script \<longleftrightarrow>
     (\<forall>turn \<in> set script. \<forall>ci. always (run_tool_blocks E client cwd (stub_blocks ci 0 (st_tool_calls turn))) (\<lambda>_. True))"

lemma attempt_returns:
  assumes "tools_run E (sys_openhands_client P h cfg) cwd (sc_script c)" and "sc_script c \<noteq> []"
    and "a < length (ss_heap (sw_stub w))" and "ss_heap (sw_stub w) ! a = c"
  shows "\<exists>x w'. agentic_turns E (sys_openhands_client P h cfg) (sys_stub_client a) cwd n msgs w = (Inr x, w')"
  using assms
proof (induction n arbitrary: w c msgs)
  case 0
  then show ?case by simp
next
  case (Suc n)
  let ?C = "sys_openhands_client P h cfg"
  define turn where "turn = sc_script c ! min (call_index c) (length (sc_script c) - 1)"
  have t: "turn \<in> set (sc_script c)"
    unfolding turn_def by (rule nth_mem) (use Suc.prems(2) in \<open>cases "sc_script c"; simp\<close>)
  obtain rsp c1 where cr: "stub_create EXECUTOR_MODEL 8096 EXECUTOR_TOOLS msgs c = (rsp, c1)" by fastforce
  then have r: "sc_script c1 = sc_script c" "rsp = (if st_done turn then \<lparr>rsp_content = [TextBlock (st_text turn)], stop_reason = lit ''end_turn''\<rparr>
      else \<lparr>rsp_content = stub_blocks (call_index c + 1) 0 (st_tool_calls turn), stop_reason = lit ''tool_use''\<rparr>)"
    by (auto simp: stub_create_def next_turn_def turn_def Let_def split: if_splits)
  let ?w1 = "w\<lparr>sw_stub := (sw_stub w)\<lparr>ss_heap := (ss_heap (sw_stub w))[a := c1]\<rparr>\<rparr>"
  have create: "messages_create (sys_stub_client a) EXECUTOR_MODEL 8096 EXECUTOR_TOOLS msgs w = (Inr rsp, ?w1)"
    using Suc.prems(4) cr by (simp add: sys_stub_client_def on_stub_def stub_messages_create_def)
  show ?case
  proof (cases "st_done turn")
    case True
    with create r show ?thesis by (simp add: Let_def)
  next
    case False
    from Suc.prems(1) t have "always (run_tool_blocks E ?C cwd (rsp_content rsp)) (\<lambda>_. True)"
      unfolding tools_run_def r(2) using False by simp
    then obtain rs w2 where b: "run_tool_blocks E ?C cwd (rsp_content rsp) ?w1 = (Inr rs, w2)" by (rule alwaysE)
    have "sw_stub w2 = sw_stub ?w1" using keeps_stubD [OF keeps_stub_blocks b] .
    with Suc.IH [of c1 w2] Suc.prems r(1) create b False r(2) show ?thesis by (simp add: Let_def)
  qed
qed

section \<open>An attempt with a stub of its own\<close>

definition heap_ok :: "stub_state \<Rightarrow> bool" where
  "heap_ok s \<longleftrightarrow> stub_wf s \<and> (\<forall>c \<in> set (ss_heap s). calls_ok c)"

definition history_of :: "stub_state \<Rightarrow> pyval \<Rightarrow> nat list" where
  "history_of s k = (case ss_history s k of None \<Rightarrow> [] | Some h \<Rightarrow> h)"

definition add_attempt :: "pyval \<Rightarrow> stub_client \<Rightarrow> stub_state \<Rightarrow> stub_state" where
  "add_attempt k c s = s\<lparr>ss_history := (ss_history s)(k \<mapsto> history_of s k @ [length (ss_heap s)]), ss_heap := ss_heap s @ [c]\<rparr>"

definition fresh_stub :: "stub_turn list \<Rightarrow> stub_client" where
  "fresh_stub script = \<lparr>sc_script = script, call_index = 0, calls_seen = []\<rparr>"

lemma call_ok_first: "call_ok c 0 \<lparr>call_model = m, call_max_tokens = n, call_tools = tls,
    call_messages = [opening_message tp fb], call_messages_len = 1\<rparr>"
  using opening_message_text [of tp fb] by (auto simp: call_ok_def)

lemma add_attempt_ok: "heap_ok s \<Longrightarrow> calls_ok c \<Longrightarrow> heap_ok (add_attempt k c s)"
  unfolding heap_ok_def add_attempt_def stub_wf_def history_of_def
  by (auto simp: less_Suc_eq split: option.splits) (metis (no_types))

definition uses_stub :: "('h, 'l) sys_world node_env \<Rightarrow> bool" where
  "uses_stub E \<longleftrightarrow> (\<exists>P anthropic env. env (lit ''SYNDICATE_STUB_LLM'') = Some (lit ''1'')
     \<and> ne_get_llm_client E = get_llm_client P anthropic env)"

lemma attempt_runs:
  assumes "uses_stub E" and "run_agentic_loop E (sys_openhands_client P h cfg) tp fb cwd tid w = (r, w')"
  shows "(\<exists>e. r = Inl e) \<and> sw_stub w' = sw_stub w
    \<or> (\<exists>k script c. hash_key (py_or tid (PStr [])) = Inr k \<and> ss_scripts (sw_stub w) k = Some script
        \<and> sw_stub w' = add_attempt k c (sw_stub w) \<and> calls_ok c \<and> sc_script c = script
        \<and> calls_seen c \<noteq> [] \<and> call_messages (hd (calls_seen c)) = [opening_message tp fb]
        \<and> (\<forall>summ. r = Inr summ \<longrightarrow> summ = fst (stub_plan MAX_TOOL_CALLS (fresh_stub script))
             \<and> length (calls_seen c) = snd (stub_plan MAX_TOOL_CALLS (fresh_stub script))))"
proof -
  obtain Q anthropic env where env: "env (lit ''SYNDICATE_STUB_LLM'') = Some (lit ''1'')"
    and E: "ne_get_llm_client E = get_llm_client Q anthropic env"
    using assms(1) unfolding uses_stub_def by blast
  obtain q s1 where g: "get_stub_client Q (py_or tid (PStr [])) (sw_stub w) = (q, s1)" by fastforce
  show ?thesis
  proof (cases q)
    case (Inl e)
    with g have "s1 = sw_stub w" by (auto simp: get_stub_client_def split: sum.splits option.splits)
    moreover have "ne_get_llm_client E tid w = (Inl e, w\<lparr>sw_stub := s1\<rparr>)"
      using g Inl by (simp add: E get_llm_client_def env on_stub_def bnd_app)
    ultimately show ?thesis using assms(2) by (auto simp: run_agentic_loop_def)
  next
    case (Inr a)
    with g obtain k script where k: "hash_key (py_or tid (PStr [])) = Inr k" "ss_scripts (sw_stub w) k = Some script"
      "script \<noteq> []" "a = length (ss_heap (sw_stub w))" "s1 = add_attempt k (fresh_stub script) (sw_stub w)"
      by (auto simp: get_stub_client_def stub_init_def add_attempt_def history_of_def fresh_stub_def
            split: sum.splits option.splits if_splits)
    let ?w1 = "w\<lparr>sw_stub := s1\<rparr>" and ?c = "fresh_stub script"
    have l: "ne_get_llm_client E tid w = (Inr (sys_stub_client a), ?w1)"
      using g Inr by (simp add: E get_llm_client_def env on_stub_def bnd_app)
    obtain x w2 where t: "agentic_turns E (sys_openhands_client P h cfg) (sys_stub_client a) cwd MAX_TOOL_CALLS
        [opening_message tp fb] ?w1 = (x, w2)" by fastforce
    have r: "r = (case x of Inl e \<Rightarrow> Inl e | Inr (summ, ms) \<Rightarrow> Inr summ)" "w' = w2"
      using assms(2) l t by (auto simp: run_agentic_loop_def bnd_app split: sum.splits)
    have h: "a < length (ss_heap (sw_stub ?w1))" "ss_heap (sw_stub ?w1) ! a = ?c" "calls_ok ?c"
      using k by (simp_all add: add_attempt_def fresh_stub_def calls_ok_def)
    have "call_ok ?c (length (calls_seen ?c)) \<lparr>call_model = [], call_max_tokens = 0, call_tools = [],
        call_messages = [opening_message tp fb], call_messages_len = 1\<rparr>"
      using call_ok_first by (simp add: fresh_stub_def)
    from attempt_turns [OF h this _ t] obtain c' ks where c': "sw_stub w2 = s1\<lparr>ss_heap := (ss_heap s1)[a := c']\<rparr>"
      "calls_ok c'" "sc_script c' = script" "calls_seen c' = ks" "ks \<noteq> []" "call_messages (hd ks) = [opening_message tp fb]"
      "\<forall>summ ms. x = Inr (summ, ms) \<longrightarrow> summ = fst (stub_plan MAX_TOOL_CALLS ?c)
             \<and> length (calls_seen c') = snd (stub_plan MAX_TOOL_CALLS ?c)"
      by (auto simp: attempt_at_def fresh_stub_def MAX_TOOL_CALLS_def)
    have "sw_stub w2 = add_attempt k c' (sw_stub w)"
      using c'(1) k(4,5) by (simp add: add_attempt_def list_update_append)
    moreover have "\<forall>summ. r = Inr summ \<longrightarrow> summ = fst (stub_plan MAX_TOOL_CALLS ?c)
             \<and> length (calls_seen c') = snd (stub_plan MAX_TOOL_CALLS ?c)"
      using c'(7) r(1) by (auto split: sum.splits)
    ultimately show ?thesis using c' k r(2) by blast
  qed
qed

section \<open>The executor with a stubbed model\<close>

lemma keeps_stub_checks: "keeps_stub (run_fast_checks (sys_openhands_client P h cfg) cwd)"
proof -
  have "keeps_stub (fast_checks_from (sys_openhands_client P h cfg) cwd as)" for as
    by (induction as) (auto intro!: keeps_stub_bnd)
  then show ?thesis by (simp add: run_fast_checks_def)
qed

lemma attempt_heap_ok:
  assumes "uses_stub E" and "heap_ok (sw_stub w)"
    and "run_agentic_loop E (sys_openhands_client P h cfg) tp fb cwd tid w = (r, w')"
  shows "heap_ok (sw_stub w')"
  using attempt_runs [OF assms(1,3)] assms(2) add_attempt_ok by auto

text \<open>The retry loop from its two parts, as an equation on what they return.\<close>

lemma executor_loop_unfold:
  assumes "strike < MAX_STRIKES" and "run_agentic_loop E client tp fb wd tid w = (r, w1)"
  shows "executor_loop E client tp wd tid strike fb alog w =
    (case r of Inl e \<Rightarrow> (Inl e, w1)
     | Inr summ \<Rightarrow> (case run_fast_checks client wd w1 of
         (Inl e, w2) \<Rightarrow> (Inl e, w2)
       | (Inr check, w2) \<Rightarrow>
           if exit_code check = 0
           then (Inr [Set_attempt_log (alog @ [summary_line E (strike + 1) summ, fast_check_line E (strike + 1) check]),
                  Set_ticket_status LOCAL_PASS, Set_strike_count (strike + 1), Set_validation_diagnosis None], w2)
           else executor_loop E client tp wd tid (strike + 1) (Some (output check))
                  (alog @ [summary_line E (strike + 1) summ, fast_check_line E (strike + 1) check]) w2))"
  using assms by (subst executor_loop.simps) (auto simp: Let_def bnd_app split: prod.splits sum.splits)

lemma executor_loop_heap_ok:
  assumes "uses_stub E" and "heap_ok (sw_stub w)"
    and "executor_loop E (sys_openhands_client P h cfg) tp wd tid strike fb alog w = (r, w')"
  shows "heap_ok (sw_stub w')"
  using assms(2,3)
proof (induction "nat (MAX_STRIKES - strike)" arbitrary: strike fb alog w)
  case 0
  then show ?case by (simp add: executor_loop.simps)
next
  case (Suc n)
  let ?C = "sys_openhands_client P h cfg"
  have s: "strike < MAX_STRIKES" using Suc.hyps(2) by simp
  obtain q w1 where a: "run_agentic_loop E ?C tp fb wd tid w = (q, w1)" by fastforce
  note ok1 = attempt_heap_ok [OF assms(1) Suc.prems(1) a]
  note u = executor_loop_unfold [OF s a, of alog]
  obtain p w2 where c: "run_fast_checks ?C wd w1 = (p, w2)" by fastforce
  have ok2: "heap_ok (sw_stub w2)" using keeps_stubD [OF keeps_stub_checks c] ok1 by simp
  show ?case
  proof (cases "\<exists>summ check. q = Inr summ \<and> p = Inr check \<and> exit_code check \<noteq> 0")
    case True
    then obtain summ check where qc: "q = Inr summ" "p = Inr check" "exit_code check \<noteq> 0" by blast
    with u c Suc.prems(2) have "executor_loop E ?C tp wd tid (strike + 1) (Some (output check))
        (alog @ [summary_line E (strike + 1) summ, fast_check_line E (strike + 1) check]) w2 = (r, w')" by simp
    moreover have "n = nat (MAX_STRIKES - (strike + 1))" using Suc.hyps(2) by simp
    ultimately show ?thesis using Suc.hyps(1) ok2 by blast
  next
    case False
    with u c Suc.prems(2) ok1 ok2 show ?thesis by (auto split: sum.splits if_splits)
  qed
qed

text \<open>What the retry loop does when every fast check fails.\<close>

fun attempt_lines :: "'w node_env \<Rightarrow> int \<Rightarrow> str \<Rightarrow> action_result list \<Rightarrow> str list" where
  "attempt_lines E n summ [] = []"
| "attempt_lines E n summ (c # cs) =
     [summary_line E (n + 1) summ, fast_check_line E (n + 1) c] @ attempt_lines E (n + 1) summ cs"

fun openings :: "str \<Rightarrow> str option \<Rightarrow> action_result list \<Rightarrow> message list" where
  "openings tp fb [] = []"
| "openings tp fb (c # cs) = opening_message tp fb # openings tp (Some (output c)) cs"

lemma length_openings [simp]: "length (openings tp fb cs) = length cs"
  by (induction cs arbitrary: fb) simp_all

definition attempt_of :: "stub_turn list \<Rightarrow> message \<Rightarrow> stub_client \<Rightarrow> bool" where
  "attempt_of script opening c \<longleftrightarrow> calls_ok c \<and> sc_script c = script \<and> calls_seen c \<noteq> []
     \<and> call_messages (hd (calls_seen c)) = [opening]
     \<and> length (calls_seen c) = snd (stub_plan MAX_TOOL_CALLS (fresh_stub script))"

lemma add_attempt_scripts [simp]: "ss_scripts (add_attempt k c s) = ss_scripts s"
  by (simp add: add_attempt_def)

lemma get_last_llm:
  assumes "uses_stub E" and "hash_key (py_or tid (PStr [])) = Inr k" and "ss_scripts (sw_stub w) k = Some script"
    and "script \<noteq> []" and "tools_run E (sys_openhands_client P h cfg) wd script"
  shows "\<exists>c w'. run_agentic_loop E (sys_openhands_client P h cfg) tp fb wd tid w
      = (Inr (fst (stub_plan MAX_TOOL_CALLS (fresh_stub script))), w')
    \<and> sw_stub w' = add_attempt k c (sw_stub w) \<and> attempt_of script (opening_message tp fb) c"
proof -
  obtain Q anthropic env where env: "env (lit ''SYNDICATE_STUB_LLM'') = Some (lit ''1'')"
    and E: "ne_get_llm_client E = get_llm_client Q anthropic env"
    using assms(1) unfolding uses_stub_def by blast
  let ?a = "length (ss_heap (sw_stub w))" and ?w1 = "w\<lparr>sw_stub := add_attempt k (fresh_stub script) (sw_stub w)\<rparr>"
  have l: "ne_get_llm_client E tid w = (Inr (sys_stub_client ?a), ?w1)"
    using assms(2-4) by (simp add: E get_llm_client_def env on_stub_def bnd_app get_stub_client_def stub_init_def
        add_attempt_def history_of_def fresh_stub_def)
  obtain x w' where "agentic_turns E (sys_openhands_client P h cfg) (sys_stub_client ?a) wd MAX_TOOL_CALLS
      [opening_message tp fb] ?w1 = (Inr x, w')"
    using attempt_returns [of E P h cfg wd "fresh_stub script" ?a ?w1 MAX_TOOL_CALLS "[opening_message tp fb]"] assms(4,5)
    by (auto simp: add_attempt_def fresh_stub_def)
  with l have r: "run_agentic_loop E (sys_openhands_client P h cfg) tp fb wd tid w = (Inr (fst x), w')"
    by (simp add: run_agentic_loop_def split_beta)
  from attempt_runs [OF assms(1) r] r assms(2,3) show ?thesis by (auto simp: attempt_of_def)
qed

lemma failing_attempts:
  fixes E :: "('h, 'l) sys_world node_env"
  assumes "uses_stub E" and "hash_key (py_or tid (PStr [])) = Inr k" and "ss_scripts (sw_stub w) k = Some script"
    and "script \<noteq> []" and "tools_run E (sys_openhands_client P h cfg) wd script"
    and "always (run_fast_checks (sys_openhands_client P h cfg :: ('h, 'l) sys_world runtime_client) wd) (\<lambda>r. exit_code r \<noteq> 0 \<and> Q r)"
    and "strike \<le> MAX_STRIKES"
  shows "\<exists>checks cs w'. executor_loop E (sys_openhands_client P h cfg) tp wd tid strike fb alog w
      = (Inr [Set_attempt_log (alog @ attempt_lines E strike (fst (stub_plan MAX_TOOL_CALLS (fresh_stub script))) checks),
          Set_ticket_status ESCALATED, Set_strike_count MAX_STRIKES], w')
    \<and> length checks = nat (MAX_STRIKES - strike) \<and> (\<forall>c \<in> set checks. exit_code c \<noteq> 0 \<and> Q c)
    \<and> sw_stub w' = fold (add_attempt k) cs (sw_stub w) \<and> list_all2 (attempt_of script) (openings tp fb checks) cs"
  using assms(3,7)
proof (induction "nat (MAX_STRIKES - strike)" arbitrary: strike fb alog w)
  case 0
  then have "strike = MAX_STRIKES" by simp
  then show ?case
    by (intro exI [of _ "[]"] exI [of _ w]) (simp add: executor_loop.simps)
next
  case (Suc n)
  let ?C = "sys_openhands_client P h cfg" and ?s = "fst (stub_plan MAX_TOOL_CALLS (fresh_stub script))"
  have st: "strike < MAX_STRIKES" using Suc.hyps(2) by simp
  obtain c w1 where a: "run_agentic_loop E ?C tp fb wd tid w = (Inr ?s, w1)"
    "sw_stub w1 = add_attempt k c (sw_stub w)" "attempt_of script (opening_message tp fb) c"
    using get_last_llm [OF assms(1,2) Suc.prems(1) assms(4,5)] by blast
  from assms(6) obtain check w2 where ch: "run_fast_checks ?C wd w1 = (Inr check, w2)"
    "exit_code check \<noteq> 0 \<and> Q check" unfolding always_def by blast
  have s2: "sw_stub w2 = add_attempt k c (sw_stub w)" using keeps_stubD [OF keeps_stub_checks ch(1)] a(2) by simp
  let ?l = "alog @ [summary_line E (strike + 1) ?s, fast_check_line E (strike + 1) check]"
  have "n = nat (MAX_STRIKES - (strike + 1))" "ss_scripts (sw_stub w2) k = Some script" "strike + 1 \<le> MAX_STRIKES"
    using Suc.hyps(2) Suc.prems s2 by simp_all
  from Suc.hyps(1) [OF this, of "Some (output check)" ?l] obtain checks cs w' where
    rec: "executor_loop E ?C tp wd tid (strike + 1) (Some (output check)) ?l w2
      = (Inr [Set_attempt_log (?l @ attempt_lines E (strike + 1) ?s checks),
          Set_ticket_status ESCALATED, Set_strike_count MAX_STRIKES], w')"
    and p: "length checks = nat (MAX_STRIKES - (strike + 1))" "\<forall>c \<in> set checks. exit_code c \<noteq> 0 \<and> Q c"
      "sw_stub w' = fold (add_attempt k) cs (sw_stub w2)"
      "list_all2 (attempt_of script) (openings tp (Some (output check)) checks) cs" by blast
  have "executor_loop E ?C tp wd tid strike fb alog w
      = (Inr [Set_attempt_log (alog @ attempt_lines E strike ?s (check # checks)),
          Set_ticket_status ESCALATED, Set_strike_count MAX_STRIKES], w')"
    using executor_loop_unfold [OF st a(1), of alog] ch rec by simp
  moreover have "length (check # checks) = nat (MAX_STRIKES - strike)" using p(1) st by simp
  moreover have "sw_stub w' = fold (add_attempt k) (c # cs) (sw_stub w)" using p(3) s2 by simp
  ultimately show ?case
    using p(2,4) ch(2) a(3) by (intro exI [of _ "check # checks"] exI [of _ "c # cs"] exI [of _ w']) simp
qed

lemma add_attempt_reads [simp]:
  "history_of (add_attempt k c s) k = history_of s k @ [length (ss_heap s)]"
  "ss_heap (add_attempt k c s) = ss_heap s @ [c]"
  by (simp_all add: add_attempt_def history_of_def)

lemma history_fold:
  "history_of (fold (add_attempt k) cs s) k = history_of s k @ [length (ss_heap s)..<length (ss_heap s) + length cs]
   \<and> ss_heap (fold (add_attempt k) cs s) = ss_heap s @ cs"
proof (induction cs arbitrary: s)
  case (Cons c cs)
  from Cons.IH [of "add_attempt k c s"] show ?case by (simp add: upt_conv_Cons del: upt_Suc)
qed simp

lemma get_history_fold:
  assumes "history_of s k = []"
  shows "get_call_history k (fold (add_attempt k) cs s) = cs"
proof -
  have "get_call_history k t = map (\<lambda>a. ss_heap t ! a) (history_of t k)" for t
    by (simp add: get_call_history_def history_of_def)
  with assms history_fold [of k cs s] show ?thesis
    by (auto simp: nth_append intro!: nth_equalityI)
qed

end
