(* ===== verification/Verify_Stub.thy ===== *)
theory Verify_Stub
  imports Stub_Runs
begin

text \<open>
  \<open>scripts/verify_executor_loop_stub.py\<close>: the four scenarios that drive the node functions with a
  scripted model against a real sandbox. A scenario is a program over the world of a whole run;
  \<open>state.update(result)\<close> is \<open>merge\<close>, a failed assertion raises. \<open>E\<close> is the environment of the
  nodes as the script sets it up, \<open>monotonic\<close> the clock it reads, as a function
  of the world. Printing is left out.
\<close>

section \<open>The script's environment and data\<close>

definition stub_environ :: "environ \<Rightarrow> environ" where
  "stub_environ env = (env(lit ''SYNDICATE_MOCK_CLIENT'' := None))(lit ''SYNDICATE_STUB_LLM'' \<mapsto> lit ''1'')"

definition BASE_WORKSPACE :: "environ \<Rightarrow> str" where
  "BASE_WORKSPACE env = (case env (lit ''SYNDICATE_STUB_WORKSPACE_BASE'') of
     None \<Rightarrow> lit ''/home/openhands/syndicate-workspace/step7_5'' | Some d \<Rightarrow> d)"

definition CALC_BUGGY :: str where
  "CALC_BUGGY = lit ''def add(a, b):'' @ [10] @ lit ''    return a - b'' @ [10]"

definition TEST_CALC_PY :: str where
  "TEST_CALC_PY = lit ''from calc import add'' @ [10, 10, 10] @ lit ''def test_add():'' @ [10]
     @ lit ''    assert add(2, 3) == 5'' @ [10]"

definition CALC_GITIGNORE :: str where
  "CALC_GITIGNORE = lit ''__pycache__/'' @ [10] @ lit ''*.pyc'' @ [10] @ lit ''.pytest_cache/'' @ [10]"

definition CMD_SEED :: str where
  "CMD_SEED = lit ''git init -q && git config user.name syndicate-bot ''
     @ lit ''&& git config user.email syndicate-bot@example.invalid ''
     @ lit ''&& git add -- calc.py tests/test_calc.py .gitignore ''
     @ lit ''&& (git commit -q -m seed || true)''"

definition seed_calc_project :: "'w runtime_client \<Rightarrow> str \<Rightarrow> ('w, unit) prog" where
  "seed_calc_project client workspace_dir =
     bnd (rc_run_action client (PStr (lit ''mkdir -p '' @ workspace_dir @ lit ''/tests'')) PNone None) (\<lambda>setup.
     bnd (py_assert (exit_code setup = 0) ''workspace mkdir failed'') (\<lambda>_.
     bnd (rc_write_file client (PStr (workspace_dir @ lit ''/calc.py'')) (PStr CALC_BUGGY)) (\<lambda>_.
     bnd (rc_write_file client (PStr (workspace_dir @ lit ''/tests/test_calc.py'')) (PStr TEST_CALC_PY)) (\<lambda>_.
     bnd (rc_write_file client (PStr (workspace_dir @ lit ''/.gitignore'')) (PStr CALC_GITIGNORE)) (\<lambda>_.
     bnd (rc_run_action client (PStr CMD_SEED) (PStr workspace_dir) None) (\<lambda>init.
     bnd (py_assert (exit_code init = 0) ''workspace git setup failed'') (\<lambda>_.
     bnd (rc_run_action client (PStr (lit ''git log --oneline'')) (PStr workspace_dir) None) (\<lambda>log.
       py_assert (exit_code log = 0 \<and> py_strip (output log) \<noteq> [])
         ''expected at least one commit in seeded workspace''))))))))"

definition stub_scenario_ticket :: "str \<Rightarrow> str \<Rightarrow> dict" where
  "stub_scenario_ticket ticket_id workspace_dir =
     [(lit ''id'', PStr ticket_id), (lit ''intent'', PStr (lit ''step7.5 stub-llm scenario '' @ ticket_id)),
      (lit ''verification_command'', PStr (lit ''python3 -m pytest -q'')),
      (lit ''workspace_dir'', PStr workspace_dir), (lit ''files_changed'', PList [PStr (lit ''calc.py'')])]"

definition scenario_state :: "str \<Rightarrow> str \<Rightarrow> agent_state" where
  "scenario_state ticket_id workspace_dir =
     empty_state\<lparr>active_ticket := Some (stub_scenario_ticket ticket_id workspace_dir)\<rparr>"

text \<open>\<open>executor_result.get('attempt_log', [])\<close>.\<close>

fun result_log :: "delta \<Rightarrow> str list" where
  "result_log [] = []"
| "result_log (Set_attempt_log l # d) = l"
| "result_log (u # d) = result_log d"

text \<open>\<open>get_call_history(ticket_id)\<close> as a program, and the subscripts into what it recorded.\<close>

definition call_history :: "str \<Rightarrow> (('h, 'l) sys_world, stub_client list) prog" where
  "call_history ticket_id = (\<lambda>w. (Inr (get_call_history (PStr ticket_id) (sw_stub w)), w))"

definition first_content :: "stub_client \<Rightarrow> exc + content" where
  \<comment> \<open>\<open>attempt.calls_seen[0]['messages'][0]['content']\<close>\<close>
  "first_content attempt =
     (case calls_seen attempt of
        [] \<Rightarrow> Inl (IndexError (lit ''list index out of range''))
      | c # _ \<Rightarrow> (case call_messages c of
          [] \<Rightarrow> Inl (IndexError (lit ''list index out of range'')) | m # _ \<Rightarrow> Inr (msg_content m)))"

fun first_contents :: "stub_client list \<Rightarrow> exc + content list" where
  "first_contents [] = Inr []"
| "first_contents (a # as) =
     (case first_content a of
        Inl e \<Rightarrow> Inl e
      | Inr c \<Rightarrow> (case first_contents as of Inl e \<Rightarrow> Inl e | Inr cs \<Rightarrow> Inr (c # cs)))"

definition FEEDBACK_MARK :: str where
  "FEEDBACK_MARK = lit ''The previous attempt failed its checks:''"

fun mentions :: "str \<Rightarrow> content \<Rightarrow> bool" where
  "mentions p (CText t) = py_in p t"
| "mentions p _ = False"

definition last_results :: "stub_call \<Rightarrow> exc + tool_result list" where
  \<comment> \<open>\<open>call['messages'][-1]['content']\<close>, when it is a list of tool results\<close>
  "last_results c =
     (if call_messages c = [] then Inl (IndexError (lit ''list index out of range''))
      else case msg_content (last (call_messages c)) of
             CResults rs \<Rightarrow> Inr rs
           | _ \<Rightarrow> Inl (TypeError (lit ''string indices must be integers'')))"

definition last_result :: "stub_call \<Rightarrow> exc + tool_result" where
  "last_result c = (case last_results c of Inl e \<Rightarrow> Inl e
     | Inr [] \<Rightarrow> Inl (IndexError (lit ''list index out of range'')) | Inr (r # _) \<Rightarrow> Inr r)"

fun in_text :: "str \<Rightarrow> pyval \<Rightarrow> bool" where
  "in_text p (PStr t) = py_in p t"
| "in_text p _ = False"

section \<open>Scenario 1: happy path\<close>

definition edit_call :: "(string \<times> str) list \<Rightarrow> str \<times> dict" where
  "edit_call kvs = (lit ''str_replace_based_edit_tool'', map (\<lambda>(k, v). (lit k, PStr v)) kvs)"

definition bash_call :: "string \<Rightarrow> str \<times> dict" where
  "bash_call command = (lit ''bash'', [(lit ''command'', PStr (lit command))])"

definition happy_script :: "str \<Rightarrow> stub_turn list" where
  "happy_script calc_path =
     [tool_turn [edit_call [(''command'', lit ''view''), (''path'', calc_path)]],
      tool_turn [edit_call [(''command'', lit ''str_replace''), (''path'', calc_path),
                            (''old_str'', lit ''return a - b''), (''new_str'', lit ''return a + b'')]],
      tool_turn [bash_call ''python3 -m pytest -q''],
      complete_turn (lit ''fixed calc.add and verified with pytest'')]"

text \<open>What the script checks of the four recorded turns.\<close>

definition check_happy_calls :: "str \<Rightarrow> stub_call list \<Rightarrow> ('w, unit) prog" where
  "check_happy_calls calc_path calls =
     bnd (py_assert (length calls = 4) ''expected 4 scripted turns (view, edit, verify, complete)'') (\<lambda>_.
     bnd (of_result (last_result (calls ! 1))) (\<lambda>view_result.
     bnd (py_assert (\<not> is_error view_result) ''expected read_file (view) to succeed'') (\<lambda>_.
     bnd (py_assert (tr_content view_result = PStr CALC_BUGGY) ''expected the real (buggy) calc.py content fed back'') (\<lambda>_.
     bnd (of_result (last_result (calls ! 2))) (\<lambda>edit_result.
     bnd (py_assert (\<not> is_error edit_result) ''expected edit_file (str_replace) to succeed'') (\<lambda>_.
     bnd (py_assert (tr_content edit_result = PStr (lit ''edited '' @ calc_path)) '''') (\<lambda>_.
     bnd (of_result (last_result (calls ! 3))) (\<lambda>verify_result.
     bnd (py_assert (\<not> is_error verify_result) ''expected the real bash pytest run inside the scripted loop to pass'') (\<lambda>_.
       py_assert (in_text (lit ''1 passed'') (tr_content verify_result)) ''''))))))))) "

text \<open>The rest of the pipeline: validator, oversight, advance, dispatch.\<close>

definition happy_pipeline :: "'w node_env \<Rightarrow> agent_state \<Rightarrow> ('w, unit) prog" where
  "happy_pipeline E state =
     bnd (validator_node E state) (\<lambda>validator_result.
       let state1 = merge state validator_result
       in bnd (py_assert (last_validation_passed state1 = Some True) '''') (\<lambda>_.
          bnd (py_assert (validator_router state1 = Oversight_git) ''expected oversight_git routing'') (\<lambda>_.
          bnd (oversight_git_node E state1) (\<lambda>git_result.
            let state2 = merge state1 git_result;
                state3 = merge state2 (advance_node state2)
            in bnd (py_assert (ticket_status state2 = Some DONE) '''') (\<lambda>_.
               bnd (py_assert (length (ledger_of state3) = 1) '''') (\<lambda>_.
               bnd (py_assert (attempt_log state3 = Some []) '''') (\<lambda>_.
                 py_assert (dispatch_router state3 = None) '''')))))))"

definition scenario_happy ::
  "(('h, 'l) sys_world) node_env \<Rightarrow> (('h, 'l) sys_world) runtime_client \<Rightarrow> str \<Rightarrow> (('h, 'l) sys_world, unit) prog" where
  "scenario_happy E client base =
     (let workspace_dir = base @ lit ''/happy''; ticket_id = lit ''STUB-HAPPY'';
          calc_path = workspace_dir @ lit ''/calc.py''; state = scenario_state ticket_id workspace_dir
      in bnd (seed_calc_project client workspace_dir) (\<lambda>_.
         bnd (on_stub (set_stub_script (PStr ticket_id) (happy_script calc_path))) (\<lambda>_.
         bnd (executor_node E state) (\<lambda>executor_result.
           let state1 = merge state executor_result
           in bnd (py_assert (ticket_status state1 = Some LOCAL_PASS) ''expected LOCAL_PASS from executor'') (\<lambda>_.
              bnd (call_history ticket_id) (\<lambda>history.
              bnd (py_assert (length history = 1) ''expected exactly one attempt (strike)'') (\<lambda>_.
              bnd (check_happy_calls calc_path (calls_seen (history ! 0))) (\<lambda>_.
              bnd (rc_read_file client (PStr calc_path)) (\<lambda>read_back.
              bnd (py_assert (in_text (lit ''return a + b'') read_back)
                     ''expected the scripted edit to have really landed on disk'') (\<lambda>_.
                happy_pipeline E state1))))))))))"

section \<open>Scenario 2: a model that never completes\<close>

definition cap_script :: "stub_turn list" where
  "cap_script = [tool_turn [bash_call ''true'']]"

text \<open>The end of scenarios 2 and 3: validator, router, escalate.\<close>

definition escalated_pipeline :: "'w node_env \<Rightarrow> agent_state \<Rightarrow> ('w, agent_state) prog" where
  "escalated_pipeline E state =
     bnd (validator_node E state) (\<lambda>validator_result.
       let state1 = merge state validator_result
       in bnd (py_assert (validator_router state1 = Escalate) '''') (\<lambda>_.
            ret (merge state1 (escalate_node E state1))))"

fun check_capped :: "stub_client list \<Rightarrow> ('w, unit) prog" where
  "check_capped [] = ret ()"
| "check_capped (attempt # history) =
     bnd (py_assert (length (calls_seen attempt) = MAX_TOOL_CALLS) ''expected the inner cap to fire'') (\<lambda>_.
       check_capped history)"

definition time_now :: "('w \<Rightarrow> rat) \<Rightarrow> ('w, rat) prog" where
  \<comment> \<open>\<open>time.monotonic()\<close>\<close>
  "time_now monotonic = (\<lambda>w. (Inr (monotonic w), w))"

definition scenario_cap ::
  "(('h, 'l) sys_world) node_env \<Rightarrow> (('h, 'l) sys_world) runtime_client \<Rightarrow> str \<Rightarrow> (('h, 'l) sys_world \<Rightarrow> rat)
   \<Rightarrow> (('h, 'l) sys_world, unit) prog" where
  "scenario_cap E client base monotonic =
     (let workspace_dir = base @ lit ''/cap''; ticket_id = lit ''STUB-CAP'';
          state = scenario_state ticket_id workspace_dir
      in bnd (rc_run_action client (PStr (lit ''mkdir -p '' @ workspace_dir)) PNone None) (\<lambda>setup.
         bnd (py_assert (exit_code setup = 0) '''') (\<lambda>_.
         bnd (on_stub (set_stub_script (PStr ticket_id) cap_script)) (\<lambda>_.
         bnd (time_now monotonic) (\<lambda>started.
         bnd (executor_node E state) (\<lambda>executor_result.
         bnd (time_now monotonic) (\<lambda>finished.
           let elapsed = finished - started;
               state1 = merge state executor_result;
               cap_hits = length (filter (py_in (lit ''tool call cap reached without a final answer'')) (result_log executor_result))
           in bnd (py_assert (elapsed < 120) ''runaway not bounded'') (\<lambda>_.
              bnd (py_assert (ticket_status state1 = Some ESCALATED) ''expected ESCALATED (recorded as a failed attempt)'') (\<lambda>_.
              bnd (py_assert (strike_count state1 = Some MAX_STRIKES) '''') (\<lambda>_.
              bnd (call_history ticket_id) (\<lambda>history.
              bnd (py_assert (int (length history) = MAX_STRIKES) ''expected attempts'') (\<lambda>_.
              bnd (check_capped history) (\<lambda>_.
              bnd (py_assert (int cap_hits = MAX_STRIKES) ''expected every one of the strikes to report cap-reached'') (\<lambda>_.
              bnd (escalated_pipeline E state1) (\<lambda>state3.
                py_assert (dispatch_router (merge state3 (advance_node state3)) = None) '''')))))))))))))))"

section \<open>Scenario 3: three strikes\<close>

definition strikes_script :: "str \<Rightarrow> stub_turn list" where
  "strikes_script note_path =
     [tool_turn [edit_call [(''command'', lit ''create''), (''path'', note_path),
                            (''file_text'', lit ''attempt in progress'' @ [10])]],
      complete_turn (lit ''made an attempt'')]"

definition scenario_strikes ::
  "(('h, 'l) sys_world) node_env \<Rightarrow> (('h, 'l) sys_world) runtime_client \<Rightarrow> str \<Rightarrow> (('h, 'l) sys_world, unit) prog" where
  "scenario_strikes E client base =
     (let workspace_dir = base @ lit ''/strikes''; ticket_id = lit ''STUB-STRIKES'';
          note_path = workspace_dir @ lit ''/attempt_note.txt''; state = scenario_state ticket_id workspace_dir
      in bnd (seed_calc_project client workspace_dir) (\<lambda>_.
         bnd (on_stub (set_stub_script (PStr ticket_id) (strikes_script note_path))) (\<lambda>_.
         bnd (executor_node E state) (\<lambda>executor_result.
           let state1 = merge state executor_result;
               fast_check_failures = length (filter (\<lambda>line. py_in (lit ''fast_check'') line \<and> \<not> py_in (lit ''exit_code=0'') line)
                  (result_log executor_result))
           in bnd (py_assert (ticket_status state1 = Some ESCALATED) '''') (\<lambda>_.
              bnd (py_assert (strike_count state1 = Some MAX_STRIKES) '''') (\<lambda>_.
              bnd (py_assert (int fast_check_failures = MAX_STRIKES)
                     ''expected all strikes to be real fast-check failures'') (\<lambda>_.
              bnd (call_history ticket_id) (\<lambda>history.
              bnd (py_assert (int (length history) = MAX_STRIKES) '''') (\<lambda>_.
              bnd (of_result (first_contents history)) (\<lambda>first_msg_texts.
              bnd (py_assert (\<not> mentions FEEDBACK_MARK (first_msg_texts ! 0)) ''strike 1 should have no prior feedback'') (\<lambda>_.
              bnd (py_assert (mentions FEEDBACK_MARK (first_msg_texts ! 1)) ''strike 2'') (\<lambda>_.
              bnd (py_assert (mentions FEEDBACK_MARK (first_msg_texts ! 2)) ''strike 3'') (\<lambda>_.
              bnd (escalated_pipeline E state1) (\<lambda>state3.
                let state4 = merge state3 (advance_node state3)
                in bnd (py_assert (ticket_status state3 = Some ESCALATED) '''') (\<lambda>_.
                   bnd (py_assert (ledger_of state3 = []) '''') (\<lambda>_.
                   bnd (py_assert (length (ledger_of state4) = 1) '''') (\<lambda>_.
                   bnd (py_assert (attempt_count (hd (ledger_of state4)) = int (length (result_log executor_result))) '''') (\<lambda>_.
                   bnd (py_assert (attempt_log state4 = Some []) ''attempt_log must be cleared after advance'') (\<lambda>_.
                     py_assert (dispatch_router state4 = None) '''')))))))))))))))))))"

section \<open>Scenario 4: growth of the context\<close>

definition context_script :: "str \<Rightarrow> stub_turn list" where
  "context_script calc_path =
     [tool_turn [edit_call [(''command'', lit ''view''), (''path'', calc_path)]],
      tool_turn [edit_call [(''command'', lit ''str_replace''), (''path'', calc_path),
                            (''old_str'', lit ''return a - b''), (''new_str'', lit ''return a + b'')]],
      tool_turn [bash_call ''echo checkpoint-1''],
      tool_turn [bash_call ''python3 -m pytest -q''],
      complete_turn (lit ''done'')]"

fun check_fresh :: "stub_call list \<Rightarrow> ('w, unit) prog" where
  "check_fresh [] = ret ()"
| "check_fresh (c # cs) =
     bnd (of_result (last_results c)) (\<lambda>tool_results.
     bnd (py_assert (length tool_results = 1) ''expected exactly 1 fresh tool_result(s) carried forward'') (\<lambda>_.
       check_fresh cs))"

definition check_context :: "stub_call list \<Rightarrow> ('w, unit) prog" where
  "check_context calls =
     bnd (py_assert (map call_messages_len calls = map (\<lambda>i. 1 + 2 * i) [0..<length calls])
            ''expected linear/compact growth'') (\<lambda>_.
       check_fresh (tl calls))"

definition scenario_context ::
  "(('h, 'l) sys_world) node_env \<Rightarrow> (('h, 'l) sys_world) runtime_client \<Rightarrow> str \<Rightarrow> (('h, 'l) sys_world, unit) prog" where
  "scenario_context E client base =
     (let workspace_dir = base @ lit ''/context''; ticket_id = lit ''STUB-CONTEXT'';
          calc_path = workspace_dir @ lit ''/calc.py''; state = scenario_state ticket_id workspace_dir
      in bnd (seed_calc_project client workspace_dir) (\<lambda>_.
         bnd (on_stub (set_stub_script (PStr ticket_id) (context_script calc_path))) (\<lambda>_.
         bnd (executor_node E state) (\<lambda>executor_result.
           bnd (py_assert (ticket_status (merge state executor_result) = Some LOCAL_PASS) '''') (\<lambda>_.
           bnd (call_history ticket_id) (\<lambda>history.
           bnd (py_assert (length history = 1) '''') (\<lambda>_.
           bnd (py_assert (length (calls_seen (history ! 0)) = 5) '''') (\<lambda>_.
             check_context (calls_seen (history ! 0))))))))))"

section \<open>main\<close>

text \<open>The exit code; \<open>argv\<close> includes the name of the script.\<close>

definition stub_main ::
  "(('h, 'l) sys_world) node_env \<Rightarrow> str \<Rightarrow> (('h, 'l) sys_world \<Rightarrow> rat) \<Rightarrow> str list \<Rightarrow> (('h, 'l) sys_world, int) prog" where
  "stub_main E base monotonic argv =
     (case argv of
        [script, name] \<Rightarrow>
          (let run = (\<lambda>scenario. bnd (ne_get_runtime_client E) (\<lambda>client. bnd (finally_do (scenario client) (rc_aclose client)) (\<lambda>_. ret 0)))
           in if name = lit ''happy'' then run (\<lambda>client. scenario_happy E client base)
              else if name = lit ''cap'' then run (\<lambda>client. scenario_cap E client base monotonic)
              else if name = lit ''strikes'' then run (\<lambda>client. scenario_strikes E client base)
              else if name = lit ''context'' then run (\<lambda>client. scenario_context E client base)
              else ret 2)
      | _ \<Rightarrow> ret 2)"

section \<open>The sandbox a scenario needs\<close>

text \<open>
  \<open>answers P h cfg cwd timeout command Q\<close>: whatever the state of the agent server, it answers the
  command with a result in \<open>Q\<close>. \<open>script_env\<close> is the environment of the nodes under the script.
\<close>

definition answers ::
  "(int \<Rightarrow> bool) \<Rightarrow> 'h http \<Rightarrow> http_config \<Rightarrow> pyval \<Rightarrow> rat option \<Rightarrow> str \<Rightarrow> (action_result \<Rightarrow> bool) \<Rightarrow> bool" where
  "answers P h cfg cwd timeout command Q \<longleftrightarrow> always (openhands_run_action P h cfg (PStr command) cwd timeout) Q"

definition stores :: "(int \<Rightarrow> bool) \<Rightarrow> 'h http \<Rightarrow> http_config \<Rightarrow> str \<Rightarrow> str \<Rightarrow> bool" where
  "stores P h cfg path text \<longleftrightarrow> always (openhands_write_file P h cfg (PStr path) (PStr text)) (\<lambda>_. True)"

definition script_env ::
  "(int \<Rightarrow> bool) \<Rightarrow> 'h http \<Rightarrow> http_config \<Rightarrow> environ \<Rightarrow> ('h, 'l) sys_world node_env \<Rightarrow> bool" where
  "script_env P h cfg env E \<longleftrightarrow>
     ne_get_runtime_client E = ret (sys_openhands_client P h cfg)
     \<and> (\<exists>anthropic. ne_get_llm_client E = get_llm_client P anthropic (stub_environ env))"

lemma script_env_system:
  assumes "runtime_base_url (stub_environ env) = Inr url" and "env (lit ''SYNDICATE_RUNTIME_TIMEOUT_SECONDS'') = None"
  shows "script_env P h (openhands_init url (env (lit ''SYNDICATE_RUNTIME_SESSION_API_KEY'')) 300) env
    (system_env P h anthropic (stub_environ env) m)"
  using assms
  by (auto simp: script_env_def system_env_def get_runtime_client_def stub_environ_def)

lemma script_env_stub: "script_env P h cfg env E \<Longrightarrow> uses_stub E"
  unfolding script_env_def uses_stub_def by (metis fun_upd_same stub_environ_def)

lemma script_env_executor:
  assumes "script_env P h cfg env E"
  shows "executor_node E (scenario_state i ws) w = executor_loop E (sys_openhands_client P h cfg)
      (lit ''Ticket: '' @ py_repr (ne_printable E) (PDict (stub_scenario_ticket i ws)))
      (workspace_of (stub_scenario_ticket i ws)) (ticket_id_of (stub_scenario_ticket i ws)) 0 None [] w"
  using assms
  by (simp add: script_env_def executor_node_def sys_openhands_client_def scenario_state_def empty_state_def
        ticket_of_def strikes_def feedback_of_def log_of_def)

lemma scenario_ticket:
  "ws \<noteq> [] \<Longrightarrow> workspace_of (stub_scenario_ticket i ws) = PStr ws"
  "i \<noteq> [] \<Longrightarrow> ticket_id_of (stub_scenario_ticket i ws) = PStr i"
  "dget (stub_scenario_ticket i ws) ''verification_command'' = PStr (lit ''python3 -m pytest -q'')"
  by (simp_all add: stub_scenario_ticket_def workspace_of_def ticket_id_of_def dget_def py_or_def)

lemma bash_runs:
  assumes "answers P h cfg cwd None (lit c) Q"
  shows "always (run_tool E (sys_openhands_client P h cfg) (fst (bash_call c)) (snd (bash_call c)) cwd) (\<lambda>_. True)"
proof -
  have "run_bash_tool E client (snd (bash_call c)) cwd = bnd (rc_run_action client (PStr (lit c)) cwd None) (\<lambda>result.
      if exit_code result \<noteq> 0
      then ret (PStr (lit ''exit_code='' @ int_str (exit_code result) @ [10] @ output result), True)
      else ret (PStr (output result), False))" for client :: "('a, 'b) sys_world runtime_client"
    by (simp add: run_bash_tool_def bash_call_def ditem_def dget_def)
  moreover have "always (rc_run_action (sys_openhands_client P h cfg :: ('a, 'b) sys_world runtime_client) (PStr (lit c)) cwd None) Q"
    using assms unfolding answers_def by (rule always_action)
  ultimately have "always (run_bash_tool E (sys_openhands_client P h cfg) (snd (bash_call c)) cwd) (\<lambda>_. True)"
    by (auto intro: always_bnd)
  then show ?thesis by (simp add: run_tool_def bash_call_def always_catch)
qed

lemma create_runs:
  assumes "stores P h cfg path text"
  shows "always (run_tool E (sys_openhands_client P h cfg) (fst (edit_call [(''command'', lit ''create''), (''path'', path), (''file_text'', text)]))
      (snd (edit_call [(''command'', lit ''create''), (''path'', path), (''file_text'', text)])) cwd) (\<lambda>_. True)"
proof -
  let ?i = "snd (edit_call [(''command'', lit ''create''), (''path'', path), (''file_text'', text)])"
  have "run_edit_tool E client ?i = bnd (rc_write_file client (PStr path) (PStr text))
      (\<lambda>_. ret (PStr (lit ''created '' @ path), False))" for client :: "('a, 'b) sys_world runtime_client"
    by (simp add: run_edit_tool_def edit_call_def ditem_def)
  moreover have "always (rc_write_file (sys_openhands_client P h cfg :: ('a, 'b) sys_world runtime_client) (PStr path) (PStr text)) (\<lambda>_. True)"
    using assms unfolding stores_def by (rule always_write)
  ultimately have "always (run_edit_tool E (sys_openhands_client P h cfg) ?i) (\<lambda>_. True)"
    by (auto intro: always_bnd)
  then show ?thesis by (simp add: run_tool_def edit_call_def always_catch)
qed

lemma single_call_runs:
  assumes "always (run_tool E client (fst call) (snd call) cwd) (\<lambda>_. True)"
  shows "always (run_tool_blocks E client cwd (stub_blocks ci 0 (st_tool_calls (tool_turn [call])))) (\<lambda>_. True)"
  using assms by (auto simp: tool_turn_def split_beta intro!: always_bnd)

lemma first_check_fails:
  assumes "answers P h cfg cwd None (lit ''git status'') (\<lambda>r. exit_code r \<noteq> 0 \<and> Q r)"
  shows "always (run_fast_checks (sys_openhands_client P h cfg) cwd) (\<lambda>r. exit_code r \<noteq> 0 \<and> Q r)"
  using assms unfolding run_fast_checks_def FAST_CHECK_ACTIONS_def answers_def
  by (auto intro!: always_bnd [OF always_action])

lemma second_check_fails:
  assumes "answers P h cfg cwd None (lit ''git status'') (\<lambda>r. exit_code r = 0)"
    and "answers P h cfg cwd None (lit ''python -m pytest'') (\<lambda>r. exit_code r \<noteq> 0 \<and> Q r)"
  shows "always (run_fast_checks (sys_openhands_client P h cfg) cwd) (\<lambda>r. exit_code r \<noteq> 0 \<and> Q r)"
  using assms unfolding run_fast_checks_def FAST_CHECK_ACTIONS_def answers_def
  by (auto intro!: always_bnd [OF always_action])

text \<open>The verification fails, so the strikes pass the budget and the ticket is given up.\<close>

lemma escalated_pipeline_runs:
  assumes "script_env P h cfg env E" and "active_ticket s = Some (stub_scenario_ticket i ws)" and "ws \<noteq> []"
    and "answers P h cfg (PStr ws) (Some VALIDATOR_TIMEOUT_SECONDS) (lit ''python3 -m pytest -q'')
      (\<lambda>r. exit_code r \<noteq> 0 \<and> (\<exists>diag. truncate_diagnosis (output r) = Inr diag))"
    and "strikes s = MAX_STRIKES"
  shows "\<exists>s3 w'. escalated_pipeline E s w = (Inr s3, w') \<and> ticket_status s3 = Some ESCALATED
    \<and> attempt_log s3 = attempt_log s \<and> decision_ledger s3 = decision_ledger s"
proof -
  let ?C = "sys_openhands_client P h cfg"
  have v: "py_or (dget (ticket_of s) ''verification_command'') (PStr DEFAULT_VERIFICATION_COMMAND) = PStr (lit ''python3 -m pytest -q'')"
    "workspace_of (ticket_of s) = PStr ws"
    using assms(2,3) by (simp_all add: ticket_of_def scenario_ticket py_or_def)
  have "always (rc_run_action ?C (PStr (lit ''python3 -m pytest -q'')) (PStr ws) (Some VALIDATOR_TIMEOUT_SECONDS))
      (\<lambda>r. exit_code r \<noteq> 0 \<and> (\<exists>diag. truncate_diagnosis (output r) = Inr diag))"
    using assms(4) unfolding answers_def by (rule always_action)
  then obtain r w1 where "rc_run_action ?C (PStr (lit ''python3 -m pytest -q'')) (PStr ws) (Some VALIDATOR_TIMEOUT_SECONDS) w = (Inr r, w1)"
    and "exit_code r \<noteq> 0 \<and> (\<exists>diag. truncate_diagnosis (output r) = Inr diag)" unfolding always_def by blast
  then obtain diag where n: "validator_node E s w
      = (Inr [Set_last_validation_passed False, Set_validation_diagnosis (Some diag), Set_strike_count (strikes s + 1)], w1)"
    using assms(1) v by (auto simp: validator_node_def script_env_def Let_def sys_openhands_client_def)
  let ?s1 = "merge s [Set_last_validation_passed False, Set_validation_diagnosis (Some diag), Set_strike_count (strikes s + 1)]"
  have r: "validator_router ?s1 = Escalate"
    using assms(5) by (simp add: validator_router_def validated_def strikes_def)
  have "escalated_pipeline E s w = (Inr (merge ?s1 (escalate_node E ?s1)), w1)"
    using n r by (simp add: escalated_pipeline_def Let_def del: merge_Cons)
  moreover have "ticket_status (merge t (escalate_node E t)) = Some ESCALATED" "attempt_log (merge t (escalate_node E t)) = attempt_log t"
    "decision_ledger (merge t (escalate_node E t)) = decision_ledger t" for t
    by (simp_all add: escalate_node_def Let_def)
  ultimately show ?thesis by simp
qed

section \<open>What scenario 2 finds\<close>

lemma cap_plan: "stub_plan n (c\<lparr>sc_script := cap_script\<rparr>) = (lit ''tool call cap reached without a final answer'', n)"
proof (induction n arbitrary: c)
  case (Suc n)
  let ?c = "(c\<lparr>call_index := call_index c + 1\<rparr>)\<lparr>sc_script := cap_script\<rparr>"
  have "next_turn (c\<lparr>sc_script := cap_script\<rparr>) = (tool_turn [bash_call ''true''], ?c)"
    by (simp add: next_turn_def cap_script_def)
  with Suc.IH [of "c\<lparr>call_index := call_index c + 1\<rparr>"] show ?case by (simp add: tool_turn_def)
qed simp

lemma notice_quoted: "py_in (lit ''tool call cap reached without a final answer'')
    (summary_line E k (lit ''tool call cap reached without a final answer''))"
proof -
  let ?n = "lit ''tool call cap reached without a final answer''"
  have "str_repr (ne_printable E) ?n = [39] @ ?n @ [39]"
    by (simp add: str_repr_def repr_char_def is_printable_def lit_def)
  then have "summary_line E k ?n = (lit ''strike='' @ int_str k @ lit '' summary='' @ [39]) @ ?n @ [39]"
    by (simp add: summary_line_def)
  moreover have "py_in ?n ?n" using py_in_prefix [of ?n "[]"] by simp
  ultimately show ?thesis by (simp only: py_in_append)
qed

lemma capped_lines:
  assumes "\<forall>c \<in> set checks. \<forall>k. \<not> py_in (lit ''tool call cap reached without a final answer'') (fast_check_line E k c)"
  shows "length (filter (py_in (lit ''tool call cap reached without a final answer''))
      (attempt_lines E n (lit ''tool call cap reached without a final answer'') checks)) = length checks"
  using assms by (induction checks arbitrary: n) (simp_all add: notice_quoted)

lemma check_capped_ok: "\<forall>c \<in> set cs. length (calls_seen c) = MAX_TOOL_CALLS \<Longrightarrow> check_capped cs w = (Inr (), w)"
  by (induction cs) simp_all

lemma set_script_runs:
  "on_stub (set_stub_script (PStr i) script) w = (Inr (), w\<lparr>sw_stub := (sw_stub w)\<lparr>
      ss_scripts := (ss_scripts (sw_stub w))(PStr i \<mapsto> script), ss_history := (ss_history (sw_stub w))(PStr i \<mapsto> [])\<rparr>\<rparr>)"
  by (simp add: on_stub_def set_stub_script_def)

text \<open>The executor of a scenario whose fast checks all fail.\<close>

lemma scenario_executor:
  fixes E :: "('h, 'l) sys_world node_env"
  assumes E: "script_env P h cfg env E" and i: "i \<noteq> []" and ws: "ws \<noteq> []" and "script \<noteq> []"
    and "tools_run E (sys_openhands_client P h cfg) (PStr ws) script"
    and "always (run_fast_checks (sys_openhands_client P h cfg :: ('h, 'l) sys_world runtime_client) (PStr ws))
      (\<lambda>r. exit_code r \<noteq> 0 \<and> Q r)"
  obtains checks cs w1 w2 where "on_stub (set_stub_script (PStr i) script) w = (Inr (), w1)"
    and "executor_node E (scenario_state i ws) w1
      = (Inr [Set_attempt_log (attempt_lines E 0 (fst (stub_plan MAX_TOOL_CALLS (fresh_stub script))) checks),
          Set_ticket_status ESCALATED, Set_strike_count MAX_STRIKES], w2)"
    and "length checks = 3" and "\<forall>c \<in> set checks. exit_code c \<noteq> 0 \<and> Q c"
    and "get_call_history (PStr i) (sw_stub w2) = cs"
    and "list_all2 (attempt_of script) (openings (lit ''Ticket: '' @ py_repr (ne_printable E) (PDict (stub_scenario_ticket i ws))) None checks) cs"
proof -
  let ?w1 = "w\<lparr>sw_stub := (sw_stub w)\<lparr>ss_scripts := (ss_scripts (sw_stub w))(PStr i \<mapsto> script),
      ss_history := (ss_history (sw_stub w))(PStr i \<mapsto> [])\<rparr>\<rparr>"
  let ?tp = "lit ''Ticket: '' @ py_repr (ne_printable E) (PDict (stub_scenario_ticket i ws))"
  have k: "hash_key (py_or (PStr i) (PStr [])) = Inr (PStr i)" using i by (simp add: py_or_def)
  have sc: "ss_scripts (sw_stub ?w1) (PStr i) = Some script" by simp
  have z: "0 \<le> MAX_STRIKES" "nat (MAX_STRIKES - 0) = 3" by (simp_all add: MAX_STRIKES_def)
  obtain checks cs w2 where l: "executor_loop E (sys_openhands_client P h cfg) ?tp (PStr ws) (PStr i) 0 None [] ?w1
      = (Inr [Set_attempt_log ([] @ attempt_lines E 0 (fst (stub_plan MAX_TOOL_CALLS (fresh_stub script))) checks),
          Set_ticket_status ESCALATED, Set_strike_count MAX_STRIKES], w2)"
    and c: "length checks = 3" "\<forall>c \<in> set checks. exit_code c \<noteq> 0 \<and> Q c"
    and s: "sw_stub w2 = fold (add_attempt (PStr i)) cs (sw_stub ?w1)"
    and a: "list_all2 (attempt_of script) (openings ?tp None checks) cs"
    using failing_attempts [OF script_env_stub [OF E] k sc assms(4-6) z(1), of ?tp None "[]"]
    unfolding z(2) by blast
  have "history_of (sw_stub ?w1) (PStr i) = []" by (simp add: history_of_def)
  then have h: "get_call_history (PStr i) (sw_stub w2) = cs" unfolding s by (rule get_history_fold)
  show thesis
    by (rule that [OF set_script_runs _ c h a])
       (use l script_env_executor [OF E, of i ws ?w1] scenario_ticket i ws in simp)
qed

lemma stub_plans:
  "stub_plan MAX_TOOL_CALLS (fresh_stub cap_script) = (lit ''tool call cap reached without a final answer'', MAX_TOOL_CALLS)"
  "stub_plan MAX_TOOL_CALLS (fresh_stub (strikes_script note)) = (lit ''made an attempt'', 2)"
proof -
  have "fresh_stub cap_script = (fresh_stub cap_script)\<lparr>sc_script := cap_script\<rparr>" by (simp add: fresh_stub_def)
  then show "stub_plan MAX_TOOL_CALLS (fresh_stub cap_script) = (lit ''tool call cap reached without a final answer'', MAX_TOOL_CALLS)"
    by (metis cap_plan)
  show "stub_plan MAX_TOOL_CALLS (fresh_stub (strikes_script note)) = (lit ''made an attempt'', 2)"
    by (simp add: MAX_TOOL_CALLS_def eval_nat_numeral fresh_stub_def strikes_script_def next_turn_def tool_turn_def complete_turn_def)
qed

section \<open>What scenario 3 finds\<close>

definition seed_answers :: "(int \<Rightarrow> bool) \<Rightarrow> 'h http \<Rightarrow> http_config \<Rightarrow> str \<Rightarrow> bool" where
  "seed_answers P h cfg ws \<longleftrightarrow>
     answers P h cfg PNone None (lit ''mkdir -p '' @ ws @ lit ''/tests'') (\<lambda>r. exit_code r = 0)
     \<and> stores P h cfg (ws @ lit ''/calc.py'') CALC_BUGGY \<and> stores P h cfg (ws @ lit ''/tests/test_calc.py'') TEST_CALC_PY
     \<and> stores P h cfg (ws @ lit ''/.gitignore'') CALC_GITIGNORE
     \<and> answers P h cfg (PStr ws) None CMD_SEED (\<lambda>r. exit_code r = 0)
     \<and> answers P h cfg (PStr ws) None (lit ''git log --oneline'') (\<lambda>r. exit_code r = 0 \<and> py_strip (output r) \<noteq> [])"

lemma always_assert [intro]: "c \<Longrightarrow> always (py_assert c t) (\<lambda>_. True)"
  by (simp add: always_def)

lemma always_bnd_assert: "c \<Longrightarrow> always (f ()) R \<Longrightarrow> always (bnd (py_assert c t) f) R"
  by simp

lemma seed_runs: "seed_answers P h cfg ws \<Longrightarrow> always (seed_calc_project (sys_openhands_client P h cfg) ws) (\<lambda>_. True)"
  unfolding seed_answers_def answers_def stores_def seed_calc_project_def
  by (elim conjE) (intro always_bnd [OF always_action] always_bnd [OF always_write] always_bnd_assert always_assert; assumption)

lemma py_in_set: "py_in p s \<Longrightarrow> set p \<subseteq> set s"
  by (auto simp: py_in_iff)

lemma attempt_summary: "\<not> py_in (lit ''fast_check'') (summary_line E k (lit ''made an attempt''))"
proof -
  have "(102 :: int) \<notin> set (int_str k)" using int_str_ascii [of 102 k] by auto
  then have "(102 :: int) \<notin> set (summary_line E k (lit ''made an attempt''))"
    by (auto simp: summary_line_def str_repr_def repr_char_def is_printable_def lit_def)
  then show ?thesis using py_in_set [of "lit ''fast_check''"] by (force simp: lit_def)
qed

lemma check_line_marked: "py_in (lit ''fast_check'') (fast_check_line E k c)"
proof -
  have "fast_check_line E k c = (lit ''strike='' @ int_str k @ lit '' '') @ lit ''fast_check''
      @ (lit '' exit_code='' @ int_str (exit_code c) @ lit '' output='' @ str_repr (ne_printable E) (output c))"
    by (simp add: fast_check_line_def lit_def)
  then show ?thesis using py_in_prefix [of "lit ''fast_check''" "[]"] by (simp only: py_in_append append_Nil2)
qed

lemma first_contents_of:
  "list_all2 (attempt_of script) os cs \<Longrightarrow> first_contents cs = Inr (map msg_content os)"
proof (induction rule: list_all2_induct)
  case (Cons m ms c cs)
  then show ?case
    by (cases "calls_seen c") (auto simp: attempt_of_def first_content_def)
qed simp

lemma feedback_marked: "mentions FEEDBACK_MARK (msg_content (opening_message tp (Some f)))"
proof -
  have "py_in FEEDBACK_MARK ((tp @ [10, 10]) @ FEEDBACK_MARK @ ([10] @ f))"
    by (rule py_in_append) (use py_in_prefix [of FEEDBACK_MARK "[]"] in simp)
  then show ?thesis by (simp add: opening_message_def FEEDBACK_MARK_def)
qed

end
