(* ===== verification/Stub_Scenarios.thy ===== *)
theory Stub_Scenarios
  imports Verify_Stub
begin

text \<open>
  The properties of \<open>scripts/verify_executor_loop_stub.py\<close>: for which sandboxes its scenarios pass
  and what a recorded conversation looks like. The witnesses run on an agent server (\<open>box_http\<close>) that
  fails the commands it is given.
\<close>

section \<open>A sandbox that fails given commands\<close>

text \<open>An agent server that fails the commands \<open>fs\<close>, succeeds in all others and stores any file.\<close>

definition box_http :: "str list \<Rightarrow> unit http" where
  "box_http fs =
     \<lparr>http_post_json = (\<lambda>c u d t w. (Inr \<lparr>status_code = 200, resp_text = [],
          resp_json = Inr \<lparr>bo_exit_code = Some (if dget d ''command'' \<in> PStr ` set fs then 1 else 0), bo_stdout = Some (lit ''x''), bo_stderr = None,
            bo_repr = []\<rparr>\<rparr>, w)),
      http_get = (\<lambda>c u w. (Inr \<lparr>status_code = 404, resp_text = [], resp_json = Inl (JSONDecodeError [])\<rparr>, w)),
      http_post_file = (\<lambda>c u f b w. (Inr \<lparr>status_code = 200, resp_text = [], resp_json = Inl (JSONDecodeError [])\<rparr>, w)),
      http_aclose = (\<lambda>c. ret ())\<rparr>"

lemma box_answers [simp]:
  "answers P (box_http fs) cfg cwd t c Q \<longleftrightarrow> Q \<lparr>exit_code = (if c \<in> set fs then 1 else 0), output = lit ''x''\<rparr>"
  by (auto simp: answers_def always_def openhands_run_action_def box_http_def bash_payload_def dget_def raise_for_status_def)

lemma box_stores [simp]: "stores P (box_http fs) cfg p c \<longleftrightarrow> (\<exists>b. py_encode c = Inr b)"
  by (cases "py_encode c") (auto simp: stores_def always_def openhands_write_file_def box_http_def raise_for_status_def Let_def bnd_app)

lemma box_http_close: "http_aclose (box_http fs) cfg = ret ()"
  by (simp add: box_http_def)

definition box_environ :: environ where
  "box_environ = [lit ''SYNDICATE_RUNTIME_URL'' \<mapsto> lit ''http://localhost:8000'']"

definition box_env :: "str list \<Rightarrow> (unit, unit) sys_world node_env" where
  "box_env fs = system_env (\<lambda>_. True) (box_http fs) (raise (ExternalError [])) (stub_environ box_environ) 3"

definition box_world :: "(unit, unit) sys_world" where
  "box_world = \<lparr>sw_mock = Map.empty, sw_net = (), sw_stub = \<lparr>ss_scripts = Map.empty, ss_history = Map.empty, ss_heap = []\<rparr>, sw_llm = ()\<rparr>"

lemma box_script_env: "script_env (\<lambda>_. True) (box_http fs) (openhands_init (lit ''http://localhost:8000'') None 300) box_environ (box_env fs)"
proof -
  have "runtime_base_url (stub_environ box_environ) = Inr (lit ''http://localhost:8000'')" by code_simp
  from script_env_system [OF this] show ?thesis by (simp add: box_env_def box_environ_def)
qed

lemma box_check_line: "fast_check_line (box_env fs) k \<lparr>exit_code = 1, output = lit ''x''\<rparr>
    = lit ''strike='' @ int_str k @ lit '' fast_check exit_code=1 output='' @ [39, 120, 39]"
proof -
  have "int_str 1 = [49]" by code_simp
  then show ?thesis
    by (simp add: fast_check_line_def box_env_def system_env_def str_repr_def repr_char_def is_printable_def lit_def)
qed

lemma box_printable [simp]: "ne_printable (box_env fs) = (\<lambda>_. True)"
  by (simp add: box_env_def system_env_def)

lemma box_truncation: "truncate_diagnosis (lit ''x'') = Inr (lit ''x'')"
  by code_simp

section \<open>The recorded calls\<close>

lemma executor_heap_ok:
  assumes "script_env P h cfg env E" and "heap_ok (sw_stub w)" and "executor_node E s w = (r, w')"
  shows "heap_ok (sw_stub w')"
proof -
  have "executor_node E s w = executor_loop E (sys_openhands_client P h cfg)
      (lit ''Ticket: '' @ py_repr (ne_printable E) (PDict (ticket_of s))) (workspace_of (ticket_of s))
      (ticket_id_of (ticket_of s)) (strikes s) (feedback_of s) (log_of s) w"
    using assms(1) by (simp add: script_env_def executor_node_def sys_openhands_client_def)
  with assms(3) executor_loop_heap_ok [OF script_env_stub [OF assms(1)] assms(2)] show ?thesis by metis
qed

lemma recorded_calls_ok:
  assumes "heap_ok s" and "c \<in> set (get_call_history k s)"
  shows "calls_ok c"
proof -
  obtain a where "a < length (ss_heap s)" "c = ss_heap s ! a"
    using assms by (cases "ss_history s k") (auto simp: heap_ok_def stub_wf_def get_call_history_def)
  with assms(1) show ?thesis unfolding heap_ok_def by simp
qed

lemma check_fresh_ok: "\<forall>m \<in> set cs. \<exists>r. last_results m = Inr [r] \<Longrightarrow> check_fresh cs w = (Inr (), w)"
  by (induction cs) auto

lemma check_context_ok:
  assumes "calls_ok c" and "\<forall>t \<in> set (sc_script c). st_done t \<or> length (st_tool_calls t) = 1"
  shows "check_context (calls_seen c) w = (Inr (), w)"
proof -
  have len: "map call_messages_len (calls_seen c) = map (\<lambda>i. 1 + 2 * i) [0..<length (calls_seen c)]"
    using assms(1) by (auto simp: calls_ok_def call_ok_def intro: nth_equalityI)
  have "\<exists>r. last_results m = Inr [r]" if m: "m \<in> set (tl (calls_seen c))" for m
  proof -
    obtain i where i: "Suc i < length (calls_seen c)" "m = calls_seen c ! Suc i"
      using m unfolding in_set_conv_nth by (auto simp: nth_tl less_diff_conv)
    define turn where "turn = sc_script c ! min i (length (sc_script c) - 1)"
    have "call_ok c (Suc i) m" using assms(1) i by (simp add: calls_ok_def)
    then obtain rs where "\<not> st_done turn" "msg_content (last (call_messages m)) = CResults rs"
      "length rs = length (st_tool_calls turn)" "call_messages m \<noteq> []"
      by (fastforce simp: call_ok_def turn_def Let_def)
    moreover have "turn \<in> set (sc_script c)"
      unfolding turn_def using assms(1) by (intro nth_mem) (cases "sc_script c"; auto simp: calls_ok_def)
    ultimately show ?thesis using assms(2) by (auto simp: last_results_def length_Suc_conv)
  qed
  with len show ?thesis by (simp add: check_context_def check_fresh_ok)
qed

section \<open>Properties\<close>

text \<open>
  C15: a model that never completes is bounded, and only the clock can fail the second scenario. Take an
  agent server that makes the directory, answers \<open>true\<close>, and on which \<open>git status\<close> fails with an output
  that does not quote the cap notice and the verification fails with an output that can be truncated.
  Then every assertion but the one on time holds: three strikes of exactly 25 calls, each reporting the
  cap, the ticket escalated, and the graph would end there. The scenario passes exactly when the executor,
  called after the directory is made and the model scripted, takes less than 120 seconds of its clock;
  otherwise it raises the assertion \<open>runaway not bounded\<close>.
\<close>

theorem cap_scenario_passes:
  fixes E :: "('h, 'l) sys_world node_env"
  assumes "script_env P h cfg env E"
    and "answers P h cfg PNone None (lit ''mkdir -p '' @ ws) (\<lambda>r. exit_code r = 0)"
    and "answers P h cfg (PStr ws) None (lit ''true'') (\<lambda>_. True)"
    and "answers P h cfg (PStr ws) None (lit ''git status'') (\<lambda>r. exit_code r \<noteq> 0
      \<and> (\<forall>k. \<not> py_in (lit ''tool call cap reached without a final answer'') (fast_check_line E k r)))"
    and "answers P h cfg (PStr ws) (Some VALIDATOR_TIMEOUT_SECONDS) (lit ''python3 -m pytest -q'')
      (\<lambda>r. exit_code r \<noteq> 0 \<and> (\<exists>diag. truncate_diagnosis (output r) = Inr diag))"
    and ws_def: "ws = base @ lit ''/cap''"
  shows "\<exists>w1 d w2 w'.
      bnd (rc_run_action (sys_openhands_client P h cfg) (PStr (lit ''mkdir -p '' @ ws)) PNone None)
        (\<lambda>_. on_stub (set_stub_script (PStr (lit ''STUB-CAP'')) cap_script)) w = (Inr (), w1)
    \<and> executor_node E (scenario_state (lit ''STUB-CAP'') ws) w1 = (Inr d, w2)
    \<and> scenario_cap E (sys_openhands_client P h cfg) base monotonic w =
        (if monotonic w2 - monotonic w1 < 120 then Inr () else Inl (AssertionError (lit ''runaway not bounded'')), w')"
proof -
  let ?C = "sys_openhands_client P h cfg" and ?i = "lit ''STUB-CAP''" and ?n = "lit ''tool call cap reached without a final answer''"
  have ws: "ws \<noteq> []" "?i \<noteq> []" by (simp_all add: ws_def)
  obtain r w0 where mk: "rc_run_action ?C (PStr (lit ''mkdir -p '' @ ws)) PNone None w = (Inr r, w0)" "exit_code r = 0"
    using assms(2) unfolding answers_def by (auto intro: alwaysE [OF always_action])
  have t: "tools_run E ?C (PStr ws) cap_script"
    unfolding tools_run_def cap_script_def using assms(3) by (auto intro: single_call_runs bash_runs)
  have sn: "cap_script \<noteq> []" by (simp add: cap_script_def)
  obtain checks cs w1 w2 where set: "on_stub (set_stub_script (PStr ?i) cap_script) w0 = (Inr (), w1)"
    and ex: "executor_node E (scenario_state ?i ws) w1 = (Inr [Set_attempt_log (attempt_lines E 0 ?n checks),
          Set_ticket_status ESCALATED, Set_strike_count MAX_STRIKES], w2)"
    and ck: "length checks = 3" "\<forall>c \<in> set checks. exit_code c \<noteq> 0 \<and> (\<forall>k. \<not> py_in ?n (fast_check_line E k c))"
    and hi: "get_call_history (PStr ?i) (sw_stub w2) = cs"
    and al: "list_all2 (attempt_of cap_script) (openings (lit ''Ticket: '' @ py_repr (ne_printable E) (PDict (stub_scenario_ticket ?i ws))) None checks) cs"
    using scenario_executor [OF assms(1) ws(2,1) sn t first_check_fails [OF assms(4)], of w0] unfolding stub_plans fst_conv by metis
  have n: "length cs = 3" using list_all2_lengthD [OF al] ck(1) by simp
  have full: "\<forall>c \<in> set cs. length (calls_seen c) = MAX_TOOL_CALLS"
    using al by (auto simp: list_all2_conv_all_nth in_set_conv_nth attempt_of_def stub_plans)
  have hits: "length (filter (py_in ?n) (attempt_lines E 0 ?n checks)) = 3"
    using capped_lines [of checks E 0] ck by simp
  let ?s1 = "merge (scenario_state ?i ws) [Set_attempt_log (attempt_lines E 0 ?n checks),
          Set_ticket_status ESCALATED, Set_strike_count MAX_STRIKES]"
  have s1: "active_ticket ?s1 = Some (stub_scenario_ticket ?i ws)" "strikes ?s1 = MAX_STRIKES"
    "ticket_status ?s1 = Some ESCALATED" "strike_count ?s1 = Some MAX_STRIKES"
    by (simp_all add: scenario_state_def strikes_def)
  obtain s3 w3 where p: "escalated_pipeline E ?s1 w2 = (Inr s3, w3)" "ticket_status s3 = Some ESCALATED"
    using escalated_pipeline_runs [OF assms(1) s1(1) ws(1) assms(5) s1(2), of w2] by blast
  have q: "dispatch_router (merge s3 (advance_node s3)) = None"
    using p(2) by (simp add: dispatch_router_def advance_node_def)
  have pass: "scenario_cap E ?C base monotonic w = (Inr (), w3)" if "monotonic w2 - monotonic w1 < 120"
    using that mk set ex hi n full hits p q s1 ws_def
    by (simp add: scenario_cap_def time_now_def Let_def call_history_def check_capped_ok MAX_STRIKES_def bnd_app del: merge_Cons)
  have late: "scenario_cap E ?C base monotonic w = (Inl (AssertionError (lit ''runaway not bounded'')), w2)"
    if "\<not> monotonic w2 - monotonic w1 < 120"
    using that mk set ex ws_def
    by (simp add: scenario_cap_def time_now_def Let_def py_assert_app bnd_app del: merge_Cons)
  have "bnd (rc_run_action ?C (PStr (lit ''mkdir -p '' @ ws)) PNone None) (\<lambda>_. on_stub (set_stub_script (PStr ?i) cap_script)) w = (Inr (), w1)"
    using mk set by (simp add: bnd_app)
  with ex pass late show ?thesis by (cases "monotonic w2 - monotonic w1 < 120") auto
qed

theorem cap_scenario_passes_witness:
  "\<exists>w'. scenario_cap (box_env [lit ''git status'', lit ''python3 -m pytest -q''])
      (sys_openhands_client (\<lambda>_. True) (box_http [lit ''git status'', lit ''python3 -m pytest -q'']) (openhands_init (lit ''http://localhost:8000'') None 300))
      (lit ''/w'') (\<lambda>_. 0) box_world = (Inr (), w')"
proof -
  have "(119 :: int) \<notin> set (int_str k)" for k using int_str_ascii [of 119 k] by auto
  then have "(119 :: int) \<notin> set (lit ''strike='' @ int_str k @ lit '' fast_check exit_code=1 output='' @ [39, 120, 39])" for k
    by (simp add: lit_def)
  then have "\<not> py_in (lit ''tool call cap reached without a final answer'')
      (lit ''strike='' @ int_str k @ lit '' fast_check exit_code=1 output='' @ [39, 120, 39])" for k
    using py_in_set [of "lit ''tool call cap reached without a final answer''"] by (force simp: lit_def)
  note clean = this
  let ?fs = "[lit ''git status'', lit ''python3 -m pytest -q'']"
  have "\<exists>w1 d w2 w'. bnd (rc_run_action (sys_openhands_client (\<lambda>_. True) (box_http ?fs) (openhands_init (lit ''http://localhost:8000'') None 300))
        (PStr (lit ''mkdir -p '' @ lit ''/w'' @ lit ''/cap'')) PNone None) (\<lambda>_. on_stub (set_stub_script (PStr (lit ''STUB-CAP'')) cap_script)) box_world
        = (Inr (), w1)
    \<and> executor_node (box_env ?fs) (scenario_state (lit ''STUB-CAP'') (lit ''/w'' @ lit ''/cap'')) w1 = (Inr d, w2)
    \<and> scenario_cap (box_env ?fs) (sys_openhands_client (\<lambda>_. True) (box_http ?fs) (openhands_init (lit ''http://localhost:8000'') None 300))
        (lit ''/w'') (\<lambda>_. 0) box_world
        = (if (0 :: rat) - 0 < 120 then Inr () else Inl (AssertionError (lit ''runaway not bounded'')), w')"
    by (intro cap_scenario_passes [OF box_script_env _ _ _ _ refl]) (simp_all add: box_check_line box_truncation clean, simp_all add: lit_def)
  then show ?thesis by auto
qed

text \<open>
  C16: the third scenario passes on every agent server that stores the files and on which \<open>git status\<close>
  succeeds and the tests fail, provided that the line of a failing check does not quote \<open>exit_code=0\<close>,
  that the output of the failing validation can be truncated (it is text that UTF-8 encodes), and that
  the ticket's own text does not contain the mark of the feedback (which the name of the workspace could
  bring in): three strikes, each with its failing check in the log, the second and the third attempt
  opening with the output of the check before, one ledger entry that counts the six lines, and the end
  of the run.
\<close>

theorem strikes_scenario_passes:
  fixes E :: "('h, 'l) sys_world node_env"
  assumes "script_env P h cfg env E" and "seed_answers P h cfg ws"
    and "stores P h cfg (ws @ lit ''/attempt_note.txt'') (lit ''attempt in progress'' @ [10])"
    and "answers P h cfg (PStr ws) None (lit ''git status'') (\<lambda>r. exit_code r = 0)"
    and "answers P h cfg (PStr ws) None (lit ''python -m pytest'') (\<lambda>r. exit_code r \<noteq> 0
      \<and> (\<forall>k \<in> {1, 2, 3}. \<not> py_in (lit ''exit_code=0'') (fast_check_line E k r)))"
    and "answers P h cfg (PStr ws) (Some VALIDATOR_TIMEOUT_SECONDS) (lit ''python3 -m pytest -q'')
      (\<lambda>r. exit_code r \<noteq> 0 \<and> (\<exists>diag. truncate_diagnosis (output r) = Inr diag))"
    and ws_def: "ws = base @ lit ''/strikes''"
    and "\<not> py_in FEEDBACK_MARK (lit ''Ticket: '' @ py_repr (ne_printable E) (PDict (stub_scenario_ticket (lit ''STUB-STRIKES'') ws)))"
  shows "\<exists>w'. scenario_strikes E (sys_openhands_client P h cfg) base w = (Inr (), w')"
proof -
  let ?C = "sys_openhands_client P h cfg" and ?i = "lit ''STUB-STRIKES''" and ?m = "lit ''made an attempt''"
  let ?sc = "strikes_script (ws @ lit ''/attempt_note.txt'')"
  let ?tp = "lit ''Ticket: '' @ py_repr (ne_printable E) (PDict (stub_scenario_ticket ?i ws))"
  have ws: "ws \<noteq> []" "?i \<noteq> []" by (simp_all add: ws_def)
  obtain w0 where sd: "seed_calc_project ?C ws w = (Inr (), w0)"
    by (rule alwaysE [OF seed_runs [OF assms(2)]]) auto
  have "always (run_tool_blocks E ?C (PStr ws) (stub_blocks ci 0 (st_tool_calls (complete_turn x)))) (\<lambda>_. True)" for ci x
    by (simp add: complete_turn_def)
  then have t: "tools_run E ?C (PStr ws) ?sc"
    unfolding tools_run_def strikes_script_def using assms(3) by (auto intro: single_call_runs create_runs)
  have sn: "?sc \<noteq> []" by (simp add: strikes_script_def)
  obtain checks cs w1 w2 where set: "on_stub (set_stub_script (PStr ?i) ?sc) w0 = (Inr (), w1)"
    and ex: "executor_node E (scenario_state ?i ws) w1 = (Inr [Set_attempt_log (attempt_lines E 0 ?m checks),
          Set_ticket_status ESCALATED, Set_strike_count MAX_STRIKES], w2)"
    and ck: "length checks = 3" "\<forall>c \<in> set checks. exit_code c \<noteq> 0 \<and> (\<forall>k \<in> {1, 2, 3}. \<not> py_in (lit ''exit_code=0'') (fast_check_line E k c))"
    and hi: "get_call_history (PStr ?i) (sw_stub w2) = cs"
    and al: "list_all2 (attempt_of ?sc) (openings ?tp None checks) cs"
    using scenario_executor [OF assms(1) ws(2,1) sn t second_check_fails [OF assms(4,5)], of w0] unfolding stub_plans fst_conv by metis
  obtain c1 c2 c3 where c: "checks = [c1, c2, c3]"
    using ck(1) by (auto simp: numeral_3_eq_3 length_Suc_conv)
  let ?log = "attempt_lines E 0 ?m checks"
  have n: "length cs = 3" using list_all2_lengthD [OF al] ck(1) by simp
  have fails: "length (filter (\<lambda>line. py_in (lit ''fast_check'') line \<and> \<not> py_in (lit ''exit_code=0'') line) ?log) = 3"
    using ck(2) attempt_summary [of E] check_line_marked [of E] by (simp add: c)
  have fc: "first_contents cs = Inr [msg_content (opening_message ?tp None), msg_content (opening_message ?tp (Some (output c1))),
      msg_content (opening_message ?tp (Some (output c2)))]"
    using first_contents_of [OF al] by (simp add: c)
  have f0: "\<not> mentions FEEDBACK_MARK (msg_content (opening_message ?tp None))"
    using assms(8) by (simp add: opening_message_def)
  let ?s1 = "merge (scenario_state ?i ws) [Set_attempt_log ?log, Set_ticket_status ESCALATED, Set_strike_count MAX_STRIKES]"
  have s1: "active_ticket ?s1 = Some (stub_scenario_ticket ?i ws)" "strikes ?s1 = MAX_STRIKES"
    "ticket_status ?s1 = Some ESCALATED" "strike_count ?s1 = Some MAX_STRIKES" "attempt_log ?s1 = Some ?log" "decision_ledger ?s1 = None"
    by (simp_all add: scenario_state_def strikes_def empty_state_def)
  obtain s3 w3 where p: "escalated_pipeline E ?s1 w2 = (Inr s3, w3)" "ticket_status s3 = Some ESCALATED"
    "attempt_log s3 = Some ?log" "decision_ledger s3 = None"
    using escalated_pipeline_runs [OF assms(1) s1(1) ws(1) assms(6) s1(2), of w2] s1(5,6) by metis
  let ?s4 = "merge s3 (advance_node s3)"
  have s4: "ledger_of s3 = []" "ledger_of ?s4 = [distil ?log]" "attempt_log ?s4 = Some []" "dispatch_router ?s4 = None"
    "attempt_count (distil ?log) = int (length ?log)"
    using p(2-4) by (simp_all add: dispatch_router_def advance_node_def ledger_of_def log_of_def distil_def)
  show ?thesis
    using sd set ex hi n fails fc f0 feedback_marked p s1 s4 ws_def
    by (simp add: scenario_strikes_def Let_def call_history_def MAX_STRIKES_def bnd_app del: merge_Cons)
qed

theorem strikes_scenario_passes_witness:
  "\<exists>w'. scenario_strikes (box_env [lit ''python -m pytest'', lit ''python3 -m pytest -q''])
      (sys_openhands_client (\<lambda>_. True) (box_http [lit ''python -m pytest'', lit ''python3 -m pytest -q'']) (openhands_init (lit ''http://localhost:8000'') None 300))
      (lit ''/w'') box_world = (Inr (), w')"
proof -
  have m: "\<not> py_in FEEDBACK_MARK (lit ''Ticket: '' @ py_repr (\<lambda>_. True) (PDict (stub_scenario_ticket (lit ''STUB-STRIKES'') (lit ''/w'' @ lit ''/strikes''))))"
    by code_simp
  have e: "\<forall>k \<in> {1, 2, 3}. \<not> py_in (lit ''exit_code=0'') (lit ''strike='' @ int_str k @ lit '' fast_check exit_code=1 output='' @ [39, 120, 39])"
    by code_simp
  have b: "\<exists>b. py_encode CALC_BUGGY = Inr b" "\<exists>b. py_encode TEST_CALC_PY = Inr b" "\<exists>b. py_encode CALC_GITIGNORE = Inr b"
    "\<exists>b. py_encode (lit ''attempt in progress'' @ [10]) = Inr b"
    by (simp_all add: py_encode_def CALC_BUGGY_def TEST_CALC_PY_def CALC_GITIGNORE_def lit_def is_surrogate_def)
  have x: "py_strip (lit ''x'') \<noteq> []" by code_simp
  let ?h = "box_http [lit ''python -m pytest'', lit ''python3 -m pytest -q'']" and ?ws = "lit ''/w'' @ lit ''/strikes''"
  have s: "seed_answers P ?h cfg ?ws" for P cfg
    using b x by (simp add: seed_answers_def, simp add: CMD_SEED_def lit_def)
  show ?thesis
    by (rule strikes_scenario_passes [OF box_script_env s _ _ _ _ refl]; (subst box_printable, rule m)?)
       (use b(4) e in \<open>simp_all only: box_answers box_stores box_check_line\<close>, simp_all add: box_check_line box_truncation e)
qed

text \<open>
  C17: the context of an attempt grows linearly and nothing stale is carried along, as the fourth scenario
  asserts of its one run: after any run of the executor with the stub, whatever the sandbox answered
  and even when it raised, each recorded call of each attempt was given one opening message and two
  more per turn before it, in a well-formed conversation; and when each turn of the script that calls
  tools calls one, the checks of the scenario pass.
\<close>

theorem stub_context_growth:
  assumes "script_env P h cfg env E" and "heap_ok (sw_stub w)" and "executor_node E s w = (r, w')"
    and "c \<in> set (get_call_history k (sw_stub w'))"
  shows "map (length \<circ> call_messages) (calls_seen c) = map (\<lambda>i. 1 + 2 * i) [0..<length (calls_seen c)]
    \<and> list_all (conversation_ok \<circ> call_messages) (calls_seen c)
    \<and> (list_all (\<lambda>t. st_done t \<or> length (st_tool_calls t) = 1) (sc_script c)
         \<longrightarrow> check_context (calls_seen c) w0 = (Inr (), w0))"
proof -
  have c: "calls_ok c" using recorded_calls_ok executor_heap_ok [OF assms(1-3)] assms(4) by blast
  then have "map (length \<circ> call_messages) (calls_seen c) = map (\<lambda>i. 1 + 2 * i) [0..<length (calls_seen c)]"
    and "list_all (conversation_ok \<circ> call_messages) (calls_seen c)"
    by (auto simp: calls_ok_def call_ok_def list_all_length intro: nth_equalityI)
  moreover have "list_all (\<lambda>t. st_done t \<or> length (st_tool_calls t) = 1) (sc_script c)
      \<longrightarrow> check_context (calls_seen c) w0 = (Inr (), w0)"
    unfolding list_all_iff by (intro impI check_context_ok [OF c])
  ultimately show ?thesis by blast
qed

theorem stub_context_growth_witness:
  "\<exists>w1 r w' c. executor_node (box_env [lit ''git status'']) (scenario_state (lit ''STUB-CAP'') (lit ''/w/cap'')) w1 = (r, w')
     \<and> c \<in> set (get_call_history (PStr (lit ''STUB-CAP'')) (sw_stub w'))
     \<and> map (length \<circ> call_messages) (calls_seen c) = map (\<lambda>i. 1 + 2 * i) [0..<25]
     \<and> check_context (calls_seen c) () = (Inr (), ())"
proof -
  let ?E = "box_env [lit ''git status'']" and ?h = "box_http [lit ''git status'']" and ?i = "lit ''STUB-CAP''"
  let ?cfg = "openhands_init (lit ''http://localhost:8000'') None 300"
  let ?C = "sys_openhands_client (\<lambda>_. True) ?h ?cfg :: (unit, unit) sys_world runtime_client"
  have a: "answers (\<lambda>_. True) ?h ?cfg (PStr (lit ''/w/cap'')) None (lit ''true'') (\<lambda>_. True)"
    "answers (\<lambda>_. True) ?h ?cfg (PStr (lit ''/w/cap'')) None (lit ''git status'') (\<lambda>r. exit_code r \<noteq> 0 \<and> True)"
    by (simp_all add: lit_def)
  have t: "tools_run ?E ?C (PStr (lit ''/w/cap'')) cap_script"
    unfolding tools_run_def cap_script_def by (simp add: single_call_runs [OF bash_runs [OF a(1)]])
  have ne: "?i \<noteq> []" "lit ''/w/cap'' \<noteq> []" "cap_script \<noteq> []" by (simp_all add: lit_def cap_script_def)
  obtain checks cs w1 w2 where set: "on_stub (set_stub_script (PStr ?i) cap_script) box_world = (Inr (), w1)"
    and ex: "executor_node ?E (scenario_state ?i (lit ''/w/cap'')) w1
      = (Inr [Set_attempt_log (attempt_lines ?E 0 (fst (stub_plan MAX_TOOL_CALLS (fresh_stub cap_script))) checks),
          Set_ticket_status ESCALATED, Set_strike_count MAX_STRIKES], w2)"
    and n: "length checks = 3"
    and h: "get_call_history (PStr ?i) (sw_stub w2) = cs"
    and al: "list_all2 (attempt_of cap_script) (openings (lit ''Ticket: '' @ py_repr (ne_printable ?E)
        (PDict (stub_scenario_ticket ?i (lit ''/w/cap'')))) None checks) cs"
    using scenario_executor [OF box_script_env ne t first_check_fails [OF a(2)], of box_world] by metis
  from list_all2_lengthD [OF al] n obtain c cs' where c: "cs = c # cs'" by (cases cs) auto
  with al have ca: "sc_script c = cap_script" "length (calls_seen c) = 25"
    using stub_plans(1) by (auto simp: list_all2_Cons2 attempt_of_def MAX_TOOL_CALLS_def)
  have "heap_ok (sw_stub w1)"
    using set by (auto simp: set_script_runs box_world_def heap_ok_def stub_wf_def split: if_splits)
  from stub_context_growth [OF box_script_env this ex]
  have g: "c \<in> set (get_call_history (PStr ?i) (sw_stub w2)) \<Longrightarrow>
      map (length \<circ> call_messages) (calls_seen c) = map (\<lambda>i. 1 + 2 * i) [0..<length (calls_seen c)]
      \<and> (list_all (\<lambda>t. st_done t \<or> length (st_tool_calls t) = 1) (sc_script c)
           \<longrightarrow> check_context (calls_seen c) () = (Inr (), ()))" by fast
  have m: "c \<in> set (get_call_history (PStr ?i) (sw_stub w2))" by (simp add: h c)
  have "list_all (\<lambda>t. st_done t \<or> length (st_tool_calls t) = 1) (sc_script c)"
    by (simp add: ca cap_script_def tool_turn_def)
  with g [OF m, unfolded ca(2)] m ex show ?thesis by blast
qed

end
