(* ===== verification/Stub_Happy.thy ===== *)
theory Stub_Happy
  imports Verify_Stub
begin

text \<open>
  What a passing first scenario of \<open>scripts/verify_executor_loop_stub.py\<close> certifies. Its witness is a
  whole run of the script against \<open>disk_box\<close>, an agent server with files and a HEAD that a commit moves.
\<close>

section \<open>A sandbox with files and a repository\<close>

record disk =
  dk_files :: "(str \<times> int list) list"
  dk_head :: str

definition shell_reply :: "pyval \<Rightarrow> disk \<Rightarrow> str \<times> disk" where
  "shell_reply c d =
     (case c of
        PStr s \<Rightarrow>
          (if is_prefix (lit ''git rev-parse HEAD'') s then (dk_head d, d)
           else if is_prefix (lit ''git commit -m'') s then (lit ''committed'', d\<lparr>dk_head := lit ''bbb''\<rparr>)
           else if is_prefix (lit ''python3 -m pytest'') s then (lit ''1 passed'', d)
           else (lit ''ok'', d))
      | _ \<Rightarrow> (lit ''ok'', d))"

definition disk_box :: "disk http" where
  "disk_box =
     \<lparr>http_post_json = (\<lambda>c u p t d. case shell_reply (dget p ''command'') d of (out, d') \<Rightarrow>
          (Inr \<lparr>status_code = 200, resp_text = [],
             resp_json = Inr \<lparr>bo_exit_code = Some 0, bo_stdout = Some out, bo_stderr = None, bo_repr = []\<rparr>\<rparr>, d')),
      http_get = (\<lambda>c u d. case map_of (dk_files d) (drop (length (lit ''/api/file/download/'')) u) of
          None \<Rightarrow> (Inr \<lparr>status_code = 404, resp_text = [], resp_json = Inl (JSONDecodeError [])\<rparr>, d)
        | Some b \<Rightarrow> (Inr \<lparr>status_code = 200, resp_text = py_decode_replace b, resp_json = Inl (JSONDecodeError [])\<rparr>, d)),
      http_post_file = (\<lambda>c u n b d. (Inr \<lparr>status_code = 200, resp_text = [], resp_json = Inl (JSONDecodeError [])\<rparr>,
          d\<lparr>dk_files := (drop (length (lit ''/api/file/upload/'')) u, b) # dk_files d\<rparr>)),
      http_aclose = (\<lambda>c. ret ())\<rparr>"

definition disk_environ :: environ where
  "disk_environ = [lit ''SYNDICATE_RUNTIME_URL'' \<mapsto> lit ''http://localhost:8000'']"

definition disk_env :: "(disk, unit) sys_world node_env" where
  "disk_env = system_env (\<lambda>_. True) disk_box (raise (ExternalError [])) (stub_environ disk_environ) 3"

definition disk_world :: "(disk, unit) sys_world" where
  "disk_world = \<lparr>sw_mock = Map.empty, sw_net = \<lparr>dk_files = [], dk_head = lit ''aaa''\<rparr>,
     sw_stub = \<lparr>ss_scripts = Map.empty, ss_history = Map.empty, ss_heap = []\<rparr>, sw_llm = ()\<rparr>"

definition disk_client :: "(disk, unit) sys_world runtime_client" where
  "disk_client = sys_openhands_client (\<lambda>_. True) disk_box (openhands_init (lit ''http://localhost:8000'') None 300)"

text \<open>The scenario up to the router: everything the assertions on the attempt look at.\<close>

fun passed_with :: "delta \<Rightarrow> bool" where
  "passed_with [Set_attempt_log l, Set_ticket_status st, Set_strike_count n, Set_validation_diagnosis dg] \<longleftrightarrow>
     st = LOCAL_PASS \<and> n = 1 \<and> dg = None"
| "passed_with _ = False"

definition happy_attempt :: bool where
  "happy_attempt \<longleftrightarrow>
     (case bnd (seed_calc_project disk_client (lit ''/w/happy'')) (\<lambda>_.
           bnd (on_stub (set_stub_script (PStr (lit ''STUB-HAPPY'')) (happy_script (lit ''/w/happy/calc.py'')))) (\<lambda>_.
             executor_node disk_env (scenario_state (lit ''STUB-HAPPY'') (lit ''/w/happy'')))) disk_world of
        (Inl e, w) \<Rightarrow> False
      | (Inr d, w) \<Rightarrow> passed_with d \<and> dk_head (sw_net w) = lit ''aaa''
          \<and> (let history = get_call_history (PStr (lit ''STUB-HAPPY'')) (sw_stub w)
             in length history = 1 \<and> check_happy_calls (lit ''/w/happy/calc.py'') (calls_seen (history ! 0)) () = (Inr (), ()))
          \<and> map_of (dk_files (sw_net w)) (lit ''/w/happy/calc.py'') = Some (utf8_bytes (py_replace_first CALC_BUGGY (lit ''return a - b'') (lit ''return a + b''))))"

section \<open>What a pass certifies\<close>

lemma executor_status:
  assumes "executor_node E s w = (Inr d, w')"
  shows "active_ticket (merge s d) = active_ticket s"
  by (rule executor_tn.frame(3) [OF assms])

lemma validator_keeps:
  assumes "validator_node E s w = (Inr d, w')"
  shows "active_ticket (merge s d) = active_ticket s" and "ticket_status (merge s d) = ticket_status s"
  using assms by (cases rule: validator_node_cases; simp)+

text \<open>The pipeline ends with the commit: validator and commit node are all that touches the world.\<close>

lemma happy_pipeline_certifies:
  assumes "happy_pipeline E s w = (Inr (), w')" and "ticket_status s \<noteq> Some DONE"
  shows "\<exists>d w1. validator_node E s w = (Inr d, w1) \<and> validated (merge s d)
    \<and> active_ticket (merge s d) = active_ticket s \<and> commit_landed E (merge s d) w1 w'"
proof -
  from assms(1) obtain d w1 d2 where v: "validator_node E s w = (Inr d, w1)"
    and p: "last_validation_passed (merge s d) = Some True"
    and o: "oversight_git_node E (merge s d) w1 = (Inr d2, w')"
    and st: "ticket_status (merge (merge s d) d2) = Some DONE"
    unfolding happy_pipeline_def Let_def by (elim bnd_eq_InrE) (auto simp: py_assert_Inr_iff)
  have "commit_landed E (merge s d) w1 w'"
    using done_commit_landed [OF o st] validator_keeps [OF v] assms(2) by simp
  moreover have "validated (merge s d)" using p by (simp add: validated_def)
  ultimately show ?thesis using v validator_keeps [OF v] by metis
qed

text \<open>
  C18: a pass of the first scenario is evidence of a commit. When it returns, the executor worked on the
  scenario's ticket, the file was read back with the fix in it, then the validator ran and validated
  the ticket, and the last thing that happened was the commit: the commands of the commit node were
  run in its workspace, exited 0, and HEAD moved.
\<close>

theorem happy_pass_certifies:
  assumes "scenario_happy E client base w = (Inr (), w')"
  shows "\<exists>d1 s1 w1 w2 w3 w4 body d w5. executor_node E (scenario_state (lit ''STUB-HAPPY'') (base @ lit ''/happy'')) w1 = (Inr d1, w2)
    \<and> s1 = merge (scenario_state (lit ''STUB-HAPPY'') (base @ lit ''/happy'')) d1 \<and> ticket_status s1 = Some LOCAL_PASS
    \<and> rc_read_file client (PStr (base @ lit ''/happy/calc.py'')) w3 = (Inr (PStr body), w4)
    \<and> py_in (lit ''return a + b'') body
    \<and> validator_node E s1 w4 = (Inr d, w5) \<and> validated (merge s1 d)
    \<and> active_ticket (merge s1 d) = Some (stub_scenario_ticket (lit ''STUB-HAPPY'') (base @ lit ''/happy''))
    \<and> commit_landed E (merge s1 d) w5 w'"
proof -
  let ?i = "lit ''STUB-HAPPY''" and ?ws = "base @ lit ''/happy''"
  let ?s = "scenario_state ?i ?ws"
  from assms obtain d1 w1 w2 w3 w4 t where ex: "executor_node E ?s w1 = (Inr d1, w2)"
    and st: "ticket_status (merge ?s d1) = Some LOCAL_PASS"
    and rd: "rc_read_file client (PStr (?ws @ lit ''/calc.py'')) w3 = (Inr t, w4)" "in_text (lit ''return a + b'') t"
    and pl: "happy_pipeline E (merge ?s d1) w4 = (Inr (), w')"
    unfolding scenario_happy_def Let_def by (elim bnd_eq_InrE) (auto simp: py_assert_Inr_iff)
  obtain d w5 where s: "validator_node E (merge ?s d1) w4 = (Inr d, w5)" "validated (merge (merge ?s d1) d)"
    "active_ticket (merge (merge ?s d1) d) = active_ticket (merge ?s d1)" "commit_landed E (merge (merge ?s d1) d) w5 w'"
    using happy_pipeline_certifies [OF pl] st by auto
  have "active_ticket (merge (merge ?s d1) d) = Some (stub_scenario_ticket ?i ?ws)"
    unfolding s(3) executor_status [OF ex] by (simp add: scenario_state_def)
  moreover obtain body where "t = PStr body" "py_in (lit ''return a + b'') body"
    using rd(2) by (cases t) simp_all
  moreover have "(base @ lit ''/happy'') @ lit ''/calc.py'' = base @ lit ''/happy/calc.py''" by (simp add: lit_def)
  ultimately show ?thesis using ex st rd(1) s(1,2,4) by metis
qed

lemma disk_action:
  "rc_run_action disk_client (PStr c) cwd t w =
     (case shell_reply (PStr c) (sw_net w) of (out, d) \<Rightarrow> (Inr \<lparr>exit_code = 0, output = out\<rparr>, w\<lparr>sw_net := d\<rparr>))"
  by (simp add: disk_client_def sys_openhands_client_def on_net_def openhands_run_action_def disk_box_def
      bash_payload_def dget_def raise_for_status_def split_beta)

lemma disk_read:
  assumes "map_of (dk_files (sw_net w)) p = Some b"
  shows "rc_read_file disk_client (PStr p) w = (Inr (PStr (py_decode_replace b)), w)"
  using assms by (simp add: disk_client_def sys_openhands_client_def on_net_def openhands_read_file_def disk_box_def
      raise_for_status_def)

lemma disk_not_mock: "\<not> rc_is_mock disk_client"
  by (simp add: disk_client_def sys_openhands_client_def)

lemma disk_script_env:
  assumes "runtime_base_url (stub_environ disk_environ) = Inr url"
  shows "script_env (\<lambda>_. True) disk_box (openhands_init url None 300) disk_environ disk_env"
proof -
  have n: "disk_environ (lit ''SYNDICATE_RUNTIME_TIMEOUT_SECONDS'') = None"
    "disk_environ (lit ''SYNDICATE_RUNTIME_SESSION_API_KEY'') = None" by (simp_all add: disk_environ_def)
  show ?thesis unfolding disk_env_def by (rule script_env_system [OF assms n(1), unfolded n(2)])
qed

lemma disk_env_client: "ne_get_runtime_client disk_env = ret disk_client"
proof -
  have "runtime_base_url (stub_environ disk_environ) = Inr (lit ''http://localhost:8000'')" by code_simp
  from disk_script_env [OF this] show ?thesis by (simp add: script_env_def disk_client_def)
qed

lemma happy_ticket_reads:
  "dget (stub_scenario_ticket i ws) ''verification_command'' = PStr (lit ''python3 -m pytest -q'')"
  "files_of (stub_scenario_ticket i ws) = PList [PStr (lit ''calc.py'')]"
  by (simp_all add: stub_scenario_ticket_def files_of_def dget_def py_or_def)

lemma disk_validates:
  assumes "ticket_of s = stub_scenario_ticket i ws" and "ws \<noteq> []"
  shows "validator_node disk_env s w = (Inr [Set_last_validation_passed True, Set_validation_diagnosis None], w)"
  using assms(2)
  by (simp add: validator_node_def disk_env_client disk_not_mock assms happy_ticket_reads scenario_ticket py_or_def disk_action
      shell_reply_def is_prefix_lit Let_def)

lemma disk_commits:
  assumes "ticket_of s = stub_scenario_ticket i ws" and "ws \<noteq> []" and "dk_head (sw_net w) = lit ''aaa''"
  shows "\<exists>l w'. oversight_git_node disk_env s w = (Inr [Set_attempt_log l, Set_ticket_status DONE], w')"
proof -
  have h: "head_of \<lparr>exit_code = 0, output = lit ''aaa''\<rparr> = Some (lit ''aaa'')"
    "head_of \<lparr>exit_code = 0, output = lit ''bbb''\<rparr> = Some (lit ''bbb'')" by code_simp+
  have q: "quoted_paths (PList [PStr (lit ''calc.py'')]) = Inr (lit ''calc.py'')" by code_simp
  show ?thesis
    using h assms(2,3)
    by (simp add: oversight_git_node_def disk_env_client disk_not_mock oversight_commit_def commit_staged_def verify_head_def git_run_def
        assms(1) happy_ticket_reads scenario_ticket q git_commands disk_action shell_reply_def is_prefix_lit Let_def)
qed

lemma disk_pipeline:
  assumes "active_ticket s = Some (stub_scenario_ticket i ws)" and "ws \<noteq> []" and "dk_head (sw_net w) = lit ''aaa''"
    and "decision_ledger s = None"
  shows "\<exists>w'. happy_pipeline disk_env s w = (Inr (), w')"
proof -
  have t: "ticket_of s = stub_scenario_ticket i ws" using assms(1) by (simp add: ticket_of_def)
  let ?s1 = "merge s [Set_last_validation_passed True, Set_validation_diagnosis None]"
  have t1: "ticket_of ?s1 = stub_scenario_ticket i ws" using t by (simp add: ticket_of_def)
  obtain l w' where g: "oversight_git_node disk_env ?s1 w = (Inr [Set_attempt_log l, Set_ticket_status DONE], w')"
    using disk_commits [OF t1 assms(2,3)] by blast
  have r: "validator_router ?s1 = Oversight_git" "last_validation_passed ?s1 = Some True"
    by (simp_all add: validator_router_def validated_def)
  let ?s2 = "merge ?s1 [Set_attempt_log l, Set_ticket_status DONE]"
  have s2: "ticket_status ?s2 = Some DONE" "length (ledger_of (merge ?s2 (advance_node ?s2))) = 1"
    "attempt_log (merge ?s2 (advance_node ?s2)) = Some []" "dispatch_router (merge ?s2 (advance_node ?s2)) = None"
    using assms(4) by (simp_all add: advance_node_def ledger_of_def dispatch_router_def validated_def)
  show ?thesis
    using disk_validates [OF t assms(2)] g r s2 by (simp add: happy_pipeline_def Let_def del: merge_Cons)
qed

lemma check_happy_pure:
  "check_happy_calls p cs () = (Inr (), ()) \<Longrightarrow> check_happy_calls p cs w = (Inr (), w)"
  by (auto simp: check_happy_calls_def bnd_app py_assert_app split: if_splits sum.splits)

lemma happy_attempt: "happy_attempt"
  by code_simp

theorem happy_pass_certifies_witness:
  "\<exists>s w1 w'. scenario_happy disk_env disk_client (lit ''/w'') disk_world = (Inr (), w') \<and> validated s \<and> commit_landed disk_env s w1 w'
     \<and> active_ticket s = Some (stub_scenario_ticket (lit ''STUB-HAPPY'') (lit ''/w'' @ lit ''/happy''))"
proof -
  let ?i = "lit ''STUB-HAPPY''" and ?ws = "lit ''/w/happy''" and ?p = "lit ''/w/happy/calc.py''"
  have ha: "happy_attempt" by (rule happy_attempt)
  obtain d wa wb w2 where seed: "seed_calc_project disk_client ?ws disk_world = (Inr (), wa)"
    and set: "on_stub (set_stub_script (PStr ?i) (happy_script ?p)) wa = (Inr (), wb)"
    and ex: "executor_node disk_env (scenario_state ?i ?ws) wb = (Inr d, w2)"
    and d: "passed_with d" and h: "dk_head (sw_net w2) = lit ''aaa''"
    and hist: "length (get_call_history (PStr ?i) (sw_stub w2)) = 1"
    and calls: "check_happy_calls ?p (calls_seen (get_call_history (PStr ?i) (sw_stub w2) ! 0)) () = (Inr (), ())"
    and fl: "map_of (dk_files (sw_net w2)) ?p = Some (utf8_bytes (py_replace_first CALC_BUGGY (lit ''return a - b'') (lit ''return a + b'')))"
    using ha unfolding happy_attempt_def Let_def
    by (auto split: prod.splits sum.splits elim!: bnd_eq_InrE)
  obtain l where dl: "d = [Set_attempt_log l, Set_ticket_status LOCAL_PASS, Set_strike_count 1, Set_validation_diagnosis None]"
    using d by (auto elim: passed_with.elims)
  have rd: "py_in (lit ''return a + b'') (py_decode_replace (utf8_bytes (py_replace_first CALC_BUGGY (lit ''return a - b'') (lit ''return a + b''))))"
    by code_simp
  let ?s1 = "merge (scenario_state ?i ?ws) d"
  have s1: "active_ticket ?s1 = Some (stub_scenario_ticket ?i ?ws)" "decision_ledger ?s1 = None" "ticket_status ?s1 = Some LOCAL_PASS"
    by (simp_all add: dl scenario_state_def empty_state_def)
  have ne: "?ws \<noteq> []" by (simp add: lit_def)
  obtain w' where pl: "happy_pipeline disk_env ?s1 w2 = (Inr (), w')" using disk_pipeline [OF s1(1) ne h s1(2)] by blast
  have sh: "scenario_happy disk_env disk_client (lit ''/w'') disk_world = (Inr (), w')"
    using seed set ex hist check_happy_pure [OF calls, of w2] disk_read [OF fl] rd pl s1(3)
    by (simp add: scenario_happy_def Let_def lit_append [symmetric] call_history_def bnd_app)
  from happy_pass_certifies [OF sh] sh show ?thesis by blast
qed

end
