(* ===== verification/Attempt_Events.thy ===== *)
theory Attempt_Events
  imports Entry_Points
begin

text \<open>
  The \<open>attempt\<close> events of a run. \<open>_extract_attempts\<close> in \<open>server/runner.py\<close> works incrementally: it
  remembers how long the log was at the executor's last update and reads only what is new. Its
  reference is \<open>attempts_in (executor_log [] us)\<close>, the executor's last log read at once. The log in
  the state only grows until \<open>advance_node\<close> folds it into the ledger, and after that the executor does
  not run again (\<open>run_log_chain\<close>, an induction over the graph's run under \<open>graph_inv\<close>), so the two
  agree (\<open>attempt_events_exact\<close>).
\<close>

section \<open>What a record shows\<close>

definition sent :: "(int \<Rightarrow> bool) \<Rightarrow> dict \<Rightarrow> dict" where
  "sent P p = cap_payload P (redact_items p) MAX_PAYLOAD_BYTES"

definition shown :: "run_record \<Rightarrow> (event_kind \<times> dict) list" where
  "shown r = map (\<lambda>e. (ev_kind e, ev_payload e)) (rr_backlog r)"

lemma shown_emit:
  assumes "length (shown r) < BACKLOG_MAXLEN"
  shows "shown (emit_event P ck k nd p r) = shown r @ [(k, sent P p)]"
proof -
  have "length (rr_backlog r) < BACKLOG_MAXLEN" using assms by (simp add: shown_def)
  then show ?thesis by (simp add: shown_def emit_event_fields last_n_no_overflow make_envelope_def sent_def)
qed

lemma shown_cong: "rr_backlog q = rr_backlog r \<Longrightarrow> shown q = shown r"
  by (simp add: shown_def)

lemma shown_emit_all:
  "length (shown r) + length ps \<le> BACKLOG_MAXLEN \<Longrightarrow>
     shown (emit_all P ck k nd ps r) = shown r @ map (\<lambda>p. (k, sent P p)) ps"
  by (induction ps arbitrary: r) (simp_all add: shown_emit)

definition shown_attempts :: "run_record \<Rightarrow> dict list" where
  "shown_attempts r = map snd (filter (\<lambda>x. fst x = Attempt) (shown r))"

lemma shown_attempts_append:
  "shown q = shown r @ xs \<Longrightarrow> shown_attempts q = shown_attempts r @ map snd (filter (\<lambda>x. fst x = Attempt) xs)"
  by (simp add: shown_attempts_def)

lemma attempts_cong: "rr_backlog q = rr_backlog r \<Longrightarrow> shown_attempts q = shown_attempts r"
  by (simp add: shown_attempts_def shown_def)

text \<open>As long as fewer than 2000 events were emitted, the backlog has them all.\<close>

definition counted :: "run_record \<Rightarrow> bool" where
  "counted r \<longleftrightarrow> rr_seq_counter r = int (length (shown r))"

lemma counted_emit:
  assumes "counted r" and "rr_seq_counter r < int BACKLOG_MAXLEN"
  shows "counted (emit_event P ck k nd p r)" "shown (emit_event P ck k nd p r) = shown r @ [(k, sent P p)]"
  using assms by (simp_all add: counted_def shown_emit emit_event_fields)

lemma emit_all_counter: "rr_seq_counter (emit_all P ck k nd ps r) = rr_seq_counter r + int (length ps)"
  by (induction ps arbitrary: r) (simp_all add: emit_event_fields)

lemma emit_all_log_len: "rr_last_attempt_log_len (emit_all P ck k nd ps r) = rr_last_attempt_log_len r"
  by (induction ps arbitrary: r) (simp_all add: emit_event_fields)

lemma counted_emit_all:
  assumes "counted r" and "rr_seq_counter r + int (length ps) \<le> int BACKLOG_MAXLEN"
  shows "counted (emit_all P ck k nd ps r)" "shown (emit_all P ck k nd ps r) = shown r @ map (\<lambda>p. (k, sent P p)) ps"
  using assms by (simp_all add: counted_def shown_emit_all emit_all_counter)

section \<open>One update\<close>

definition delta_of :: "str \<times> pyval \<Rightarrow> dict" where
  "delta_of u = (case snd u of PDict d \<Rightarrow> d | _ \<Rightarrow> [])"

definition new_attempts :: "str \<times> pyval \<Rightarrow> nat \<Rightarrow> dict list \<times> nat" where
  "new_attempts u n =
     (if fst u \<noteq> lit ''executor'' then ([], n)
      else case dget (delta_of u) ''attempt_log'' of PList l \<Rightarrow> (attempts_in (drop n l), length l) | _ \<Rightarrow> ([], n))"

lemma extract_new:
  "extract_attempts (fst u) (delta_of u) r
     = (fst (new_attempts u (rr_last_attempt_log_len r)),
        r\<lparr>rr_last_attempt_log_len := snd (new_attempts u (rr_last_attempt_log_len r))\<rparr>)"
  by (auto simp: extract_attempts_def new_attempts_def split: pyval.split)

lemma escalation_keeps:
  assumes "extract_escalation d r = (p, q)"
  shows "rr_backlog q = rr_backlog r" "rr_seq_counter q = rr_seq_counter r"
    "rr_last_attempt_log_len q = rr_last_attempt_log_len r"
  using assms by (auto simp: extract_escalation_def Let_def split: if_splits option.splits)

lemma on_update_parts:
  "on_update P ck u r =
     (let r1 = emit_event P ck Node_update (Some (fst u)) (delta_of u) r;
          (attempts, r2) = extract_attempts (fst u) (delta_of u) r1;
          r3 = emit_all P ck Attempt (fst u) attempts r2;
          (escalation, r4) = extract_escalation (delta_of u) r3
      in case escalation of None \<Rightarrow> r4 | Some p \<Rightarrow> emit_event P ck Escalation (Some (fst u)) p r4)"
  by (cases u) (simp add: on_update_def delta_of_def Let_def split_beta cong: option.case_cong)

lemma update_counter:
  "rr_seq_counter (on_update P ck u r) \<le> rr_seq_counter r + 2 + int (length (fst (new_attempts u (rr_last_attempt_log_len r))))"
  "rr_last_attempt_log_len (on_update P ck u r) = snd (new_attempts u (rr_last_attempt_log_len r))"
proof -
  let ?n = "new_attempts u (rr_last_attempt_log_len r)"
  let ?r1 = "emit_event P ck Node_update (Some (fst u)) (delta_of u) r"
  let ?r3 = "emit_all P ck Attempt (fst u) (fst ?n) (?r1\<lparr>rr_last_attempt_log_len := snd ?n\<rparr>)"
  have l1: "rr_last_attempt_log_len ?r1 = rr_last_attempt_log_len r" by (simp add: emit_event_fields)
  obtain esc r4 where e: "extract_escalation (delta_of u) ?r3 = (esc, r4)" by fastforce
  have upd: "on_update P ck u r = (case esc of None \<Rightarrow> r4 | Some p \<Rightarrow> emit_event P ck Escalation (Some (fst u)) p r4)"
    by (simp add: on_update_parts Let_def extract_new l1 e)
  show "rr_seq_counter (on_update P ck u r) \<le> rr_seq_counter r + 2 + int (length (fst ?n))"
    "rr_last_attempt_log_len (on_update P ck u r) = snd ?n"
    unfolding upd by (cases esc; simp add: emit_event_fields escalation_keeps [OF e] emit_all_counter emit_all_log_len)+
qed

lemma update_attempts:
  assumes "counted r" and "rr_seq_counter (on_update P ck u r) \<le> int BACKLOG_MAXLEN"
  shows "counted (on_update P ck u r)"
    and "shown_attempts (on_update P ck u r) = shown_attempts r @ map (sent P) (fst (new_attempts u (rr_last_attempt_log_len r)))"
proof -
  define as where "as = fst (new_attempts u (rr_last_attempt_log_len r))"
  define n where "n = snd (new_attempts u (rr_last_attempt_log_len r))"
  define r1 where "r1 = emit_event P ck Node_update (Some (fst u)) (delta_of u) r"
  define r2 where "r2 = r1\<lparr>rr_last_attempt_log_len := n\<rparr>"
  define r3 where "r3 = emit_all P ck Attempt (fst u) as r2"
  obtain esc r4 where e: "extract_escalation (delta_of u) r3 = (esc, r4)" by fastforce
  have l1: "rr_last_attempt_log_len r1 = rr_last_attempt_log_len r" by (simp add: r1_def emit_event_fields)
  have a: "extract_attempts (fst u) (delta_of u) r1 = (as, r2)"
    unfolding extract_new l1 as_def r2_def n_def by simp
  have upd: "on_update P ck u r = (case esc of None \<Rightarrow> r4 | Some p \<Rightarrow> emit_event P ck Escalation (Some (fst u)) p r4)"
    by (simp add: on_update_parts Let_def r1_def [symmetric] a r3_def [symmetric] e)
  note k4 = escalation_keeps [OF e]
  have ctr: "rr_seq_counter r4 = rr_seq_counter r + 1 + int (length as)"
    by (simp add: k4 r3_def emit_all_counter r2_def r1_def emit_event_fields)
  have le: "rr_seq_counter r4 \<le> rr_seq_counter (on_update P ck u r)"
    unfolding upd by (cases esc) (simp_all add: emit_event_fields)
  have c1: "counted r1" "shown r1 = shown r @ [(Node_update, sent P (delta_of u))]"
    using counted_emit [OF assms(1)] ctr le assms(2) by (simp_all add: r1_def)
  have c2: "counted r2" "shown r2 = shown r1" "rr_seq_counter r2 = rr_seq_counter r + 1"
    using c1(1) by (simp_all add: r2_def counted_def shown_def r1_def emit_event_fields)
  have c3: "counted r3" "shown r3 = shown r2 @ map (\<lambda>p. (Attempt, sent P p)) as"
    using counted_emit_all [OF c2(1)] c2(3) ctr le assms(2) by (simp_all add: r3_def)
  have s3: "shown_attempts r3 = shown_attempts r @ map (sent P) as"
    by (simp add: shown_attempts_def c3(2) c2(2) c1(2) filter_map comp_def)
  have c4: "counted r4" "shown r4 = shown r3" "shown_attempts r4 = shown_attempts r3"
    using c3(1) k4 by (simp_all add: counted_def shown_def shown_attempts_def)
  have "counted (on_update P ck u r) \<and> shown_attempts (on_update P ck u r) = shown_attempts r4"
  proof (cases esc)
    case None
    with upd c4(1) show ?thesis by simp
  next
    case (Some p)
    then have "rr_seq_counter r4 < int BACKLOG_MAXLEN" using upd assms(2) by (simp add: emit_event_fields)
    from counted_emit [OF c4(1) this] upd Some show ?thesis
      by (simp add: shown_attempts_def emit_event_fields)
  qed
  with c4(3) s3 show "counted (on_update P ck u r)"
    and "shown_attempts (on_update P ck u r) = shown_attempts r @ map (sent P) (fst (new_attempts u (rr_last_attempt_log_len r)))"
    by (simp_all add: as_def)
qed

section \<open>A stream of updates\<close>

fun attempts_from :: "nat \<Rightarrow> (str \<times> pyval) list \<Rightarrow> dict list" where
  "attempts_from n [] = []"
| "attempts_from n (u # us) = fst (new_attempts u n) @ attempts_from (snd (new_attempts u n)) us"

lemma updates_counter:
  "rr_seq_counter (fold (on_update P ck) us r)
     \<le> rr_seq_counter r + 2 * int (length us) + int (length (attempts_from (rr_last_attempt_log_len r) us))"
proof (induction us arbitrary: r)
  case (Cons u us)
  from Cons.IH [of "on_update P ck u r"] update_counter [of P ck u r] show ?case by simp
qed simp

lemma drive_run_counter:
  "rr_seq_counter (drive_run P ck us fin r)
     \<le> rr_seq_counter r + 2 + 2 * int (length us) + int (length (attempts_from (rr_last_attempt_log_len r) us))"
proof -
  let ?r2 = "fold (on_update P ck) us (on_start P ck r)"
  have "rr_seq_counter (drive_run P ck us fin r) = rr_seq_counter ?r2 + 1"
    using on_end_extends(1) [of fin P ck ?r2] by (simp add: extends_def drive_run_def)
  moreover have "rr_seq_counter (on_start P ck r) = rr_seq_counter r + 1"
    "rr_last_attempt_log_len (on_start P ck r) = rr_last_attempt_log_len r"
    by (simp_all add: on_start_def emit_event_fields)
  ultimately show ?thesis using updates_counter [of P ck us "on_start P ck r"] by simp
qed

lemma attempts_in_length: "length (attempts_in xs) \<le> length xs"
  by (induction xs rule: attempts_in.induct) (auto intro: le_SucI)

lemma update_counter_mono: "rr_seq_counter r \<le> rr_seq_counter (on_update P ck u r)"
  by (rule on_update_extends [of P ck u r]) (simp add: extends_def)

lemma updates_counter_mono: "rr_seq_counter r \<le> rr_seq_counter (fold (on_update P ck) us r)"
proof (induction us arbitrary: r)
  case (Cons u us)
  from update_counter_mono [of r P ck u] Cons.IH [of "on_update P ck u r"] show ?case by simp
qed simp

lemma updates_attempts:
  assumes "counted r" and "rr_seq_counter (fold (on_update P ck) us r) \<le> int BACKLOG_MAXLEN"
  shows "counted (fold (on_update P ck) us r)
    \<and> shown_attempts (fold (on_update P ck) us r) = shown_attempts r @ map (sent P) (attempts_from (rr_last_attempt_log_len r) us)"
  using assms
proof (induction us arbitrary: r)
  case (Cons u us)
  have "rr_seq_counter (on_update P ck u r) \<le> int BACKLOG_MAXLEN"
    using updates_counter_mono [of "on_update P ck u r" P ck us] Cons.prems(2) by simp
  note u = update_attempts [OF Cons.prems(1) this]
  from Cons.IH [OF u(1)] Cons.prems(2) u(2) update_counter(2) [of P ck u r] show ?case by simp
qed simp

lemma drive_run_attempts:
  assumes "rr_backlog r = []" and "rr_seq_counter r = 0" and "rr_last_attempt_log_len r = 0"
    and "rr_seq_counter (drive_run P ck us fin r) \<le> int BACKLOG_MAXLEN"
  shows "shown_attempts (drive_run P ck us fin r) = map (sent P) (attempts_from 0 us)"
proof -
  let ?r0 = "r\<lparr>rr_status := Running\<rparr>" and ?r1 = "on_start P ck r" and ?r2 = "fold (on_update P ck) us (on_start P ck r)"
  have c0: "counted ?r0" "rr_seq_counter ?r0 < int BACKLOG_MAXLEN" "shown ?r0 = []"
    using assms(1,2) by (simp_all add: counted_def shown_def BACKLOG_MAXLEN_def)
  note s1 = counted_emit [OF c0(1,2), of P ck Run_started None "[(lit ''raw_request'', PStr (rr_raw_request r))]"]
  have c1: "counted ?r1" "shown_attempts ?r1 = []" "rr_last_attempt_log_len ?r1 = 0"
    using s1 c0(3) assms(3) by (simp_all add: on_start_def shown_attempts_def emit_event_fields)
  have e: "rr_seq_counter (drive_run P ck us fin r) = rr_seq_counter ?r2 + 1"
    using on_end_extends(1) [of fin P ck ?r2] by (simp add: extends_def drive_run_def)
  then have c2: "counted ?r2" "shown_attempts ?r2 = map (sent P) (attempts_from 0 us)"
    using updates_attempts [OF c1(1), of P ck us] c1(2,3) assms(4) by simp_all
  obtain k p st where d: "drive_run P ck us fin r = emit_event P ck k None p (?r2\<lparr>rr_status := st\<rparr>)" "k \<noteq> Attempt"
    by (cases fin) (auto simp: drive_run_def on_end_def)
  have "counted (?r2\<lparr>rr_status := st\<rparr>)" "shown (?r2\<lparr>rr_status := st\<rparr>) = shown ?r2"
    "rr_seq_counter (?r2\<lparr>rr_status := st\<rparr>) < int BACKLOG_MAXLEN"
    using c2(1) e assms(4) by (simp_all add: counted_def shown_def)
  with counted_emit(2) [of "?r2\<lparr>rr_status := st\<rparr>" P ck k None p] d c2(2) show ?thesis
    by (simp add: shown_attempts_def)
qed

section \<open>The executor's logs in a run of the graph\<close>

fun executor_log :: "pyval list \<Rightarrow> (str \<times> pyval) list \<Rightarrow> pyval list" where
  "executor_log l [] = l"
| "executor_log l (u # us) =
     (if fst u = lit ''executor'' then
        (case dget (delta_of u) ''attempt_log'' of PList m \<Rightarrow> executor_log m us | _ \<Rightarrow> executor_log l us)
      else executor_log l us)"

text \<open>Every log the executor returns continues the one before.\<close>

fun log_chain :: "pyval list \<Rightarrow> (str \<times> pyval) list \<Rightarrow> bool" where
  "log_chain l [] = True"
| "log_chain l (u # us) =
     (if fst u = lit ''executor'' then
        (case dget (delta_of u) ''attempt_log'' of PList m \<Rightarrow> prefix l m \<and> log_chain m us | _ \<Rightarrow> log_chain l us)
      else log_chain l us)"

lemma attempts_in_append: "attempts_in (xs @ ys) = attempts_in xs @ attempts_in ys"
  by (induction xs rule: attempts_in.induct) simp_all

lemma attempts_from_chain:
  "log_chain l us \<Longrightarrow> attempts_in l @ attempts_from (length l) us = attempts_in (executor_log l us)"
proof (induction us arbitrary: l)
  case (Cons u us)
  show ?case
  proof (cases "fst u = lit ''executor''")
    case True
    show ?thesis
    proof (cases "\<exists>m. dget (delta_of u) ''attempt_log'' = PList m")
      case m: True
      then obtain m where m: "dget (delta_of u) ''attempt_log'' = PList m" by blast
      with True Cons.prems have "prefix l m" "log_chain m us" by simp_all
      then obtain k where k: "m = l @ k" by (auto simp: prefix_def)
      with Cons.IH [OF \<open>log_chain m us\<close>] True m show ?thesis
        by (simp add: new_attempts_def attempts_in_append)
    next
      case False
      with True Cons show ?thesis by (cases "dget (delta_of u) ''attempt_log''") (simp_all add: new_attempts_def)
    qed
  next
    case False
    with Cons show ?thesis by (simp add: new_attempts_def)
  qed
qed simp

lemma node_label_executor: "node_label n = lit ''executor'' \<longleftrightarrow> n = Executor"
  by (cases n) (simp_all add: lit_def)

text \<open>
  While a ticket is worked on, the log in the state continues the executor's last; once the log has
  been folded into the ledger the executor does not run again.
\<close>

definition log_state :: "node_name \<Rightarrow> pyval list \<Rightarrow> agent_state \<Rightarrow> bool" where
  "log_state n l s \<longleftrightarrow> n = Advance \<or> n = Dispatch \<and> dispatch_router s = None \<or> prefix l (map PStr (log_of s))"

lemma executor_delta:
  assumes "executor_node E s w = (Inr d, w')"
  obtains new where "dget (delta_dict d) ''attempt_log'' = PList (map PStr (log_of s @ new))"
    and "log_of (merge s d) = log_of s @ new" and "d \<noteq> []"
  using assms by (cases rule: executor_node_cases) (auto simp: dget_def delta_dict_def log_of_def)

lemma log_state_step:
  assumes r: "node_fun E n s w = (Inr d, w')" and inv: "graph_inv E s0 n s" and l: "log_state n l s"
    and nx: "next_node n (merge s d) = Some m" and "n \<noteq> Executor"
  shows "log_state m l (merge s d)"
proof (cases n)
  case Analyzer
  with r have "analyzer_node E s w = (Inr d, w')" by simp
  then show ?thesis by (cases rule: analyzer_node_cases) (use l Analyzer nx in \<open>auto simp: log_state_def log_of_def\<close>)
next
  case Architect
  with r have "architect_node E s w = (Inr d, w')" by simp
  then show ?thesis by (cases rule: architect_node_cases) (use l Architect nx in \<open>auto simp: log_state_def log_of_def\<close>)
next
  case Dispatch
  with r l nx show ?thesis by (auto simp: log_state_def dispatch_node_def)
next
  case Validator
  with r have "validator_node E s w = (Inr d, w')" by simp
  then show ?thesis by (cases rule: validator_node_cases) (use l Validator nx in \<open>auto simp: log_state_def log_of_def\<close>)
next
  case Oversight_git
  with r have "oversight_git_node E s w = (Inr d, w')" by simp
  then show ?thesis
    by (cases rule: oversight_node_deltas) (use l Oversight_git nx in \<open>auto simp: log_state_def log_of_def is_strike_def git_strike_def is_done_def intro: prefix_prefix\<close>)
next
  case Escalate
  with nx show ?thesis by (simp add: log_state_def)
next
  case Advance
  with r inv have "closed_with E s0 (merge s d)" by (auto intro: inv_advance)
  then have "dispatch_router (merge s d) = None" by (auto simp: closed_with_def intro: settled_ends)
  with Advance nx show ?thesis by (simp add: log_state_def)
qed (use assms(5) in simp)

lemma run_log_chain:
  assumes "run_from E k n s w = (us, out, s', w')" and "graph_inv E s0 n s" and "log_state n l s"
  shows "log_chain l (map stream_update us)"
  using assms
proof (induction k arbitrary: n s w us l)
  case (Suc k)
  show ?case
  proof (cases "node_fun E n s w")
    case (Pair r w1)
    show ?thesis
    proof (cases r)
      case (Inl e)
      with Suc.prems(1) Pair show ?thesis by simp
    next
      case (Inr d)
      let ?s = "merge s d"
      note inv = graph_inv_step [OF Pair [unfolded Inr] Suc.prems(2)]
      obtain vs where us: "us = (n, d) # vs"
        and vs: "\<And>m. next_node n ?s = Some m \<Longrightarrow> run_from E k m ?s w1 = (vs, out, s', w')"
        and none: "next_node n ?s = None \<Longrightarrow> vs = []"
        using Suc.prems(1) Pair Inr by (auto split: option.splits prod.splits)
      show ?thesis
      proof (cases "n = Executor")
        case True
        with Pair Inr have x: "executor_node E s w = (Inr d, w1)" by simp
        then obtain new where a: "dget (delta_dict d) ''attempt_log'' = PList (map PStr (log_of s @ new))"
          "log_of ?s = log_of s @ new" "d \<noteq> []" by (rule executor_delta)
        have p: "prefix l (map PStr (log_of s @ new))"
          using Suc.prems(3) True by (auto simp: log_state_def intro: prefix_prefix)
        have nx: "next_node n ?s = Some Validator" using True by simp
        have "graph_inv E s0 Validator ?s" using inv nx by simp
        moreover have "log_state Validator (map PStr (log_of s @ new)) ?s" by (simp add: log_state_def a(2))
        ultimately have "log_chain (map PStr (log_of s @ new)) (map stream_update vs)"
          using Suc.IH [OF vs [OF nx]] by blast
        with us True a p show ?thesis by (simp add: stream_update_def [of "(Executor, d)"] delta_of_def)
      next
        case False
        have "log_chain l (map stream_update vs)"
        proof (cases "next_node n ?s")
          case None
          with none show ?thesis by simp
        next
          case (Some m)
          with inv have "graph_inv E s0 m ?s" by simp
          from Suc.IH [OF vs [OF Some] this log_state_step [OF Pair [unfolded Inr] Suc.prems(2,3) Some False]]
          show ?thesis .
        qed
        with us False node_label_executor [of n] show ?thesis by (simp add: stream_update_def [of "(n, d)"])
      qed
    qed
  qed
qed simp

section \<open>Properties\<close>

text \<open>
  C30: the incremental extraction shows what a reading of the whole log would. For a run of the graph from
  a fresh state, whatever sandbox and model do, the payloads of the \<open>attempt\<close> events of its record are,
  in order, those of the fast check lines of the executor's last log: each is shown once, none is
  lost, however the log grew over retries, failed validations and failed commits. (Up to 2000 events,
  the size of the backlog.)
\<close>

theorem attempt_events_exact:
  assumes "run_graph E k s w = (us, out, s', w')" and "fresh s"
    and "rr_backlog r = []" and "rr_seq_counter r = 0" and "rr_last_attempt_log_len r = 0"
    and "rr_seq_counter (drive_run P clock (map stream_update us) fin r) \<le> 2000"
  shows "map ev_payload (filter (\<lambda>e. ev_kind e = Attempt) (rr_backlog (drive_run P clock (map stream_update us) fin r)))
    = map (sent P) (attempts_in (executor_log [] (map stream_update us)))"
proof -
  have "graph_inv E s entry_point s" using assms(2) by (simp add: entry_point_def untouched_def fresh_def)
  then have "log_chain [] (map stream_update us)"
    using assms(1) by (intro run_log_chain [of E k entry_point s w us out s' w' s]) (simp_all add: run_graph_def log_state_def)
  then have "attempts_from 0 (map stream_update us) = attempts_in (executor_log [] (map stream_update us))"
    using attempts_from_chain [of "[]" "map stream_update us"] by simp
  moreover have "shown_attempts (drive_run P clock (map stream_update us) fin r) = map (sent P) (attempts_from 0 (map stream_update us))"
    using assms(6) by (intro drive_run_attempts assms(3-5)) (simp add: BACKLOG_MAXLEN_def)
  ultimately show ?thesis by (simp add: shown_attempts_def shown_def filter_map comp_def)
qed

text \<open>
  The witness is the run with the scripted sandbox that commits, cut after the executor's step: the one
  line its log has is the one attempt shown.
\<close>

lemma demo_exec_log:
  "\<exists>l. length l \<le> 2 \<and> node_fun (scripted_env ''ok'') Executor demo_state commit_world
     = (Inr [Set_attempt_log l, Set_ticket_status LOCAL_PASS, Set_strike_count 1, Set_validation_diagnosis None],
        commit_world\<lparr>scr_commands := map PStr FAST_CHECK_ACTIONS\<rparr>)"
  by (simp add: executor_node_def executor_loop.simps run_agentic_loop_def run_fast_checks_def FAST_CHECK_ACTIONS_def
        MAX_STRIKES_def Let_def demo_reads scripted_action commit_world_def scripted_world_def scripted_env_def completing_llm_def
        scripted_client_def MAX_TOOL_CALLS_def eval_nat_numeral prog_simps split_beta lit_def)

lemma demo_exec_run:
  "\<exists>l s' w'. length l \<le> 2 \<and> run_graph (scripted_env ''ok'') 4 demo_state commit_world
     = ([(Analyzer, [Set_active_ticket demo_ticket]), (Architect, []), (Dispatch, []),
         (Executor, [Set_attempt_log l, Set_ticket_status LOCAL_PASS, Set_strike_count 1, Set_validation_diagnosis None])],
        Out_of_steps, s', w')"
proof -
  obtain l where l: "length l \<le> 2" and x: "executor_node (scripted_env ''ok'') demo_state commit_world
     = (Inr [Set_attempt_log l, Set_ticket_status LOCAL_PASS, Set_strike_count 1, Set_validation_diagnosis None],
        commit_world\<lparr>scr_commands := map PStr FAST_CHECK_ACTIONS\<rparr>)" using demo_exec_log by auto
  have a: "analyzer_node (scripted_env ''ok'') demo_state commit_world = (Inr [Set_active_ticket demo_ticket], commit_world)"
    "architect_node (scripted_env ''ok'') demo_state commit_world = (Inr [], commit_world)"
    using demo_steps(1,3) by simp_all
  have d: "dispatch_router demo_state = Some Executor" using demo_steps(4) by simp
  show ?thesis
    using l by (intro exI [of _ l]) (simp add: run_graph_def entry_point_def eval_nat_numeral a demo_steps(2) dispatch_node_def d x del: merge_Cons)
qed

theorem attempt_events_exact_witness:
  "\<exists>us s' w'. run_graph (scripted_env ''ok'') 4 demo_state commit_world = (us, Out_of_steps, s', w') \<and> fst (last us) = Executor
     \<and> map ev_payload (filter (\<lambda>e. ev_kind e = Attempt)
           (rr_backlog (drive_run (\<lambda>_. True) (\<lambda>_. []) (map stream_update us) (stream_end Out_of_steps s') (new_record [] [] []))))
         = map (sent (\<lambda>_. True)) (attempts_in (executor_log [] (map stream_update us)))"
proof -
  obtain l s' w' where l: "length l \<le> 2" and r: "run_graph (scripted_env ''ok'') 4 demo_state commit_world
     = ([(Analyzer, [Set_active_ticket demo_ticket]), (Architect, []), (Dispatch, []),
         (Executor, [Set_attempt_log l, Set_ticket_status LOCAL_PASS, Set_strike_count 1, Set_validation_diagnosis None])],
        Out_of_steps, s', w')" (is "_ = (?us, _)") using demo_exec_run by blast
  let ?r = "new_record [] [] []"
  have f: "fresh demo_state"
    by (simp add: fresh_def demo_state_def empty_state_def validated_def strikes_def escalations_def)
  have z: "rr_backlog ?r = []" "rr_seq_counter ?r = 0" "rr_last_attempt_log_len ?r = 0" by (simp_all add: new_record_def)
  have "attempts_from 0 (map stream_update ?us) = attempts_in (map PStr l)"
    by (simp add: stream_update_def new_attempts_def delta_of_def delta_dict_def lit_def dget_def)
  with attempts_in_length [of "map PStr l"] l have "length (attempts_from 0 (map stream_update ?us)) \<le> 2" by simp
  with drive_run_counter [of "\<lambda>_. True" "\<lambda>_. []" "map stream_update ?us" "stream_end Out_of_steps s'" ?r] z
  have c: "rr_seq_counter (drive_run (\<lambda>_. True) (\<lambda>_. []) (map stream_update ?us) (stream_end Out_of_steps s') ?r) \<le> 2000" by simp
  from attempt_events_exact [OF r f z c] r show ?thesis by (intro exI [of _ ?us]) simp
qed

end
