(* ===== verification/Verify_UI.thy ===== *)
theory Verify_UI
  imports Server_App Json_Roundtrip
begin

text \<open>
  \<open>scripts/verify_ui_concurrency.py\<close> and \<open>scripts/verify_ui_reconnect.py\<close>: what the two scripts check of
  the answers of a live server, as programs over those answers, and for which runs of the server the
  checks pass. \<open>Verify_UI_Server\<close> has the scripts around these checks.
\<close>

section \<open>verify_ui_concurrency.py\<close>

fun reply_status :: "reply \<Rightarrow> int" where
  "reply_status (Reply code body) = code"

fun reply_json :: "reply \<Rightarrow> dict" where
  "reply_json (Reply code (PDict d)) = d"
| "reply_json (Reply code body) = []"

definition concurrency_check :: "reply \<Rightarrow> reply \<Rightarrow> ('w, unit) prog" where
  "concurrency_check resp_a resp_b =
     bnd (py_assert (sort [reply_status resp_a, reply_status resp_b] = [200, 409])
            ''expected exactly one 200 and one 409'') (\<lambda>_.
       let (accepted, rejected) = (if reply_status resp_a = 200 then (resp_a, resp_b) else (resp_b, resp_a))
       in bnd (of_result (ditem (reply_json accepted) ''run_id'')) (\<lambda>accepted_run_id.
          bnd (py_assert (dget (reply_json rejected) ''run_id'' = accepted_run_id)
                 ''expected 409's run_id to name the active run'') (\<lambda>_.
            py_assert (\<exists>v. map_of (reply_json rejected) (lit ''detail'') = Some v) '''')))"

definition passes :: "(unit, unit) prog \<Rightarrow> bool" where
  "passes m \<longleftrightarrow> m () = (Inr (), ())"

lemma two_admitted: "\<not> passes (concurrency_check (Reply 200 a) (Reply 200 b))"
  by (simp add: passes_def concurrency_check_def py_assert_app bnd_app)

lemma one_refused:
  "passes (concurrency_check (Reply 200 (PDict [(lit ''run_id'', PStr i)]))
     (Reply 409 (PDict [(lit ''detail'', d), (lit ''run_id'', PStr j)]))) \<longleftrightarrow> i = j"
  "passes (concurrency_check (Reply 409 (PDict [(lit ''detail'', d), (lit ''run_id'', PStr j)]))
     (Reply 200 (PDict [(lit ''run_id'', PStr i)]))) \<longleftrightarrow> i = j"
  by (auto simp: passes_def concurrency_check_def py_assert_app bnd_app ditem_def dget_def lit_def)

text \<open>The second of two requests decides: it must find the slot still taken by the first.\<close>

lemma second_request_decides:
  assumes "create_run now i raw g = (ra, g1)" and "rg_active g = None"
    and "create_run now' j raw' g2 = (rb, g3)"
  shows "passes (concurrency_check ra rb) \<longleftrightarrow> rg_active g2 = Some i"
    and "passes (concurrency_check rb ra) \<longleftrightarrow> rg_active g2 = Some i"
proof -
  have ra: "ra = Reply 200 (PDict [(lit ''run_id'', PStr i)])"
    using assms(1) by (cases rule: create_run_cases) (use assms(2) in simp_all)
  from assms(3) have "(passes (concurrency_check ra rb) \<longleftrightarrow> rg_active g2 = Some i)
      \<and> (passes (concurrency_check rb ra) \<longleftrightarrow> rg_active g2 = Some i)"
    by (cases rule: create_run_cases) (auto simp: ra two_admitted one_refused)
  then show "passes (concurrency_check ra rb) \<longleftrightarrow> rg_active g2 = Some i"
    and "passes (concurrency_check rb ra) \<longleftrightarrow> rg_active g2 = Some i" by simp_all
qed

text \<open>The task of an admitted run can end before any other request arrives.\<close>

lemma started_task_runs_out:
  "\<exists>g. (server_step P clock)\<^sup>*\<^sup>* \<lparr>sv_registry = g0, sv_tasks = [\<lparr>tk_run_id = i, tk_started = True, tk_updates = us, tk_end = fin\<rparr>]\<rparr>
      \<lparr>sv_registry = finish i g, sv_tasks = []\<rparr> \<and> rg_active g = rg_active g0"
proof (induction us arbitrary: g0)
  let ?t = "\<lambda>us. \<lparr>tk_run_id = i, tk_started = True, tk_updates = us, tk_end = fin\<rparr>"
  case Nil
  have "server_step P clock \<lparr>sv_registry = g0, sv_tasks = [?t []]\<rparr>
      \<lparr>sv_registry = finish i (update_record i (on_end P clock fin) g0), sv_tasks = []\<rparr>"
    using server_step.complete [of "\<lparr>sv_registry = g0, sv_tasks = [?t []]\<rparr>" "[]" "?t []" "[]" P clock]
    by (simp add: task_step_def)
  then show ?case by (intro exI [of _ "update_record i (on_end P clock fin) g0"]) auto
next
  let ?t = "\<lambda>us. \<lparr>tk_run_id = i, tk_started = True, tk_updates = us, tk_end = fin\<rparr>"
  case (Cons u us)
  have "server_step P clock \<lparr>sv_registry = g0, sv_tasks = [?t (u # us)]\<rparr>
      \<lparr>sv_registry = update_record i (on_update P clock u) g0, sv_tasks = [?t us]\<rparr>"
    using server_step.advance [of "\<lparr>sv_registry = g0, sv_tasks = [?t (u # us)]\<rparr>" "[]" "?t (u # us)" "[]" P clock]
    by (simp add: task_step_def)
  with Cons.IH [of "update_record i (on_update P clock u) g0"] show ?case
    unfolding update_record_active by (meson converse_rtranclp_into_rtranclp)
qed

lemma task_runs_out:
  "\<exists>g. (server_step P clock)\<^sup>*\<^sup>* \<lparr>sv_registry = g0, sv_tasks = [\<lparr>tk_run_id = i, tk_started = False, tk_updates = us, tk_end = fin\<rparr>]\<rparr>
      \<lparr>sv_registry = finish i g, sv_tasks = []\<rparr> \<and> rg_active g = rg_active g0"
proof -
  let ?t = "\<lambda>b. \<lparr>tk_run_id = i, tk_started = b, tk_updates = us, tk_end = fin\<rparr>"
  have "server_step P clock \<lparr>sv_registry = g0, sv_tasks = [?t False]\<rparr>
      \<lparr>sv_registry = update_record i (on_start P clock) g0, sv_tasks = [?t True]\<rparr>"
    using server_step.advance [of "\<lparr>sv_registry = g0, sv_tasks = [?t False]\<rparr>" "[]" "?t False" "[]" P clock]
    by (simp add: task_step_def)
  with started_task_runs_out [of P clock "update_record i (on_start P clock) g0" i us fin] show ?thesis
    unfolding update_record_active by (meson converse_rtranclp_into_rtranclp)
qed

text \<open>
  C28: what the concurrency script checks depends on how fast the first run ends. Let the idle server
  admit a run and do anything before a second request is handled: the script passes, in whichever
  order it has the two answers, exactly when the slot then still belongs to the first run; and
  whatever the run does, there is an execution in which it has ended by then, both requests are
  answered with 200, and the script fails.
\<close>

theorem concurrent_requests_race:
  assumes "rg_active g = None" and "create_run now i raw g = (ra, g1)"
    and "s1 = \<lparr>sv_registry = g1, sv_tasks = [\<lparr>tk_run_id = i, tk_started = False, tk_updates = us, tk_end = fin\<rparr>]\<rparr>"
  shows "(\<forall>s2 rb g2. (server_step P clock)\<^sup>*\<^sup>* s1 s2 \<longrightarrow> create_run now' j raw' (sv_registry s2) = (rb, g2) \<longrightarrow>
        (passes (concurrency_check ra rb) \<longleftrightarrow> rg_active (sv_registry s2) = Some i)
        \<and> (passes (concurrency_check rb ra) \<longleftrightarrow> rg_active (sv_registry s2) = Some i))
    \<and> (\<exists>s2 rb g2. (server_step P clock)\<^sup>*\<^sup>* s1 s2 \<and> create_run now' j raw' (sv_registry s2) = (rb, g2)
        \<and> reply_status ra = 200 \<and> reply_status rb = 200 \<and> \<not> passes (concurrency_check ra rb))"
proof (intro conjI allI impI)
  fix s2 rb g2
  assume "create_run now' j raw' (sv_registry s2) = (rb, g2)"
  from second_request_decides [OF assms(2,1) this]
  show "passes (concurrency_check ra rb) \<longleftrightarrow> rg_active (sv_registry s2) = Some i"
    and "passes (concurrency_check rb ra) \<longleftrightarrow> rg_active (sv_registry s2) = Some i" by simp_all
next
  obtain g' where g': "(server_step P clock)\<^sup>*\<^sup>* s1 \<lparr>sv_registry = finish i g', sv_tasks = []\<rparr>" "rg_active g' = rg_active g1"
    using task_runs_out [of P clock g1 i us fin] unfolding assms(3) by blast
  have ra: "ra = Reply 200 (PDict [(lit ''run_id'', PStr i)])" "rg_active g1 = Some i"
    using assms(2) by (cases rule: create_run_cases; use assms(1) in simp)+
  have free: "rg_active (finish i g') = None" using g'(2) ra(2) by (simp add: registry_slot.release_law)
  obtain rb g2 where rb: "create_run now' j raw' (finish i g') = (rb, g2)" by fastforce
  then have "rb = Reply 200 (PDict [(lit ''run_id'', PStr j)])"
    by (cases rule: create_run_cases) (use free in simp_all)
  with g'(1) ra(1) rb two_admitted
  show "\<exists>s2 rb g2. (server_step P clock)\<^sup>*\<^sup>* s1 s2 \<and> create_run now' j raw' (sv_registry s2) = (rb, g2)
        \<and> reply_status ra = 200 \<and> reply_status rb = 200 \<and> \<not> passes (concurrency_check ra rb)"
    by (intro exI [of _ "\<lparr>sv_registry = finish i g', sv_tasks = []\<rparr>"] exI [of _ rb] exI [of _ g2]) simp
qed

theorem concurrent_requests_race_witness:
  "\<exists>(s2 :: server) rb g2. create_run [] [98] [] (sv_registry s2) = (rb, g2) \<and> reply_status rb = 200
     \<and> \<not> passes (concurrency_check (fst (create_run [] [97] [] new_registry)) rb)"
proof -
  obtain ra g1 where c: "create_run [] [97] [] new_registry = (ra, g1)" by fastforce
  have "rg_active new_registry = None" by (simp add: new_registry_def)
  from conjunct2 [OF concurrent_requests_race [OF this c refl, of "\<lambda>_. True" "\<lambda>_. []" "[]" "Inr PNone" "[]" "[98]" "[]"]]
  show ?thesis unfolding c fst_conv by (elim exE conjE) ((rule exI)+, intro conjI, assumption+)
qed

section \<open>verify_ui_reconnect.py\<close>

text \<open>
  The loop over the lines of a stream that both scripts on streams have: it keeps the parsed
  \<open>data:\<close> lines and leaves when \<open>stop\<close> holds of the list so far.
\<close>

fun read_stream :: "(dict list \<Rightarrow> bool) \<Rightarrow> dict list \<Rightarrow> str list \<Rightarrow> exc + dict list" where
  "read_stream stop batch [] = Inr batch"
| "read_stream stop batch (line # lines) =
     (if \<not> is_prefix (lit ''data:'') line then read_stream stop batch lines
      else case parse_sse_line line of
             Some (PDict envelope) \<Rightarrow>
               (if stop (batch @ [envelope]) then Inr (batch @ [envelope])
                else read_stream stop (batch @ [envelope]) lines)
           | Some v \<Rightarrow> Inl (TypeError (lit ''not a dict''))
           | None \<Rightarrow> Inl (JSONDecodeError []))"

definition three_read :: "dict list \<Rightarrow> bool" where
  "three_read batch \<longleftrightarrow> 3 \<le> length batch"

definition ends_run :: "dict \<Rightarrow> bool" where
  "ends_run envelope \<longleftrightarrow>
     dget envelope ''kind'' = PStr (lit ''run_completed'') \<or> dget envelope ''kind'' = PStr (lit ''run_failed'')"

definition run_ended :: "dict list \<Rightarrow> bool" where
  "run_ended batch \<longleftrightarrow> ends_run (last batch)"

fun seqs_of :: "dict list \<Rightarrow> exc + pyval list" where
  "seqs_of [] = Inr []"
| "seqs_of (e # es) =
     (case ditem e ''seq'' of
        Inl x \<Rightarrow> Inl x
      | Inr v \<Rightarrow> (case seqs_of es of Inl x \<Rightarrow> Inl x | Inr vs \<Rightarrow> Inr (v # vs)))"

definition reconnect_check :: "dict list \<Rightarrow> ('w, unit) prog" where
  "reconnect_check combined =
     bnd (of_result (seqs_of combined)) (\<lambda>seqs.
     bnd (py_assert (distinct seqs) ''duplicate seq across reconnect'') (\<lambda>_.
     bnd (py_assert (seqs = map (\<lambda>k. PInt (int k)) [1..<length seqs + 1]) ''gap in combined sequence'') (\<lambda>_.
       if combined = [] then raise (IndexError (lit ''list index out of range''))
       else py_assert (ends_run (last combined)) ''expected a terminal kind overall'')))"

text \<open>What a client reads of the frames a viewer was sent.\<close>

definition frames_text :: "(int \<Rightarrow> bool) \<Rightarrow> frame list \<Rightarrow> str" where
  "frames_text P fs = concat (map (frame_text P) fs)"

definition readable :: "envelope \<Rightarrow> bool" where
  \<comment> \<open>its fields survive JSON; \<open>make_envelope\<close> on a sendable payload gives such an envelope\<close>
  "readable e \<longleftrightarrow> json_exact (PDict (envelope_dict e))"

fun until_stop :: "(dict list \<Rightarrow> bool) \<Rightarrow> dict list \<Rightarrow> envelope list \<Rightarrow> dict list" where
  "until_stop stop batch [] = batch"
| "until_stop stop batch (e # es) =
     (if stop (batch @ [envelope_dict e]) then batch @ [envelope_dict e]
      else until_stop stop (batch @ [envelope_dict e]) es)"

lemma read_frame:
  assumes "readable e"
  shows "\<exists>line. py_splitlines (format_sse P e @ s) = line # [] # py_splitlines s
    \<and> is_prefix (lit ''data:'') line \<and> parse_sse_line line = Some (PDict (envelope_dict e))"
proof -
  let ?j = "json_dumps P (PDict (envelope_dict e))"
  note x = assms [unfolded readable_def]
  have a: "ascii_text ?j" by (rule json_dumps_ascii(1) [OF json_exact_floats(1) [OF x]])
  have al: "ascii_text (lit ''data: '' @ ?j)" using a by (simp add: lit_def del: json_dumps.simps)
  have "format_sse P e @ s = (lit ''data: '' @ ?j) @ 10 # 10 # s" by (simp add: format_sse_def del: json_dumps.simps)
  then have "py_splitlines (format_sse P e @ s) = (lit ''data: '' @ ?j) # py_splitlines (10 # s)"
    using splitlines_ascii [OF al, of "10 # s"] by (simp add: lit_def del: json_dumps.simps)
  moreover have "py_splitlines (10 # s) = [] # py_splitlines s" by (simp add: is_linebreak_def)
  moreover have "py_strip (32 # ?j) = ?j"
    by (rule strip_solid) (simp_all only: dict_brackets, simp_all add: is_space_def)
  then have "parse_sse_line (lit ''data: '' @ ?j) = Some (PDict (envelope_dict e))"
    using json_loads_dumps [OF x] by (simp add: parse_sse_line_def lit_def del: json_dumps.simps)
  ultimately show ?thesis by (intro exI [of _ "lit ''data: '' @ ?j"]) (simp add: lit_def del: json_dumps.simps)
qed

lemma beat_lines: "py_splitlines (HEARTBEAT_FRAME @ s) = lit '': heartbeat'' # [] # py_splitlines s"
proof -
  have a: "ascii_text (lit '': heartbeat'')" "lit '': heartbeat'' \<noteq> []" by (simp_all add: ascii_text_def lit_def)
  have "HEARTBEAT_FRAME @ s = lit '': heartbeat'' @ 10 # 10 # s" by (simp add: HEARTBEAT_FRAME_def)
  then have "py_splitlines (HEARTBEAT_FRAME @ s) = lit '': heartbeat'' # py_splitlines (10 # s)"
    by (simp only: splitlines_ascii [OF a])
  then show ?thesis by (simp add: is_linebreak_def)
qed

lemma read_frames:
  assumes "\<forall>e \<in> set (data_of fs). readable e"
  shows "read_stream stop batch (py_splitlines (frames_text P fs)) = Inr (until_stop stop batch (data_of fs))"
  using assms
proof (induction fs arbitrary: batch)
  case Nil
  then show ?case by (simp add: frames_text_def)
next
  case (Cons f fs)
  show ?case
  proof (cases f)
    case (Data e)
    with Cons.prems have "readable e" by simp
    from read_frame [OF this, of P "frames_text P fs"] obtain line
      where l: "py_splitlines (format_sse P e @ frames_text P fs) = line # [] # py_splitlines (frames_text P fs)"
        "is_prefix (lit ''data:'') line" "parse_sse_line line = Some (PDict (envelope_dict e))" by blast
    have n: "\<not> is_prefix (lit ''data:'') []" by (simp add: lit_def)
    from Cons.IH Cons.prems Data l n show ?thesis by (simp add: frames_text_def)
  next
    case Beat
    have n: "\<not> is_prefix (lit ''data:'') []" "\<not> is_prefix (lit ''data:'') (lit '': heartbeat'')" by (simp_all add: lit_def)
    from Cons.IH Cons.prems Beat n beat_lines show ?thesis by (simp add: frames_text_def)
  qed
qed

section \<open>Sequence numbers of two connections\<close>

lemma take_upto: "take k [a..b] = [a..min b (a + int k - 1)]"
proof (induction k arbitrary: a)
  case (Suc k)
  show ?case
  proof (cases "a \<le> b")
    case True
    with Suc.IH [of "a + 1"] upto_rec1 [of a b] upto_rec1 [of a "min b (a + int (Suc k) - 1)"]
    show ?thesis by (simp add: algebra_simps)
  qed simp
qed simp

lemma filter_upto: "filter (\<lambda>s. lo < s \<and> s \<le> hi) [1..n :: int] = [max 1 (lo + 1)..min hi n]"
  by (rule sorted_distinct_set_unique) (auto simp: sorted_filter [where f = id, simplified])

lemma map_int_upt: "map int [a..<b] = [int a..int b - 1]"
proof (induction b)
  case (Suc b)
  with upto_rec2 [of "int a" "int b"] show ?case by simp
qed simp

lemma backlog_from_one:
  assumes "seqs_ok r" and "rr_seq_counter r \<le> int BACKLOG_MAXLEN"
  shows "map ev_seq (rr_backlog r) = [1..rr_seq_counter r]"
proof -
  have l: "int (length (rr_backlog r)) = rr_seq_counter r" using assms by (auto simp: seqs_ok_def)
  have "map ev_seq (rr_backlog r) = map (\<lambda>k. int k + 1) [0..<length (rr_backlog r)]"
    using assms(1) l by (simp add: seqs_ok_def)
  also have "\<dots> = map int [1..<Suc (length (rr_backlog r))]"
    by (simp add: map_Suc_upt [symmetric] comp_def del: upt_Suc)
  finally show ?thesis unfolding map_int_upt using l by simp
qed

lemma between_seqs:
  assumes "seqs_ok r" and "rr_seq_counter r \<le> int BACKLOG_MAXLEN" and "0 \<le> lo"
  shows "map ev_seq (between lo hi r) = [lo + 1..min hi (rr_seq_counter r)]"
proof -
  have "map ev_seq (between lo hi r) = filter (\<lambda>s. lo < s \<and> s \<le> hi) (map ev_seq (rr_backlog r))"
    by (simp add: between_def filter_map comp_def)
  with backlog_from_one [OF assms(1,2)] filter_upto assms(3) show ?thesis by (simp add: max_def)
qed

lemma read_three: "length batch < 3 \<Longrightarrow> until_stop three_read batch es = batch @ map envelope_dict (take (3 - length batch) es)"
proof (induction es arbitrary: batch)
  case (Cons e es)
  show ?case
  proof (cases "length batch = 2")
    case True
    then show ?thesis by (simp add: three_read_def)
  next
    case False
    with Cons.prems have b: "length batch < 2" by linarith
    then obtain k where "3 - length batch = Suc k" "k = 3 - length (batch @ [envelope_dict e])" by force
    with b Cons.IH [of "batch @ [envelope_dict e]"] show ?thesis by (simp add: three_read_def)
  qed
qed simp

lemma ends_run_dict [simp]: "ends_run (envelope_dict e) \<longleftrightarrow> is_terminal e"
  by (cases "ev_kind e") (auto simp: ends_run_def envelope_dict_def dget_def is_terminal_def lit_def)

lemma read_to_end:
  assumes "list_ex is_terminal es"
  shows "\<exists>k. 0 < k \<and> k \<le> length es \<and> is_terminal (es ! (k - 1))
    \<and> until_stop run_ended batch es = batch @ map envelope_dict (take k es)"
  using assms
proof (induction es arbitrary: batch)
  case (Cons e es)
  show ?case
  proof (cases "is_terminal e")
    case True
    then show ?thesis by (intro exI [of _ 1]) (simp add: run_ended_def)
  next
    case False
    with Cons.prems have "list_ex is_terminal es" by simp
    from Cons.IH [OF this, of "batch @ [envelope_dict e]"] obtain k where
      "0 < k" "k \<le> length es" "is_terminal (es ! (k - 1))"
      "until_stop run_ended (batch @ [envelope_dict e]) es = (batch @ [envelope_dict e]) @ map envelope_dict (take k es)" by blast
    moreover have "\<not> run_ended (batch @ [envelope_dict e])" using False by (simp add: run_ended_def)
    ultimately show ?thesis by (intro exI [of _ "Suc k"]) (simp add: nth_Cons')
  qed
qed simp

lemma seqs_of_envelopes: "seqs_of (map envelope_dict es) = Inr (map (PInt \<circ> ev_seq) es)"
  by (induction es) (simp_all add: ditem_def envelope_dict_def)

lemma consecutive_check:
  assumes "map ev_seq es = [1..n]" and "es \<noteq> []" and "is_terminal (last es)"
  shows "reconnect_check (map envelope_dict es) w = (Inr (), w)"
proof -
  have l: "length es = nat n" using arg_cong [OF assms(1), of length] by simp
  have m: "map (PInt \<circ> ev_seq) es = map PInt [1..n]" using assms(1) by (metis map_map)
  have "distinct (map PInt [1..n])" by (simp add: distinct_map inj_on_def)
  moreover have "[1..n] = map int [1..<nat n + 1]" unfolding map_int_upt by (cases "0 \<le> n") simp_all
  then have "map PInt [1..n] = map (\<lambda>k. PInt (int k)) [1..<nat n + 1]" by (simp add: comp_def)
  ultimately show ?thesis
    using assms(2,3) l by (simp add: reconnect_check_def seqs_of_envelopes m last_map)
qed

text \<open>What a viewer of a hub run has been sent, when the backlog has not overflowed.\<close>

lemma viewer_seqs:
  assumes "v \<in> set (hb_viewers h)" and "h = hub_run P clock acts \<lparr>hb_record = new_record now i raw, hb_viewers = []\<rparr>"
    and "rr_seq_counter (hb_record h) \<le> int BACKLOG_MAXLEN" and "0 \<le> vw_after v"
  shows "map ev_seq (data_of (vw_frames v)) = [vw_after v + 1..min (vw_last_sent v) (rr_seq_counter (hb_record h))]"
    and "set (data_of (vw_frames v)) \<subseteq> set (rr_backlog (hb_record h))"
    and "vw_phase v = Closed \<Longrightarrow> list_ex is_terminal (data_of (vw_frames v))"
proof -
  have "hub_ok h" unfolding assms(2) by (rule hub_run_ok) (simp add: hub_ok_def)
  with assms(1) have ok: "seqs_ok (hb_record h)" "viewer_ok (hb_record h) v" by (simp_all add: hub_ok_def)
  then have d: "data_of (vw_frames v) = between (vw_after v) (vw_last_sent v) (hb_record h)"
    using assms(3) by (simp add: viewer_ok_def)
  show "map ev_seq (data_of (vw_frames v)) = [vw_after v + 1..min (vw_last_sent v) (rr_seq_counter (hb_record h))]"
    unfolding d by (rule between_seqs [OF ok(1) assms(3,4)])
  show "set (data_of (vw_frames v)) \<subseteq> set (rr_backlog (hb_record h))" unfolding d by (auto simp: between_def)
  show "list_ex is_terminal (data_of (vw_frames v))" if "vw_phase v = Closed"
    using ok(2) that by (auto simp: viewer_ok_def)
qed

end
