(* ===== verification/Verify_UI_Server.thy ===== *)
theory Verify_UI_Server
  imports Verify_UI
begin

text \<open>
  \<open>main\<close> of \<open>scripts/verify_ui_concurrency.py\<close> and of \<open>scripts/verify_ui_reconnect.py\<close>: the server is
  started as a subprocess, polled until it is healthy, used, and stopped in a \<open>finally\<close> block. The
  subprocess and the HTTP client are a \<open>ui_driver\<close>. \<open>observe\<close> adds to a driver the list of what was
  asked of it, and \<open>traced\<close> is the logic in which the traces of a program are described;
  \<open>ui_server_stopped\<close> says what both scripts do to the server, whatever it answers.
\<close>

section \<open>The scripts\<close>

text \<open>
  The subprocess and the client as the scripts use them. \<open>ud_text\<close> is the text of a stream as far as
  the client reads it; the last two fields say which exceptions are \<open>httpx.TransportError\<close> and
  \<open>subprocess.TimeoutExpired\<close>.
\<close>

record 'w ui_driver =
  ud_mkdir :: "('w, unit) prog"
  ud_spawn :: "('w, unit) prog"
  ud_get :: "str \<Rightarrow> ('w, reply) prog"
  ud_post :: "dict \<Rightarrow> ('w, reply) prog"
  ud_post_both :: "dict \<Rightarrow> dict \<Rightarrow> ('w, reply \<times> reply) prog"
  ud_text :: "str \<Rightarrow> ('w, str) prog"
  ud_sleep :: "('w, unit) prog"
  ud_terminate :: "('w, unit) prog"
  ud_wait :: "('w, unit) prog"
  ud_kill :: "('w, unit) prog"
  ud_transport_error :: "exc \<Rightarrow> bool"
  ud_timeout :: "exc \<Rightarrow> bool"

definition HEALTH :: str where
  "HEALTH = lit ''/health''"

definition stop_server :: "'w ui_driver \<Rightarrow> ('w, unit) prog" where
  "stop_server D = bnd (ud_terminate D) (\<lambda>_. catch (ud_wait D) (ud_timeout D) (\<lambda>_. ud_kill D))"

fun wait_healthy :: "string \<Rightarrow> 'w ui_driver \<Rightarrow> nat \<Rightarrow> ('w, unit) prog" where
  "wait_healthy failure D 0 = raise (RuntimeError (lit failure))"
| "wait_healthy failure D (Suc n) =
     bnd (catch (bnd (ud_get D HEALTH) (\<lambda>resp. ret (reply_status resp = 200))) (ud_transport_error D) (\<lambda>_. ret False))
       (\<lambda>healthy. if healthy then ret () else bnd (ud_sleep D) (\<lambda>_. wait_healthy failure D n))"

definition with_server :: "'w ui_driver \<Rightarrow> ('w, 'a) prog \<Rightarrow> ('w, 'a) prog" where
  "with_server D session =
     bnd (ud_mkdir D) (\<lambda>_.
     bnd (ud_spawn D) (\<lambda>_.
       finally_do (bnd (wait_healthy ''server did not become healthy'' D 30) (\<lambda>_. session)) (stop_server D)))"

definition raw_request_body :: "string \<Rightarrow> dict" where
  "raw_request_body t = [(lit ''raw_request'', PStr (lit t))]"

definition concurrency_main :: "'w ui_driver \<Rightarrow> ('w, unit) prog" where
  "concurrency_main D =
     bnd (with_server D
           (ud_post_both D (raw_request_body ''Task 5.6 concurrency A'') (raw_request_body ''Task 5.6 concurrency B'')))
       (\<lambda>(resp_a, resp_b). concurrency_check resp_a resp_b)"

definition stream_path :: "(int \<Rightarrow> bool) \<Rightarrow> pyval \<Rightarrow> pyval option \<Rightarrow> str" where
  "stream_path P run_id after =
     lit ''/runs/'' @ py_str P run_id @ lit ''/stream''
       @ (case after of None \<Rightarrow> [] | Some last_seq \<Rightarrow> lit ''?after='' @ py_str P last_seq)"

definition state_path :: "(int \<Rightarrow> bool) \<Rightarrow> pyval \<Rightarrow> str" where
  "state_path P run_id = lit ''/runs/'' @ py_str P run_id @ lit ''/state''"

fun poll_state :: "'w ui_driver \<Rightarrow> str \<Rightarrow> nat \<Rightarrow> ('w, unit) prog" where
  "poll_state D path 0 = ret ()"
| "poll_state D path (Suc n) =
     bnd (ud_get D path) (\<lambda>resp.
       if reply_status resp = 200 then ret () else bnd (ud_sleep D) (\<lambda>_. poll_state D path n))"

definition read_batch ::
  "'w ui_driver \<Rightarrow> str \<Rightarrow> (dict list \<Rightarrow> bool) \<Rightarrow> ('w, dict list) prog" where
  "read_batch D path stop = bnd (ud_text D path) (\<lambda>text. of_result (read_stream stop [] (py_splitlines text)))"

definition reconnect_session :: "(int \<Rightarrow> bool) \<Rightarrow> 'w ui_driver \<Rightarrow> ('w, dict list) prog" where
  "reconnect_session P D =
     bnd (ud_post D (raw_request_body ''Task 5.5 reconnect'')) (\<lambda>resp.
     bnd (of_result (ditem (reply_json resp) ''run_id'')) (\<lambda>run_id.
     bnd (read_batch D (stream_path P run_id None) three_read) (\<lambda>first_batch.
       if first_batch = [] then raise (IndexError (lit ''list index out of range''))
       else bnd (of_result (ditem (last first_batch) ''seq'')) (\<lambda>last_seq.
            bnd (poll_state D (state_path P run_id) 20) (\<lambda>_.
            bnd (read_batch D (stream_path P run_id (Some last_seq)) run_ended) (\<lambda>second_batch.
              ret (first_batch @ second_batch)))))))"

definition reconnect_main :: "(int \<Rightarrow> bool) \<Rightarrow> 'w ui_driver \<Rightarrow> ('w, unit) prog" where
  "reconnect_main P D = bnd (with_server D (reconnect_session P D)) reconnect_check"

section \<open>What is asked of a driver\<close>

datatype ui_action =
    Made_dir
  | Spawned bool
  | Asked str "int option"
  | Posted
  | Read str
  | Slept
  | Terminated bool
  | Waited bool
  | Killed

definition watch :: "('w, 'a) prog \<Rightarrow> (exc + 'a \<Rightarrow> ui_action) \<Rightarrow> ('w \<times> ui_action list, 'a) prog" where
  "watch m act = (\<lambda>(w, tr). case m w of (r, w') \<Rightarrow> (r, (w', tr @ [act r])))"

fun succeeded :: "exc + 'a \<Rightarrow> bool" where
  "succeeded (Inl e) = False"
| "succeeded (Inr a) = True"

fun answered :: "exc + reply \<Rightarrow> int option" where
  "answered (Inl e) = None"
| "answered (Inr resp) = Some (reply_status resp)"

text \<open>A driver that notes what was asked of it, and how that went.\<close>

definition observe :: "'w ui_driver \<Rightarrow> ('w \<times> ui_action list) ui_driver" where
  "observe D =
     \<lparr>ud_mkdir = watch (ud_mkdir D) (\<lambda>_. Made_dir),
      ud_spawn = watch (ud_spawn D) (\<lambda>r. Spawned (succeeded r)),
      ud_get = (\<lambda>p. watch (ud_get D p) (\<lambda>r. Asked p (answered r))),
      ud_post = (\<lambda>b. watch (ud_post D b) (\<lambda>_. Posted)),
      ud_post_both = (\<lambda>a b. watch (ud_post_both D a b) (\<lambda>_. Posted)),
      ud_text = (\<lambda>p. watch (ud_text D p) (\<lambda>_. Read p)),
      ud_sleep = watch (ud_sleep D) (\<lambda>_. Slept),
      ud_terminate = watch (ud_terminate D) (\<lambda>r. Terminated (succeeded r)),
      ud_wait = watch (ud_wait D) (\<lambda>r. Waited (succeeded r)),
      ud_kill = watch (ud_kill D) (\<lambda>_. Killed),
      ud_transport_error = ud_transport_error D, ud_timeout = ud_timeout D\<rparr>"

text \<open>
  \<open>traced m' m A\<close>: with the observed driver, \<open>m'\<close> does what \<open>m\<close> does, and \<open>A\<close> describes the result and
  the trace it adds.
\<close>

definition traced ::
  "('w \<times> ui_action list, 'a) prog \<Rightarrow> ('w, 'a) prog \<Rightarrow> (exc + 'a \<Rightarrow> ui_action list \<Rightarrow> bool) \<Rightarrow> bool" where
  "traced m' m A \<longleftrightarrow> (\<forall>w tr. \<exists>r w' new. m w = (r, w') \<and> m' (w, tr) = (r, (w', tr @ new)) \<and> A r new)"

lemma tracedE:
  assumes "traced m' m A"
  obtains r w' new where "m w = (r, w')" and "m' (w, tr) = (r, (w', tr @ new))" and "A r new"
  using assms unfolding traced_def by blast

lemma traced_weaken: "traced m' m A \<Longrightarrow> (\<And>r new. A r new \<Longrightarrow> B r new) \<Longrightarrow> traced m' m B"
  unfolding traced_def by meson

lemma traced_watch: "traced (watch m act) m (\<lambda>r new. new = [act r])"
  unfolding traced_def watch_def by (auto split: prod.split)

lemma traced_of_result: "A r [] \<Longrightarrow> traced (of_result r) (of_result r) A"
  by (simp add: traced_def)

lemma traced_ret: "A (Inr a) [] \<Longrightarrow> traced (ret a) (ret a) A"
  by (simp add: traced_def)

lemma traced_raise: "A (Inl e) [] \<Longrightarrow> traced (raise e) (raise e) A"
  by (simp add: traced_def)

lemma traced_Pair [simp]: "traced (Pair r) (Pair r) A \<longleftrightarrow> A r []"
  by (simp add: traced_def)

lemma traced_bnd:
  assumes "traced m' m A" and "\<And>a. traced (f' a) (f a) (B a)"
    and "\<And>e new. A (Inl e) new \<Longrightarrow> C (Inl e) new" and "\<And>a xs r ys. A (Inr a) xs \<Longrightarrow> B a r ys \<Longrightarrow> C r (xs @ ys)"
  shows "traced (bnd m' f') (bnd m f) C"
  unfolding traced_def
proof (intro allI)
  fix w tr
  from assms(1) obtain r w1 xs where m: "m w = (r, w1)" "m' (w, tr) = (r, (w1, tr @ xs))" "A r xs" by (rule tracedE)
  show "\<exists>r w' new. bnd m f w = (r, w') \<and> bnd m' f' (w, tr) = (r, (w', tr @ new)) \<and> C r new"
  proof (cases r)
    case (Inl e)
    with m assms(3) show ?thesis by (intro exI [of _ "Inl e"] exI [of _ w1] exI [of _ xs]) simp
  next
    case (Inr a)
    from assms(2) [of a] obtain q w2 ys where f: "f a w1 = (q, w2)" "f' a (w1, tr @ xs) = (q, (w2, (tr @ xs) @ ys))" "B a q ys"
      by (rule tracedE)
    with m Inr assms(4) show ?thesis by (intro exI [of _ q] exI [of _ w2] exI [of _ "xs @ ys"]) simp
  qed
qed

lemma traced_catch:
  assumes "traced m' m A" and "\<And>e. traced (h' e) (h e) (B e)" and "\<And>a new. A (Inr a) new \<Longrightarrow> C (Inr a) new"
    and "\<And>e new. A (Inl e) new \<Longrightarrow> \<not> p e \<Longrightarrow> C (Inl e) new"
    and "\<And>e xs r ys. A (Inl e) xs \<Longrightarrow> p e \<Longrightarrow> B e r ys \<Longrightarrow> C r (xs @ ys)"
  shows "traced (catch m' p h') (catch m p h) C"
  unfolding traced_def
proof (intro allI)
  fix w tr
  from assms(1) obtain r w1 xs where m: "m w = (r, w1)" "m' (w, tr) = (r, (w1, tr @ xs))" "A r xs" by (rule tracedE)
  show "\<exists>r w' new. catch m p h w = (r, w') \<and> catch m' p h' (w, tr) = (r, (w', tr @ new)) \<and> C r new"
  proof (cases "\<exists>e. r = Inl e \<and> p e")
    case True
    then obtain e where e: "r = Inl e" "p e" by blast
    from assms(2) [of e] obtain q w2 ys where h: "h e w1 = (q, w2)" "h' e (w1, tr @ xs) = (q, (w2, (tr @ xs) @ ys))" "B e q ys"
      by (rule tracedE)
    with m e assms(5) show ?thesis by (intro exI [of _ q] exI [of _ w2] exI [of _ "xs @ ys"]) simp
  next
    case False
    with m assms(3,4) show ?thesis by (intro exI [of _ r] exI [of _ w1] exI [of _ xs]; cases r) auto
  qed
qed

lemma traced_finally:
  assumes "traced m' m A" and "traced c' c B"
    and "\<And>r xs e ys. A r xs \<Longrightarrow> B (Inl e) ys \<Longrightarrow> C (Inl e) (xs @ ys)" and "\<And>r xs u ys. A r xs \<Longrightarrow> B (Inr u) ys \<Longrightarrow> C r (xs @ ys)"
  shows "traced (finally_do m' c') (finally_do m c) C"
  unfolding traced_def
proof (intro allI)
  fix w tr
  from assms(1) obtain r w1 xs where m: "m w = (r, w1)" "m' (w, tr) = (r, (w1, tr @ xs))" "A r xs" by (rule tracedE)
  from assms(2) obtain q w2 ys where c: "c w1 = (q, w2)" "c' (w1, tr @ xs) = (q, (w2, (tr @ xs) @ ys))" "B q ys"
    by (rule tracedE)
  show "\<exists>r w' new. finally_do m c w = (r, w') \<and> finally_do m' c' (w, tr) = (r, (w', tr @ new)) \<and> C r new"
  proof (cases q)
    case (Inl e)
    with m c assms(3) show ?thesis by (intro exI [of _ "Inl e"] exI [of _ w2] exI [of _ "xs @ ys"]) (simp add: finally_do_def)
  next
    case (Inr u)
    with m c assms(4) show ?thesis by (intro exI [of _ r] exI [of _ w2] exI [of _ "xs @ ys"]) (simp add: finally_do_def)
  qed
qed

section \<open>The traces of the scripts\<close>

definition only :: "ui_action set \<Rightarrow> exc + 'a \<Rightarrow> ui_action list \<Rightarrow> bool" where
  "only S r new \<longleftrightarrow> set new \<subseteq> S"

lemma traced_only_bnd:
  "traced m' m (only S) \<Longrightarrow> (\<And>a. traced (f' a) (f a) (only S)) \<Longrightarrow> traced (bnd m' f') (bnd m f) (only S)"
  by (rule traced_bnd [where A = "only S" and B = "\<lambda>a. only S"]) (auto simp: only_def)

lemma traced_only_pure: "traced (of_result r) (of_result r) (only S)" "traced (ret a) (ret a) (only S)"
  "traced (raise e) (raise e) (only S)"
  by (simp_all add: traced_of_result traced_ret traced_raise only_def)

lemma traced_only_watch: "(\<And>r. act r \<in> S) \<Longrightarrow> traced (watch m act) m (only S)"
  by (rule traced_weaken [OF traced_watch]) (simp add: only_def)

text \<open>What the scripts ask of a healthy server.\<close>

definition requests :: "(int \<Rightarrow> bool) \<Rightarrow> ui_action set" where
  "requests P = {Posted, Slept} \<union> {Read (stream_path P i c) | i c. True} \<union> {Asked (state_path P i) c | i c. True}"

lemma traced_poll_state: "traced (poll_state (observe D) (state_path P i) n) (poll_state D (state_path P i) n) (only (requests P))"
proof (induction n)
  case 0
  show ?case by (simp add: only_def)
next
  case (Suc n)
  have "traced (ud_get (observe D) (state_path P i)) (ud_get D (state_path P i)) (only (requests P))"
    "traced (ud_sleep (observe D)) (ud_sleep D) (only (requests P))"
    by (auto simp: observe_def requests_def intro!: traced_only_watch)
  with Suc.IH show ?case by (simp add: traced_only_bnd traced_only_pure)
qed

lemma traced_session: "traced (reconnect_session P (observe D)) (reconnect_session P D) (only (requests P))"
proof -
  have post: "traced (ud_post (observe D) b) (ud_post D b) (only (requests P))" for b
    by (simp add: observe_def traced_only_watch requests_def)
  have read: "traced (read_batch (observe D) (stream_path P i c) st) (read_batch D (stream_path P i c) st) (only (requests P))" for i c st
    unfolding read_batch_def
    by (rule traced_only_bnd) (auto simp: observe_def requests_def intro!: traced_only_watch traced_only_pure)
  show ?thesis unfolding reconnect_session_def
    by (intro traced_only_bnd post read traced_poll_state traced_only_pure) (simp add: traced_only_bnd read traced_poll_state traced_only_pure)
qed

lemma traced_post_both: "traced (ud_post_both (observe D) a b) (ud_post_both D a b) (only (requests P))"
  by (simp add: observe_def traced_only_watch requests_def)

text \<open>Polling: at most \<open>n\<close> requests of the health route, and on return the last was answered with 200.\<close>

definition polls :: "nat \<Rightarrow> ui_action list \<Rightarrow> bool" where
  "polls n ps \<longleftrightarrow> set ps \<subseteq> insert Slept (range (Asked HEALTH)) \<and> length (filter (\<lambda>a. a \<noteq> Slept) ps) \<le> n"

definition healthy :: "ui_action list \<Rightarrow> bool" where
  "healthy ps \<longleftrightarrow> ps \<noteq> [] \<and> last ps = Asked HEALTH (Some 200)"

lemma traced_health:
  "traced (catch (bnd (ud_get (observe D) HEALTH) (\<lambda>resp. ret (reply_status resp = 200))) (ud_transport_error D) (\<lambda>_. ret False))
     (catch (bnd (ud_get D HEALTH) (\<lambda>resp. ret (reply_status resp = 200))) (ud_transport_error D) (\<lambda>_. ret False))
     (\<lambda>r new. \<exists>c. new = [Asked HEALTH c] \<and> (r = Inr True \<longrightarrow> c = Some 200))"
proof -
  have get: "traced (bnd (ud_get (observe D) HEALTH) (\<lambda>resp. ret (reply_status resp = 200)))
      (bnd (ud_get D HEALTH) (\<lambda>resp. ret (reply_status resp = 200)))
      (\<lambda>r new. \<exists>c. new = [Asked HEALTH c] \<and> (r = Inr True \<longrightarrow> c = Some 200))"
    by (rule traced_bnd [where A = "\<lambda>r new. new = [Asked HEALTH (answered r)]" and B = "\<lambda>a r new. r = Inr (reply_status a = 200) \<and> new = []"])
      (auto simp: observe_def traced_watch intro: traced_ret)
  show ?thesis
    by (rule traced_catch [OF get, where B = "\<lambda>e r new. r = Inr False \<and> new = []"]) (auto intro: traced_ret)
qed

lemma traced_wait_healthy:
  "traced (wait_healthy m (observe D) n) (wait_healthy m D n) (\<lambda>r new. polls n new \<and> (r = Inr () \<longrightarrow> healthy new))"
proof (induction n)
  case 0
  show ?case by (simp add: traced_raise polls_def)
next
  case (Suc n)
  have more: "traced (if ok then ret () else bnd (ud_sleep (observe D)) (\<lambda>_. wait_healthy m (observe D) n))
      (if ok then ret () else bnd (ud_sleep D) (\<lambda>_. wait_healthy m D n))
      (\<lambda>r new. if ok then r = Inr () \<and> new = [] else polls n new \<and> (r = Inr () \<longrightarrow> healthy new))" for ok
  proof (cases ok)
    case True
    then show ?thesis by (simp add: traced_ret)
  next
    case False
    have "traced (bnd (ud_sleep (observe D)) (\<lambda>_. wait_healthy m (observe D) n)) (bnd (ud_sleep D) (\<lambda>_. wait_healthy m D n))
        (\<lambda>r new. polls n new \<and> (r = Inr () \<longrightarrow> healthy new))"
      by (rule traced_bnd [OF _ Suc.IH, where A = "\<lambda>r new. new = [Slept]"])
        (auto simp: observe_def traced_watch polls_def healthy_def)
    with False show ?thesis by simp
  qed
  have t: "ud_transport_error (observe D) = ud_transport_error D" by (simp add: observe_def)
  show ?case unfolding wait_healthy.simps t
    by (rule traced_bnd [OF traced_health more]) (auto simp: polls_def healthy_def split: if_splits)
qed

text \<open>Stopping: \<open>Popen.terminate\<close> does not raise and \<open>Popen.wait\<close> raises only on a timeout.\<close>

definition stoppable :: "'w ui_driver \<Rightarrow> bool" where
  "stoppable D \<longleftrightarrow> always (ud_terminate D) (\<lambda>_. True) \<and> (\<forall>w e w'. ud_wait D w = (Inl e, w') \<longrightarrow> ud_timeout D e)"

definition stop_trace :: "ui_action list \<Rightarrow> bool" where
  "stop_trace st \<longleftrightarrow> st = [Terminated True, Waited True] \<or> st = [Terminated True, Waited False, Killed]"

lemma traced_stop:
  assumes "stoppable D"
  shows "traced (stop_server (observe D)) (stop_server D) (\<lambda>r new. stop_trace new)"
proof -
  have t: "traced (ud_terminate (observe D)) (ud_terminate D) (\<lambda>r new. (\<exists>u. r = Inr u) \<and> new = [Terminated True])"
    using assms unfolding traced_def stoppable_def always_def
    by (simp add: observe_def watch_def split: prod.split) (metis Pair_inject succeeded.simps(2))
  have w: "traced (ud_wait (observe D)) (ud_wait D) (\<lambda>r new. new = [Waited (succeeded r)] \<and> (\<forall>e. r = Inl e \<longrightarrow> ud_timeout D e))"
    using assms unfolding traced_def stoppable_def by (auto simp: observe_def watch_def split: prod.split)
  have to: "ud_timeout (observe D) = ud_timeout D" by (simp add: observe_def)
  have c: "traced (catch (ud_wait (observe D)) (ud_timeout D) (\<lambda>_. ud_kill (observe D))) (catch (ud_wait D) (ud_timeout D) (\<lambda>_. ud_kill D))
      (\<lambda>r new. new = [Waited True] \<or> new = [Waited False, Killed])"
    by (rule traced_catch [OF w, where B = "\<lambda>e r new. new = [Killed]"]) (auto simp: observe_def traced_watch)
  show ?thesis unfolding stop_server_def to
    by (rule traced_bnd [OF t c]) (auto simp: stop_trace_def)
qed

text \<open>What a running server is asked: first the polls, and requests only once it is healthy.\<close>

definition served :: "(int \<Rightarrow> bool) \<Rightarrow> ui_action list \<Rightarrow> bool" where
  "served P new \<longleftrightarrow>
     (\<exists>ps rs. new = ps @ rs \<and> polls 30 ps \<and> set rs \<subseteq> requests P \<and> (rs \<noteq> [] \<longrightarrow> healthy ps))"

definition server_trace :: "(int \<Rightarrow> bool) \<Rightarrow> ui_action list \<Rightarrow> bool" where
  "server_trace P tr \<longleftrightarrow> tr = [Made_dir] \<or> tr = [Made_dir, Spawned False]
     \<or> (\<exists>xs st. tr = Made_dir # Spawned True # xs @ st \<and> served P xs \<and> stop_trace st)"

lemma traced_with_server:
  assumes "stoppable D" and "traced s' s (only (requests P))"
  shows "traced (with_server (observe D) s') (with_server D s) (\<lambda>r tr. server_trace P tr)"
proof -
  have "traced (bnd (wait_healthy ''server did not become healthy'' (observe D) 30) (\<lambda>_. s')) (bnd (wait_healthy ''server did not become healthy'' D 30) (\<lambda>_. s)) (\<lambda>r. served P)"
    by (rule traced_bnd [OF traced_wait_healthy assms(2)]) (force simp: only_def served_def)+
  then have fin: "traced (finally_do (bnd (wait_healthy ''server did not become healthy'' (observe D) 30) (\<lambda>_. s')) (stop_server (observe D)))
      (finally_do (bnd (wait_healthy ''server did not become healthy'' D 30) (\<lambda>_. s)) (stop_server D)) (\<lambda>r new. \<exists>xs st. new = xs @ st \<and> served P xs \<and> stop_trace st)"
    by (rule traced_finally [OF _ traced_stop [OF assms(1)]]) blast+
  have spawn: "traced (bnd (ud_spawn (observe D)) (\<lambda>_. finally_do (bnd (wait_healthy ''server did not become healthy'' (observe D) 30) (\<lambda>_. s')) (stop_server (observe D))))
      (bnd (ud_spawn D) (\<lambda>_. finally_do (bnd (wait_healthy ''server did not become healthy'' D 30) (\<lambda>_. s)) (stop_server D)))
      (\<lambda>r new. new = [Spawned False] \<or> (\<exists>xs st. new = Spawned True # xs @ st \<and> served P xs \<and> stop_trace st))"
    by (rule traced_bnd [OF _ fin, where A = "\<lambda>r new. new = [Spawned (succeeded r)]"]) (auto simp: observe_def traced_watch)
  show ?thesis unfolding with_server_def
    by (rule traced_bnd [OF _ spawn, where A = "\<lambda>r new. new = [Made_dir]"])
      (auto simp: observe_def traced_watch server_trace_def)
qed

lemma traced_assert: "traced (py_assert c t) (py_assert c t) (\<lambda>r new. new = [])"
  by (simp add: py_assert_def traced_ret traced_raise)

lemma traced_quiet_bnd:
  "traced m' m (\<lambda>r new. new = []) \<Longrightarrow> (\<And>a. traced (f' a) (f a) (\<lambda>r new. new = []))
     \<Longrightarrow> traced (bnd m' f') (bnd m f) (\<lambda>r new. new = [])"
  by (rule traced_bnd [where A = "\<lambda>r new. new = []" and B = "\<lambda>a r new. new = []"]) auto

lemma traced_checks:
  "traced (concurrency_check ra rb) (concurrency_check ra rb) (\<lambda>r new. new = [])"
  "traced (reconnect_check es) (reconnect_check es) (\<lambda>r new. new = [])"
proof -
  show "traced (concurrency_check ra rb) (concurrency_check ra rb) (\<lambda>r new. new = [])"
    unfolding concurrency_check_def Let_def split_beta by (intro traced_quiet_bnd traced_assert traced_of_result refl)
  show "traced (reconnect_check es) (reconnect_check es) (\<lambda>r new. new = [])"
    unfolding reconnect_check_def by (intro traced_quiet_bnd traced_assert traced_of_result refl) (simp add: traced_assert traced_raise)
qed

lemma traced_main:
  assumes "traced s' s (\<lambda>r tr. server_trace P tr)" and "\<And>a. traced (f' a) (f a) (\<lambda>r new. new = [])"
  shows "traced (bnd s' f') (bnd s f) (\<lambda>r tr. server_trace P tr)"
  by (rule traced_bnd [OF assms]) auto

section \<open>Reconnecting\<close>

text \<open>
  A server that gets healthy within the 30 polls, admits the run and serves its stream; every other
  operation of the driver returns.
\<close>

definition serves_run :: "(int \<Rightarrow> bool) \<Rightarrow> 'w ui_driver \<Rightarrow> str \<Rightarrow> (pyval option \<Rightarrow> str) \<Rightarrow> bool" where
  "serves_run P D i stream \<longleftrightarrow>
     always (ud_mkdir D) (\<lambda>_. True) \<and> always (ud_spawn D) (\<lambda>_. True) \<and> always (wait_healthy ''server did not become healthy'' D 30) (\<lambda>_. True)
     \<and> (\<forall>b. always (ud_post D b) (\<lambda>r. r = Reply 200 (PDict [(lit ''run_id'', PStr i)])))
     \<and> (\<forall>c. always (ud_text D (stream_path P (PStr i) c)) (\<lambda>t. t = stream c))
     \<and> always (ud_get D (state_path P (PStr i))) (\<lambda>_. True) \<and> always (ud_sleep D) (\<lambda>_. True)
     \<and> always (stop_server D) (\<lambda>_. True)"

lemma poll_state_always:
  "always (ud_get D path) (\<lambda>_. True) \<Longrightarrow> always (ud_sleep D) (\<lambda>_. True) \<Longrightarrow> always (poll_state D path n) (\<lambda>_. True)"
proof (induction n)
  case (Suc n)
  then show ?case by (auto intro!: always_bnd [where Q = "\<lambda>_. True"])
qed simp

lemma reconnect_session_reads:
  assumes "serves_run P D i stream"
    and "read_stream three_read [] (py_splitlines (stream None)) = Inr first" and "first \<noteq> []"
    and "ditem (last first) ''seq'' = Inr n"
    and "read_stream run_ended [] (py_splitlines (stream (Some n))) = Inr second"
  shows "always (reconnect_session P D) (\<lambda>es. es = first @ second)"
proof -
  note d = assms(1) [unfolded serves_run_def]
  have read: "always (read_batch D (stream_path P (PStr i) c) st) (\<lambda>b. b = batch)"
    if "read_stream st [] (py_splitlines (stream c)) = Inr batch" for c st batch
    unfolding read_batch_def by (rule always_bnd [where Q = "\<lambda>t. t = stream c"]) (use d that in \<open>auto simp: always_def\<close>)
  show ?thesis unfolding reconnect_session_def
  proof (rule always_bnd)
    fix resp assume "resp = Reply 200 (PDict [(lit ''run_id'', PStr i)])"
    then have ri: "ditem (reply_json resp) ''run_id'' = Inr (PStr i)" by (simp add: ditem_def)
    have poll: "always (poll_state D (state_path P (PStr i)) 20) (\<lambda>_. True)" using d by (intro poll_state_always) simp_all
    have rest: "always (bnd (poll_state D (state_path P (PStr i)) 20) (\<lambda>_.
        bnd (read_batch D (stream_path P (PStr i) (Some n)) run_ended) (\<lambda>second_batch. ret (first @ second_batch)))) (\<lambda>es. es = first @ second)"
      by (rule always_bnd [OF poll always_bnd [OF read [OF assms(5)]]]) simp
    have pure: "bnd (of_result (Inr x)) f = f x" for x and f :: "_ \<Rightarrow> ('a, dict list) prog" by (simp add: fun_eq_iff)
    show "always (bnd (of_result (ditem (reply_json resp) ''run_id'')) (\<lambda>run_id.
        bnd (read_batch D (stream_path P run_id None) three_read) (\<lambda>first_batch.
          if first_batch = [] then raise (IndexError (lit ''list index out of range''))
          else bnd (of_result (ditem (last first_batch) ''seq'')) (\<lambda>last_seq.
            bnd (poll_state D (state_path P run_id) 20) (\<lambda>_.
            bnd (read_batch D (stream_path P run_id (Some last_seq)) run_ended) (\<lambda>second_batch.
              ret (first_batch @ second_batch))))))) (\<lambda>es. es = first @ second)"
      unfolding ri pure
      by (rule always_bnd [OF read [OF assms(2)]]) (use assms(3,4) rest in \<open>simp add: pure\<close>)
  qed (use d in blast)
qed

lemma with_server_always:
  assumes "serves_run P D i stream" and "always s Q"
  shows "always (with_server D s) Q"
proof -
  note d = assms(1) [unfolded serves_run_def]
  have "always (finally_do (bnd (wait_healthy ''server did not become healthy'' D 30) (\<lambda>_. s)) (stop_server D)) Q"
    by (rule always_finally [OF always_bnd]) (use d assms(2) in auto)
  with d show ?thesis unfolding with_server_def by (auto intro!: always_bnd [where Q = "\<lambda>_. True"])
qed

section \<open>Properties\<close>

text \<open>
  C36: both scripts leave no server behind. Whatever the server answers and whichever request fails: the
  scripts ask a started server at most 30 times for its health, send it nothing else before it has
  answered with 200, then send only their own requests; and every server they started is terminated and waited for, and killed if it does not end in time.
  (\<open>Popen.terminate\<close> does not raise, and \<open>Popen.wait\<close> only on a timeout.)
\<close>

theorem ui_server_stopped:
  assumes "stoppable D"
  shows "(\<exists>r w' tr. concurrency_main D w = (r, w') \<and> concurrency_main (observe D) (w, []) = (r, (w', tr)) \<and> server_trace P tr)
    \<and> (\<exists>r w' tr. reconnect_main P D w = (r, w') \<and> reconnect_main P (observe D) (w, []) = (r, (w', tr)) \<and> server_trace P tr)"
proof -
  have "traced (concurrency_main (observe D)) (concurrency_main D) (\<lambda>r tr. server_trace P tr)"
    unfolding concurrency_main_def
    by (rule traced_main [OF traced_with_server [OF assms traced_post_both]]) (simp add: traced_checks split_beta)
  moreover have "traced (reconnect_main P (observe D)) (reconnect_main P D) (\<lambda>r tr. server_trace P tr)"
    unfolding reconnect_main_def
    by (rule traced_main [OF traced_with_server [OF assms traced_session] traced_checks(2)])
  ultimately show ?thesis unfolding traced_def by (metis append_Nil)
qed

text \<open>
  C27: reconnecting resumes without a gap or a repetition, and the script passes. Let a run's task and its
  viewers interleave in any way, with at most 2000 events, each of which can be parsed back from its JSON
  (\<open>readable\<close>: its texts are Unicode scalars); let the server serve the text of a viewer that
  started at the beginning, of which the client reads up to three events, and then that of a viewer
  that connected with the last number read and whose stream has ended. Then the whole of
  \<open>verify_ui_reconnect.py\<close> passes on every server that gets healthy in time and admits the run: the
  client parses every line, the numbers of the two connections together are 1 to N, and the last event
  is a terminal one.
\<close>

theorem reconnect_resumes:
  assumes "h = hub_run P clock acts \<lparr>hb_record = new_record now i raw, hb_viewers = []\<rparr>"
    and "rr_seq_counter (hb_record h) \<le> 2000" and "\<forall>e \<in> set (rr_backlog (hb_record h)). readable e"
    and "v1 \<in> set (hb_viewers h)" and "vw_after v1 = 0" and "data_of (vw_frames v1) \<noteq> []"
    and "v2 \<in> set (hb_viewers h)" and "vw_after v2 = ev_seq (last (take 3 (data_of (vw_frames v1))))"
    and "vw_phase v2 = Closed"
    and "stream None = frames_text P (vw_frames v1)"
    and "stream (Some (PInt (vw_after v2))) = frames_text P (vw_frames v2)"
    and "serves_run P D i stream"
  shows "\<exists>w'. reconnect_main P D w = (Inr (), w')"
proof -
  let ?d1 = "data_of (vw_frames v1)" and ?d2 = "data_of (vw_frames v2)" and ?N = "rr_seq_counter (hb_record h)"
  have N: "?N \<le> int BACKLOG_MAXLEN" using assms(2) by (simp add: BACKLOG_MAXLEN_def)
  note q1 = viewer_seqs [OF assms(4,1) N, unfolded assms(5), simplified]
  obtain m1 where m1: "map ev_seq ?d1 = [1..m1]" using q1(1) by blast
  let ?m = "min m1 3"
  have "map ev_seq (take 3 ?d1) = [1..?m]" using m1 by (simp add: take_map [symmetric] take_upto)
  moreover have ne: "take 3 ?d1 \<noteq> []" using assms(6) by simp
  ultimately have m: "map ev_seq (take 3 ?d1) = [1..?m]" "1 \<le> ?m" "vw_after v2 = ?m"
    using last_map [OF ne, of ev_seq] assms(8) upto_rec2 [of 1 ?m] by (cases "1 \<le> ?m"; force)+
  note q2 = viewer_seqs [OF assms(7,1) N]
  have "0 \<le> vw_after v2" using m by simp
  with q2 m(3) obtain m2 where m2: "map ev_seq ?d2 = [?m + 1..m2]" by metis
  have r1: "\<forall>e \<in> set ?d1. readable e" using q1(2) assms(3) by auto
  have r2: "\<forall>e \<in> set ?d2. readable e" using q2(2) assms(3) \<open>0 \<le> vw_after v2\<close> by blast
  obtain k where k: "0 < k" "k \<le> length ?d2" "is_terminal (?d2 ! (k - 1))"
    "until_stop run_ended [] ?d2 = [] @ map envelope_dict (take k ?d2)"
    using read_to_end [OF q2(3) [OF \<open>0 \<le> vw_after v2\<close> assms(9)], of "[]"] by blast
  let ?es = "take 3 ?d1 @ take k ?d2"
  have "map ev_seq (take k ?d2) = [?m + 1..min m2 (?m + int k)]"
    unfolding take_map [symmetric] m2 take_upto by (simp add: algebra_simps)
  moreover have "?m + int k \<le> m2"
    using arg_cong [OF m2, of length] k(1,2) by simp
  ultimately have es: "map ev_seq ?es = [1..?m + int k]"
    using m(1,2) upto_split1 [of 1 ?m "?m + int k"] upto_split2 [of 1 ?m "?m + int k"] by (simp add: min_def)
  have "take k ?d2 \<noteq> []" using k(1,2) by auto
  then have la: "last ?es = ?d2 ! (k - 1)"
    using k(1,2) last_conv_nth [of "take k ?d2"] by (simp only: last_appendR) (simp add: min_def)
  have "read_stream three_read [] (py_splitlines (stream None)) = Inr (map envelope_dict (take 3 ?d1))"
    using read_frames [OF r1] read_three [of "[]" ?d1] assms(10) by simp
  moreover have "ditem (last (map envelope_dict (take 3 ?d1))) ''seq'' = Inr (PInt (vw_after v2))"
    using ne assms(8) by (simp add: last_map ditem_def envelope_dict_def)
  moreover have "read_stream run_ended [] (py_splitlines (stream (Some (PInt (vw_after v2))))) = Inr (map envelope_dict (take k ?d2))"
    using read_frames [OF r2] k(4) assms(11) by simp
  ultimately have "always (reconnect_session P D) (\<lambda>es. es = map envelope_dict (take 3 ?d1) @ map envelope_dict (take k ?d2))"
    using ne by (intro reconnect_session_reads [OF assms(12)]) simp_all
  from with_server_always [OF assms(12) this] obtain w' where
    "with_server D (reconnect_session P D) w = (Inr (map envelope_dict (take 3 ?d1) @ map envelope_dict (take k ?d2)), w')"
    by (rule alwaysE [of _ _ w]) blast
  moreover have c: "reconnect_check (map envelope_dict ?es) w' = (Inr (), w')"
    by (rule consecutive_check [OF es]) (use k(3) ne la in simp_all)
  ultimately show ?thesis by (simp add: reconnect_main_def)
qed

definition reconnect_actions :: "hub_action list" where
  "reconnect_actions = [Connect 0, Produce Run_started None [], Produce Node_update None [], Produce Node_update None [],
     Resume 0, Resume 0, Resume 0, Connect 3, Produce Run_completed None [], Resume 1]"

definition reconnect_demo :: "hub" where
  "reconnect_demo = hub_run (\<lambda>_. True) (\<lambda>_. []) reconnect_actions \<lparr>hb_record = new_record [] [] [], hb_viewers = []\<rparr>"

lemma empty_payload: "make_envelope P t n i k nd [] = \<lparr>ev_seq = n, ev_ts = t, ev_run_id = i, ev_kind = k, ev_node = nd, ev_payload = []\<rparr>"
  by (simp add: make_envelope_def cap_payload_def Let_def MAX_PAYLOAD_BYTES_def enc1_def)

lemma reconnect_demo:
  "\<exists>r v1 v2. reconnect_demo = \<lparr>hb_record = r, hb_viewers = [v1, v2]\<rparr> \<and> rr_seq_counter r = 4
     \<and> (\<forall>e \<in> set (rr_backlog r). readable e) \<and> vw_after v1 = 0 \<and> map ev_seq (data_of (vw_frames v1)) = [1, 2, 3]
     \<and> vw_after v2 = 3 \<and> vw_phase v2 = Closed"
  by (simp add: reconnect_demo_def hub_run_def reconnect_actions_def new_record_def connect_def emit_event_def next_seq_def emit_def
      empty_payload last_n_def BACKLOG_MAXLEN_def resume_def pending_def wake_def Let_def is_terminal_def readable_def envelope_dict_def lit_def)

definition reconnect_driver :: "(pyval option \<Rightarrow> str) \<Rightarrow> unit ui_driver" where
  "reconnect_driver stream =
     \<lparr>ud_mkdir = ret (), ud_spawn = ret (), ud_get = (\<lambda>_. ret (Reply 200 (PDict []))),
      ud_post = (\<lambda>_. ret (Reply 200 (PDict [(lit ''run_id'', PStr [])]))),
      ud_post_both = (\<lambda>_ _. raise (ExternalError [])),
      ud_text = (\<lambda>p. ret (stream (if p = stream_path (\<lambda>_. True) (PStr []) None then None else Some (PInt 3)))),
      ud_sleep = ret (), ud_terminate = ret (), ud_wait = ret (), ud_kill = ret (),
      ud_transport_error = (\<lambda>_. False), ud_timeout = (\<lambda>_. False)\<rparr>"

lemma reconnect_driver_serves: "serves_run (\<lambda>_. True) (reconnect_driver stream) [] (\<lambda>c. stream (if c = None then None else Some (PInt 3)))"
proof -
  have p: "stream_path (\<lambda>_. True) (PStr []) c = stream_path (\<lambda>_. True) (PStr []) None \<longleftrightarrow> c = None" for c
    by (cases c) (simp_all add: stream_path_def lit_def)
  have h: "always (wait_healthy ''server did not become healthy'' (reconnect_driver stream) 30) (\<lambda>_. True)"
    by (simp add: always_def reconnect_driver_def eval_nat_numeral catch_def bnd_app)
  have st: "always (stop_server (reconnect_driver stream)) (\<lambda>_. True)"
    by (simp add: always_def reconnect_driver_def stop_server_def catch_def)
  show ?thesis unfolding serves_run_def using h st by (auto simp: reconnect_driver_def p)
qed

theorem reconnect_resumes_witness:
  "\<exists>stream w'. reconnect_main (\<lambda>_. True) (reconnect_driver stream) () = (Inr (), w')"
proof -
  obtain r v1 v2 where h: "reconnect_demo = \<lparr>hb_record = r, hb_viewers = [v1, v2]\<rparr>" "rr_seq_counter r = 4"
    "\<forall>e \<in> set (rr_backlog r). readable e" "vw_after v1 = 0" "map ev_seq (data_of (vw_frames v1)) = [1, 2, 3]"
    "vw_after v2 = 3" "vw_phase v2 = Closed"
    using reconnect_demo by (elim exE conjE) (erule (6) that)
  obtain e1 e2 e3 where d: "data_of (vw_frames v1) = [e1, e2, e3]" "ev_seq e3 = 3" using h(5) by auto
  let ?s = "\<lambda>a. if a = None then frames_text (\<lambda>_. True) (vw_frames v1) else frames_text (\<lambda>_. True) (vw_frames v2)"
  have e: "(\<lambda>c. ?s (if c = None then None else Some (PInt 3))) = ?s" by (rule ext) auto
  from reconnect_driver_serves [of ?s] have "serves_run (\<lambda>_. True) (reconnect_driver ?s) [] ?s" by (simp only: e)
  then have "\<exists>w'. reconnect_main (\<lambda>_. True) (reconnect_driver ?s) () = (Inr (), w')"
    by (rule reconnect_resumes [OF reconnect_demo_def, of v1 v2, rotated -1]) (unfold h(1), use h(2-) d in simp_all)
  then show ?thesis by blast
qed

text \<open>A server that never comes up and does not end in time: every request fails, and it has to be killed.\<close>

definition down_driver :: "unit ui_driver" where
  "down_driver =
     \<lparr>ud_mkdir = ret (), ud_spawn = ret (), ud_get = (\<lambda>_. raise (ExternalError (lit ''ConnectError''))),
      ud_post = (\<lambda>_. raise (ExternalError (lit ''ConnectError''))),
      ud_post_both = (\<lambda>_ _. raise (ExternalError (lit ''ConnectError''))),
      ud_text = (\<lambda>_. raise (ExternalError (lit ''ConnectError''))),
      ud_sleep = ret (), ud_terminate = ret (), ud_wait = raise (ExternalError (lit ''TimeoutExpired'')), ud_kill = ret (),
      ud_transport_error = (\<lambda>e. e = ExternalError (lit ''ConnectError'')),
      ud_timeout = (\<lambda>e. e = ExternalError (lit ''TimeoutExpired''))\<rparr>"

theorem ui_server_stopped_witness:
  "\<exists>w' tr. concurrency_main (observe down_driver) ((), []) = (Inl (RuntimeError (lit ''server did not become healthy'')), (w', tr))
     \<and> server_trace (\<lambda>_. True) tr"
proof -
  have "stoppable down_driver" by (simp add: stoppable_def down_driver_def always_def)
  note conjunct1 [OF ui_server_stopped [OF this, of "()" "\<lambda>_. True"]]
  then obtain r w' tr where r: "concurrency_main down_driver () = (r, w')"
    "concurrency_main (observe down_driver) ((), []) = (r, (w', tr))" "server_trace (\<lambda>_. True) tr" by blast
  have "fst (concurrency_main down_driver ()) = Inl (RuntimeError (lit ''server did not become healthy''))"
    by (simp add: concurrency_main_def with_server_def down_driver_def finally_do_def stop_server_def eval_nat_numeral catch_def bnd_app lit_def)
  with r show ?thesis by auto
qed

end
