(* ===== verification/Readable_Events.thy ===== *)
theory Readable_Events
  imports Verify_UI
begin

text \<open>
  When the stream of a run can be parsed. A client reads \<open>json.loads\<close> of what \<open>json.dumps\<close> wrote; the two
  agree if the texts of the run are Unicode scalars. \<open>scalar\<close> is kept by everything that builds a log line,
  and \<open>drive_run_readable\<close> lifts it to the events of a run: if the clock, the id of the run and the
  updates of its nodes are such texts, every envelope of the record is read back as it was sent.
\<close>

section \<open>Texts\<close>

definition scalar :: "str \<Rightarrow> bool" where
  "scalar s \<longleftrightarrow> (\<forall>c \<in> set s. is_scalar c)"

lemma scalar_simps [simp]: "scalar []" "scalar (c # s) \<longleftrightarrow> is_scalar c \<and> scalar s" "scalar (s @ t) \<longleftrightarrow> scalar s \<and> scalar t"
  by (auto simp: scalar_def)

lemma scalar_lit [simp]: "scalar (lit s)"
  using lit_scalar [of s] by (simp add: scalar_def)

lemma scalar_small: "0 \<le> c \<Longrightarrow> c < 55296 \<Longrightarrow> is_scalar c"
  by (simp add: is_scalar_def is_surrogate_def)

lemma scalar_int [simp]: "scalar (int_str i)"
  using int_str_ascii [of _ i] by (fastforce simp: scalar_def intro!: scalar_small)

lemma scalar_join: "scalar sep \<Longrightarrow> \<forall>x \<in> set xs. scalar x \<Longrightarrow> scalar (py_join sep xs)"
  using set_py_join [of sep xs] by (fastforce simp: scalar_def)

lemma scalar_nibble: "is_scalar (hex_nibble c n)"
proof -
  have "0 \<le> c div 16 ^ nat n mod 16" "c div 16 ^ nat n mod 16 < 16" by simp_all
  then show ?thesis unfolding hex_nibble_def Let_def by (intro scalar_small) (auto split: if_splits)
qed

lemma scalar_repr_char: "is_scalar c \<Longrightarrow> is_scalar q \<Longrightarrow> scalar (repr_char P q c)"
  by (simp add: repr_char_def scalar_nibble) (simp add: scalar_small)

lemma scalar_repr: "scalar s \<Longrightarrow> scalar (str_repr P s)"
proof -
  assume s: "scalar s"
  have q: "is_scalar (if b then 34 else 39)" for b by (simp add: scalar_small)
  have "scalar (concat (map (repr_char P q) s))" if "is_scalar q" for q
    using s by (induction s) (simp_all add: scalar_repr_char that)
  with q show ?thesis by (simp add: str_repr_def Let_def del: if_split)
qed

lemma scalar_lines:
  "scalar (output c) \<Longrightarrow> scalar (fast_check_line E k c)" "scalar summ \<Longrightarrow> scalar (summary_line E k summ)"
  by (simp_all add: fast_check_line_def summary_line_def scalar_repr)

lemma scalar_diagnosis:
  assumes "scalar out"
  shows "\<exists>diag. truncate_diagnosis out = Inr diag \<and> scalar diag"
proof -
  have "\<forall>c \<in> set out. is_scalar c" using assms by (simp add: scalar_def)
  from truncate_diagnosis_scalar [OF this] obtain j t where d: "truncate_diagnosis out = Inr (replicate j replacement @ t)"
    and t: "suffix t (py_join [10] (last_n DIAGNOSIS_MAX_LINES (py_splitlines out)))" by metis
  have "\<forall>l \<in> set (last_n DIAGNOSIS_MAX_LINES (py_splitlines out)). scalar l"
    using splitlines_scalar [OF \<open>\<forall>c \<in> set out. is_scalar c\<close> last_n_sub] by (auto simp: scalar_def)
  then have "scalar (py_join [10] (last_n DIAGNOSIS_MAX_LINES (py_splitlines out)))" by (intro scalar_join) (simp_all add: scalar_small)
  with t have "scalar t" by (auto simp: suffix_def)
  moreover have "scalar (replicate j replacement)" by (induction j) (simp_all add: replacement_def scalar_def is_scalar_def is_surrogate_def)
  ultimately show ?thesis using d by simp
qed

lemma json_text_of_scalar: "scalar s \<Longrightarrow> json_text s"
  by (simp add: scalar_def json_text_scalar)

section \<open>Envelopes\<close>

definition all_readable :: "run_record \<Rightarrow> bool" where
  "all_readable r \<longleftrightarrow> (\<forall>e \<in> set (rr_backlog r). readable e)"

lemma all_readable_cong: "rr_backlog q = rr_backlog r \<Longrightarrow> all_readable q = all_readable r"
  by (simp add: all_readable_def)

lemma emit_readable:
  assumes "all_readable r" and "\<forall>n. scalar (clock n)" and "scalar (rr_run_id r)" and "\<forall>n. nd = Some n \<longrightarrow> scalar n"
    and "sendable (PDict p)"
  shows "all_readable (emit_event P clock k nd p r)"
proof -
  have "distinct (map fst (redact_items p))" "json_exact_items (redact_items p)"
    using assms(5) redacted_exact(3) [of p] by (simp_all add: redacted_keys)
  from cap_payload_exact [OF this, of P MAX_PAYLOAD_BYTES]
  have "readable (make_envelope P (clock n) n (rr_run_id r) k nd p)" for n
    using assms(2-4) unfolding readable_def by (intro envelope_exact) (auto simp: make_envelope_def json_text_of_scalar)
  with assms(1) show ?thesis unfolding all_readable_def emit_event_fields
    by (intro ballI) (drule last_n_sub, auto)
qed

lemma emit_all_readable:
  assumes "\<forall>n. scalar (clock n)" and "scalar nd"
  shows "all_readable r \<Longrightarrow> scalar (rr_run_id r) \<Longrightarrow> \<forall>p \<in> set ps. sendable (PDict p)
    \<Longrightarrow> all_readable (emit_all P clock k nd ps r)"
  by (induction ps arbitrary: r) (use assms in \<open>simp_all add: emit_readable emit_event_fields\<close>)

lemma attempts_sendable: "sendable_list l \<Longrightarrow> \<forall>p \<in> set (attempts_in l). sendable (PDict p)"
proof (induction l rule: attempts_in.induct)
  case (2 line ls)
  have "sendable (strike_of_line line)" by (auto simp: strike_of_line_def split: list.split option.split)
  with 2 show ?case by (auto simp: lit_def)
qed simp_all

lemma sendable_drop: "sendable_list l \<Longrightarrow> sendable_list (drop n l)"
  by (induction l arbitrary: n) (auto simp: drop_Cons split: nat.split)

lemma sendable_get: "sendable_items d \<Longrightarrow> sendable (dget d k)"
  by (induction d) (auto simp: dget_def)

lemma extracted_sendable:
  assumes "sendable_items d" and "extract_attempts nd d r = (as, q)"
  shows "\<forall>p \<in> set as. sendable (PDict p)"
proof (cases "dget d ''attempt_log''")
  case (PList l)
  with sendable_get [OF assms(1), of "''attempt_log''"] have "sendable_list l" by simp
  note a = attempts_sendable [OF sendable_drop [OF this, of "rr_last_attempt_log_len r"]]
  show ?thesis
  proof (cases "nd = lit ''executor''")
    case True
    with PList assms(2) have "as = attempts_in (drop (rr_last_attempt_log_len r) l)" by (simp add: extract_attempts_def)
    with a show ?thesis by (simp only:)
  qed (use assms(2) in \<open>simp add: extract_attempts_def\<close>)
qed (use assms(2) in \<open>auto simp: extract_attempts_def split: if_splits\<close>)

lemma enum_value_sendable: "sendable v \<Longrightarrow> sendable (enum_value v)"
  by (cases v) (simp_all add: enum_value_def status_scalar)

lemma escalation_sendable:
  assumes "sendable_items d" and "extract_escalation d r = (Some p, q)"
  shows "sendable (PDict p)"
proof -
  have "sendable (dget d ''escalation_count'')" "sendable (enum_value (dget d ''run_status''))"
    using sendable_get [OF assms(1)] by (simp_all add: enum_value_sendable)
  then show ?thesis
    using assms(2) unfolding extract_escalation_def Let_def
    by (auto simp: lit_def is_scalar_def is_surrogate_def split: if_splits option.splits)
qed

section \<open>Runs\<close>

definition sendable_update :: "str \<times> pyval \<Rightarrow> bool" where
  "sendable_update u \<longleftrightarrow> scalar (fst u) \<and> sendable (snd u)"

lemma update_readable:
  assumes "all_readable r" and "scalar (rr_run_id r)" and c: "\<forall>n. scalar (clock n)" and "sendable_update u"
  shows "all_readable (on_update P clock u r)"
proof -
  obtain nd raw where u: "u = (nd, raw)" by (cases u)
  define delta where "delta = (case raw of PDict d \<Rightarrow> d | _ \<Rightarrow> [])"
  define r1 where "r1 = emit_event P clock Node_update (Some nd) delta r"
  obtain as r2 where a: "extract_attempts nd delta r1 = (as, r2)" by fastforce
  define r3 where "r3 = emit_all P clock Attempt nd as r2"
  obtain esc r4 where e: "extract_escalation delta r3 = (esc, r4)" by fastforce
  have upd: "on_update P clock u r = (case esc of None \<Rightarrow> r4 | Some p \<Rightarrow> emit_event P clock Escalation (Some nd) p r4)"
    using a e by (simp add: on_update_def u Let_def delta_def [symmetric] r1_def [symmetric] r3_def [symmetric])
  have d: "sendable (PDict delta)" "scalar nd"
    using assms(4) by (auto simp: delta_def sendable_update_def u split: pyval.split)
  have b: "rr_backlog r2 = rr_backlog r1" "rr_run_id r2 = rr_run_id r"
    using a by (auto simp: extract_attempts_def r1_def emit_event_fields split: if_splits pyval.splits)
  have "all_readable r1" unfolding r1_def by (rule emit_readable [OF assms(1) c assms(2)]) (use d in auto)
  with b have "all_readable r2" by (simp add: all_readable_def)
  then have r3: "all_readable r3" unfolding r3_def
    by (intro emit_all_readable [OF c d(2)]) (use assms(2) b d extracted_sendable [OF _ a] in simp_all)
  have i3: "rr_run_id r3 = rr_run_id r"
    using extends_emit_all [of as Attempt P clock nd r2] b by (simp add: extends_def r3_def)
  have b4: "rr_backlog r4 = rr_backlog r3" "rr_run_id r4 = rr_run_id r3"
    using extract_escalation_record [OF e] e by (auto simp: extract_escalation_def Let_def split: if_splits option.splits)
  then have r4: "all_readable r4" using r3 by (simp add: all_readable_def)
  show ?thesis
  proof (cases esc)
    case None
    with upd r4 show ?thesis by simp
  next
    case (Some p)
    have "sendable (PDict p)" by (rule escalation_sendable [OF _ e [unfolded Some]]) (use d in simp)
    with Some upd show ?thesis
      by (simp del: sendable.simps) (rule emit_readable [OF r4 c], use assms(2) b4 i3 d in auto)
  qed
qed

lemma updates_readable:
  assumes "\<forall>n. scalar (clock n)"
  shows "all_readable r \<Longrightarrow> scalar (rr_run_id r) \<Longrightarrow> \<forall>u \<in> set us. sendable_update u
    \<Longrightarrow> all_readable (fold (on_update P clock) us r)"
proof (induction us arbitrary: r)
  case (Cons u us)
  have "rr_run_id (on_update P clock u r) = rr_run_id r"
    by (rule on_update_extends [of P clock u r]) (simp add: extends_def)
  with Cons update_readable [OF Cons.prems(1,2) assms, of u P] show ?case by simp
qed simp

text \<open>A run is readable if its clock, its id and request, and what its nodes returned are such texts.\<close>

lemma drive_run_readable:
  assumes "rr_backlog r = []" and "scalar (rr_run_id r)" and "scalar (rr_raw_request r)" and c: "\<forall>n. scalar (clock n)"
    and "\<forall>u \<in> set us. sendable_update u" and "case fin of Inl e \<Rightarrow> scalar (exc_message e) | Inr v \<Rightarrow> sendable v"
  shows "all_readable (drive_run P clock us fin r)"
proof -
  let ?r1 = "on_start P clock r" and ?r2 = "fold (on_update P clock) us (on_start P clock r)"
  have "all_readable (r\<lparr>rr_status := Running\<rparr>)" using assms(1) by (simp add: all_readable_def)
  then have r1: "all_readable ?r1" unfolding on_start_def
    by (rule emit_readable [OF _ c]) (use assms(2,3) in \<open>simp_all add: scalar_def\<close>)
  have i1: "rr_run_id ?r1 = rr_run_id r" by (simp add: on_start_def emit_event_fields)
  have r2: "all_readable ?r2" using updates_readable [OF c r1, of us P] i1 assms(2,5) by simp
  obtain ks where "extends ks ?r2 ?r1" by (rule updates_extend)
  then have i2: "scalar (rr_run_id ?r2)" using i1 assms(2) by (simp add: extends_def)
  have r2': "all_readable (?r2\<lparr>rr_status := st\<rparr>)" for st using r2 by (simp add: all_readable_def)
  show ?thesis
  proof (cases fin)
    case (Inl e)
    with assms(6) show ?thesis unfolding drive_run_def on_end_def
      by simp (rule emit_readable [OF r2' c], use i2 in \<open>simp_all add: scalar_def\<close>)
  next
    case (Inr v)
    have "all_readable (emit_event P clock Run_completed None [(lit ''ticket_status'', enum_value v)] (?r2\<lparr>rr_status := st\<rparr>))" for st
      by (rule emit_readable [OF r2' c]) (use i2 assms(6) Inr enum_value_sendable [of v] in simp_all)
    with Inr show ?thesis by (simp add: drive_run_def on_end_def)
  qed
qed

lemma sendable_texts: "sendable_list (map PStr l) \<longleftrightarrow> (\<forall>x \<in> set l. scalar x)"
  by (induction l) (simp_all add: scalar_def)

end
