(* ===== verification/Watched_Runs.thy ===== *)
theory Watched_Runs
  imports Readable_Events
begin

text \<open>
  A client that follows the stream of a run while the run goes on. The task of \<open>drive_run\<close> is a list of
  transitions of the record (\<open>drive_steps\<close>); \<open>watch\<close> interleaves them with the client's generator as a
  list of ticks says: the task goes on, the client pulls a frame, the generator's wait times out.
  \<open>watched_text\<close> is the text the client has got in the end, and \<open>client_reads_run\<close> that it parses to
  the events of the run, whatever the ticks.
\<close>

section \<open>The task and the client\<close>

definition drive_steps ::
  "(int \<Rightarrow> bool) \<Rightarrow> (int \<Rightarrow> str) \<Rightarrow> (str \<times> pyval) list \<Rightarrow> exc + pyval \<Rightarrow> (run_record \<Rightarrow> run_record) list" where
  "drive_steps P clock updates fin = on_start P clock # map (on_update P clock) updates @ [on_end P clock fin]"

fun run_steps :: "(run_record \<Rightarrow> run_record) list \<Rightarrow> run_record \<Rightarrow> run_record" where
  "run_steps [] r = r"
| "run_steps (f # fs) r = run_steps fs (f r)"

datatype tick = Task | Pull | Idle

fun watch ::
  "tick list \<Rightarrow> (run_record \<Rightarrow> run_record) list \<Rightarrow> viewer \<Rightarrow> run_record \<Rightarrow> (run_record \<Rightarrow> run_record) list \<times> viewer \<times> run_record" where
  "watch [] fs v r = (fs, v, r)"
| "watch (Task # ts) [] v r = watch ts [] v r"
| "watch (Task # ts) (f # fs) v r = watch ts fs (wake v) (f r)"
| "watch (Pull # ts) fs v r = (case resume v r of (v', r') \<Rightarrow> watch ts fs v' r')"
| "watch (Idle # ts) fs v r = watch ts fs (time_out v) r"

text \<open>
  After the ticks the task runs to its end, and the client pulls until it is served no more, once more
  after a heartbeat.
\<close>

definition pull_out :: "viewer \<Rightarrow> run_record \<Rightarrow> viewer \<times> run_record" where
  "pull_out v r = resumes (Suc (length (rr_backlog r))) v r"

definition watched ::
  "tick list \<Rightarrow> (run_record \<Rightarrow> run_record) list \<Rightarrow> run_record \<Rightarrow> viewer" where
  "watched ticks fs r =
     (case watch (ticks @ replicate (length fs) Task) fs (connect 0) r of
        (_, v1, r1) \<Rightarrow> (case pull_out v1 r1 of (v2, r2) \<Rightarrow> fst (pull_out (time_out v2) r2)))"

definition watched_text :: "(int \<Rightarrow> bool) \<Rightarrow> tick list \<Rightarrow> (run_record \<Rightarrow> run_record) list \<Rightarrow> run_record \<Rightarrow> str" where
  "watched_text P ticks fs r = frames_text P (vw_frames (watched ticks fs r))"

section \<open>Steps of the task\<close>

lemma drive_run_steps: "run_steps (drive_steps P clock us fin) r = drive_run P clock us fin r"
proof -
  have "run_steps (map (on_update P clock) us @ gs) q = run_steps gs (fold (on_update P clock) us q)" for gs q
    by (induction us arbitrary: q) simp_all
  then show ?thesis by (simp add: drive_steps_def drive_run_def)
qed

inductive emitted :: "run_record \<Rightarrow> run_record \<Rightarrow> bool" for r where
  quiet: "rr_backlog q = rr_backlog r \<Longrightarrow> rr_seq_counter q = rr_seq_counter r \<Longrightarrow> rr_run_id q = rr_run_id r \<Longrightarrow> emitted r q"
| more: "emitted r q \<Longrightarrow> emitted r (emit_event P ck k nd p q)"
| rest: "emitted r q \<Longrightarrow> rr_backlog s = rr_backlog q \<Longrightarrow> rr_seq_counter s = rr_seq_counter q \<Longrightarrow> rr_run_id s = rr_run_id q
    \<Longrightarrow> emitted r s"

lemma emitted_refl: "emitted r r"
  by (simp add: quiet)

lemma viewer_ok_cong:
  "rr_backlog q = rr_backlog r \<Longrightarrow> rr_seq_counter q = rr_seq_counter r \<Longrightarrow> viewer_ok q v = viewer_ok r v"
  by (simp add: viewer_ok_def between_def)

lemma emitted_keeps: "emitted r q \<Longrightarrow> seqs_ok r \<Longrightarrow> seqs_ok q \<and> (viewer_ok r v \<longrightarrow> viewer_ok q v)"
proof (induction rule: emitted.induct)
  case (quiet q)
  then show ?case using viewer_ok_cong [of q r] by (auto intro: seqs_ok_cong)
next
  case (more q P ck k nd p)
  then show ?case by (auto intro: seqs_ok_emit emit_ok)
next
  case (rest q s)
  then show ?case using viewer_ok_cong [of s q] by (auto intro: seqs_ok_cong)
qed

lemma emitted_all: "emitted r q \<Longrightarrow> emitted r (emit_all P ck k nd ps q)"
  by (induction ps arbitrary: q) (simp_all add: emitted.more)

text \<open>A step of the task emits, and does not look at the flag the generator clears.\<close>

definition task_like :: "(run_record \<Rightarrow> run_record) \<Rightarrow> bool" where
  "task_like f \<longleftrightarrow> (\<forall>r. emitted r (f r)) \<and> (\<forall>r b. f (r\<lparr>rr_new_event := b\<rparr>) = f r)"

lemma emit_blind: "emit_event P ck k nd p (r\<lparr>rr_new_event := b\<rparr>) = emit_event P ck k nd p r"
  by (simp add: emit_event_def next_seq_def emit_def)

lemma task_like_start: "task_like (on_start P clock)"
  unfolding task_like_def on_start_def
proof (intro conjI allI)
  show "emitted r (emit_event P clock Run_started None [(lit ''raw_request'', PStr (rr_raw_request r))] (r\<lparr>rr_status := Running\<rparr>))" for r
    by (intro emitted.more emitted.quiet) simp_all
  have "r\<lparr>rr_new_event := b, rr_status := Running\<rparr> = (r\<lparr>rr_status := Running\<rparr>)\<lparr>rr_new_event := b\<rparr>" for r :: run_record and b
    by simp
  then show "emit_event P clock Run_started None [(lit ''raw_request'', PStr (rr_raw_request (r\<lparr>rr_new_event := b\<rparr>)))]
        (r\<lparr>rr_new_event := b, rr_status := Running\<rparr>)
      = emit_event P clock Run_started None [(lit ''raw_request'', PStr (rr_raw_request r))] (r\<lparr>rr_status := Running\<rparr>)" for r b
    by (simp only: emit_blind) simp
qed

lemma task_like_end: "task_like (on_end P clock fin)"
proof -
  have "emitted r (on_end P clock fin r)" for r
    by (cases fin) (auto simp: on_end_def intro!: emitted.more emitted.quiet)
  moreover have "r\<lparr>rr_new_event := b, rr_status := st\<rparr> = (r\<lparr>rr_status := st\<rparr>)\<lparr>rr_new_event := b\<rparr>" for r :: run_record and b st
    by simp
  then have "on_end P clock fin (r\<lparr>rr_new_event := b\<rparr>) = on_end P clock fin r" for r b
    unfolding on_end_def by (simp only: emit_blind split: sum.split)
  ultimately show ?thesis by (simp add: task_like_def)
qed

lemma task_like_update: "task_like (on_update P clock u)"
  unfolding task_like_def
proof (intro conjI allI)
  fix r
  obtain nd raw where u: "u = (nd, raw)" by (cases u)
  define delta where "delta = (case raw of PDict d \<Rightarrow> d | _ \<Rightarrow> [])"
  define r1 where "r1 = emit_event P clock Node_update (Some nd) delta r"
  obtain as r2 where a: "extract_attempts nd delta r1 = (as, r2)" by fastforce
  define r3 where "r3 = emit_all P clock Attempt nd as r2"
  obtain esc r4 where e: "extract_escalation delta r3 = (esc, r4)" by fastforce
  have upd: "on_update P clock u r = (case esc of None \<Rightarrow> r4 | Some p \<Rightarrow> emit_event P clock Escalation (Some nd) p r4)"
    using a e by (simp add: on_update_def u Let_def delta_def [symmetric] r1_def [symmetric] r3_def [symmetric])
  have "emitted r r1" unfolding r1_def by (rule emitted.more [OF emitted_refl])
  then have "emitted r r2"
    by (rule emitted.rest) (use a in \<open>auto simp: extract_attempts_def split: if_splits pyval.splits\<close>)
  then have "emitted r r3" unfolding r3_def by (rule emitted_all)
  then have "emitted r r4"
    by (rule emitted.rest) (use e in \<open>auto simp: extract_escalation_def Let_def split: if_splits option.splits\<close>)
  with upd show "emitted r (on_update P clock u r)" by (auto intro: emitted.more split: option.split)
  show "on_update P clock u (r\<lparr>rr_new_event := b\<rparr>) = on_update P clock u r" for b
    by (simp add: on_update_def emit_blind)
qed

lemma drive_steps_task: "\<forall>f \<in> set (drive_steps P clock us fin). task_like f"
  by (auto simp: drive_steps_def task_like_start task_like_update task_like_end)

section \<open>The interleaving\<close>

text \<open>Two records that differ at most in the flag.\<close>

definition same_run :: "run_record \<Rightarrow> run_record \<Rightarrow> bool" where
  "same_run q r \<longleftrightarrow> (\<exists>b. q = r\<lparr>rr_new_event := b\<rparr>)"

lemma same_run_refl: "same_run r r"
  unfolding same_run_def by (rule exI [of _ "rr_new_event r"]) simp

lemma same_run_trans: "same_run p q \<Longrightarrow> same_run q r \<Longrightarrow> same_run p r"
  by (auto simp: same_run_def)

lemma same_run_reads: "same_run q r \<Longrightarrow> rr_backlog q = rr_backlog r \<and> rr_seq_counter q = rr_seq_counter r"
  by (auto simp: same_run_def)

lemma run_steps_same: "\<forall>f \<in> set fs. task_like f \<Longrightarrow> same_run q r \<Longrightarrow> same_run (run_steps fs q) (run_steps fs r)"
  by (cases fs) (auto simp: task_like_def same_run_def intro: exI [of _ "rr_new_event _"] same_run_refl [unfolded same_run_def])

lemma resume_same: "same_run (snd (resume v r)) r"
  using resume_record [of v r] same_run_refl [of r] by (auto simp: same_run_def)

lemma resume_after: "vw_after (fst (resume v r)) = vw_after v"
proof -
  have "vw_after (fst (deliver es v r)) = vw_after v" for es by (cases es) simp_all
  then show ?thesis by (cases "vw_phase v") (simp_all add: resume_def)
qed

lemma watch_invariant:
  assumes "watch ts fs v r = (fs', v', r')" and "\<forall>f \<in> set fs. task_like f" and "seqs_ok r" and "viewer_ok r v"
  shows "seqs_ok r' \<and> viewer_ok r' v' \<and> vw_after v' = vw_after v \<and> same_run (run_steps fs' r') (run_steps fs r)
    \<and> length fs' \<le> length fs - length (filter (\<lambda>t. t = Task) ts)"
  using assms
proof (induction ts fs v r rule: watch.induct)
  case (1 fs v r)
  then show ?case by (simp add: same_run_refl)
next
  case (3 ts f fs v r)
  then have "emitted r (f r)" by (simp add: task_like_def)
  with emitted_keeps [OF this 3(4), of v] 3 have "seqs_ok (f r)" "viewer_ok (f r) (wake v)" by (auto intro: wake_ok)
  with 3 have "seqs_ok r' \<and> viewer_ok r' v' \<and> vw_after v' = vw_after (wake v) \<and> same_run (run_steps fs' r') (run_steps fs (f r))
    \<and> length fs' \<le> length fs - length (filter (\<lambda>t. t = Task) ts)" by simp
  then show ?case by (auto simp: wake_def split: if_splits)
next
  case (4 ts fs v r)
  obtain u q where uq: "resume v r = (u, q)" by fastforce
  have s: "same_run q r" "vw_after u = vw_after v" using resume_same [of v r] resume_after [of v r] uq by simp_all
  have "viewer_ok q u" using resume_ok [OF 4(4,5)] uq by simp
  moreover have "seqs_ok q" using 4(4) s(1) by (auto simp: same_run_def intro: seqs_ok_cong)
  ultimately have "seqs_ok r' \<and> viewer_ok r' v' \<and> vw_after v' = vw_after u \<and> same_run (run_steps fs' r') (run_steps fs q)
    \<and> length fs' \<le> length fs - length (filter (\<lambda>t. t = Task) ts)"
    using 4(1) [OF uq [symmetric]] 4(2,3) uq by simp
  with s run_steps_same [OF 4(3) s(1)] show ?case by (auto intro: same_run_trans)
next
  case (5 ts fs v r)
  then have "seqs_ok r' \<and> viewer_ok r' v' \<and> vw_after v' = vw_after (time_out v) \<and> same_run (run_steps fs' r') (run_steps fs r)
    \<and> length fs' \<le> length fs - length (filter (\<lambda>t. t = Task) ts)" by (simp add: time_out_ok)
  then show ?case by (auto simp: time_out_def split: if_splits)
qed auto

section \<open>Reading to the end\<close>

lemma resumes_add: "resumes (m + n) v r = (case resumes m v r of (v', r') \<Rightarrow> resumes n v' r')"
  by (induction m arbitrary: v r) (simp_all split: prod.splits)

lemma resumes_invariant:
  assumes "resumes n v r = (v', r')" and "seqs_ok r" and "viewer_ok r v"
  shows "seqs_ok r' \<and> viewer_ok r' v' \<and> vw_after v' = vw_after v \<and> same_run r' r"
  using assms
proof (induction n arbitrary: v r)
  case (Suc n)
  obtain u q where uq: "resume v r = (u, q)" by fastforce
  have s: "same_run q r" "vw_after u = vw_after v" using resume_same [of v r] resume_after [of v r] uq by simp_all
  have "viewer_ok q u" using resume_ok [OF Suc.prems(2,3)] uq by simp
  moreover have "seqs_ok q" using Suc.prems(2) s(1) by (auto simp: same_run_def intro: seqs_ok_cong)
  ultimately show ?case using Suc.IH [of u q] Suc.prems(1) uq s by (auto intro: same_run_trans)
qed (simp add: same_run_refl)

text \<open>After enough pulls a generator is closed or waits; it waits only for want of a terminal event.\<close>

lemma resumes_stable:
  assumes "vw_phase (fst (resumes m v r)) \<in> {Closed, Waiting}" and "m \<le> n"
  shows "resumes n v r = resumes m v r"
proof -
  obtain k where "n = m + k" using assms(2) by (metis le_Suc_ex)
  with assms(1) resumes_Closed resumes_Waiting show ?thesis by (cases "resumes m v r") (auto simp: resumes_add)
qed

lemma pull_out_settles:
  assumes "seqs_ok r" and "viewer_ok r v" and "rr_seq_counter r \<le> int BACKLOG_MAXLEN"
  shows "vw_phase (fst (pull_out v r)) \<in> {Closed, Waiting}
    \<and> (vw_phase v = Ready \<and> list_ex is_terminal (pending v r) \<longrightarrow> vw_phase (fst (pull_out v r)) = Closed)"
proof (cases "vw_phase v")
  case Ready
  have "length (pending v r) \<le> length (rr_backlog r)" by (simp add: pending_def)
  with resumes_Ready [OF Ready, of r] resumes_stable [of "Suc (length (pending v r))" v r "Suc (length (rr_backlog r))"]
  show ?thesis by (auto simp: pull_out_def simp del: resumes.simps split: if_splits)
next
  case (Sending es)
  with assms(2,3) obtain hi where "es = between (vw_last_sent v) hi r" by (auto simp: viewer_ok_def)
  then have "length es \<le> length (rr_backlog r)" by (simp add: between_def)
  with resumes_Sending [OF Sending, of r] resumes_stable [of "Suc (length es)" v r "Suc (length (rr_backlog r))"] Sending
  show ?thesis by (auto simp: pull_out_def simp del: resumes.simps split: if_splits)
qed (simp_all add: pull_out_def resumes_Closed resumes_Waiting del: resumes.simps)

lemma all_between:
  assumes "seqs_ok r" and "rr_backlog r = es @ [e]" and "ev_seq e \<le> hi"
  shows "between 0 hi r = rr_backlog r"
proof -
  have "0 < ev_seq x \<and> ev_seq x \<le> hi" if "x \<in> set (rr_backlog r)" for x
    using that backlog_seqs [OF assms(1) that] backlog_increasing [OF assms(1)] assms(2,3) by (auto simp: increasing_append)
  then show ?thesis by (simp add: between_def filter_id_conv)
qed

text \<open>A closed viewer of a run whose only terminal event is the last has been sent all of it.\<close>

lemma closed_has_all:
  assumes "seqs_ok r" and "viewer_ok r v" and "rr_seq_counter r \<le> int BACKLOG_MAXLEN" and "vw_after v = 0"
    and "rr_backlog r = es @ [e]" and "\<forall>x \<in> set es. \<not> is_terminal x" and "vw_phase v = Closed"
  shows "data_of (vw_frames v) = rr_backlog r"
proof -
  have d: "data_of (vw_frames v) = between 0 (vw_last_sent v) r" using assms(2-4) by (simp add: viewer_ok_def)
  obtain xs x where x: "data_of (vw_frames v) = xs @ [x]" "is_terminal x" using assms(2,7) by (auto simp: viewer_ok_def)
  then have "x \<in> set (between 0 (vw_last_sent v) r)" using d by simp
  then have "x \<in> set (rr_backlog r)" "ev_seq x \<le> vw_last_sent v" by (auto simp: between_def)
  with x(2) assms(5,6) have "ev_seq e \<le> vw_last_sent v" by auto
  with all_between [OF assms(1,5)] d show ?thesis by simp
qed

lemma waiting_misses_end:
  assumes "seqs_ok r" and "viewer_ok r v" and "rr_seq_counter r \<le> int BACKLOG_MAXLEN" and "vw_after v = 0"
    and "rr_backlog r = es @ [e]" and "is_terminal e" and "vw_phase v \<noteq> Closed"
  shows "list_ex is_terminal (pending v r)"
proof -
  have d: "data_of (vw_frames v) = between 0 (vw_last_sent v) r" using assms(2-4) by (simp add: viewer_ok_def)
  have "\<not> ev_seq e \<le> vw_last_sent v"
  proof
    assume "ev_seq e \<le> vw_last_sent v"
    with all_between [OF assms(1,5)] d assms(5) have "data_of (vw_frames v) = es @ [e]" by simp
    with assms(2,6,7) show False by (auto simp: viewer_ok_def)
  qed
  with assms(5,6) show ?thesis by (auto simp: pending_def list_ex_iff)
qed

lemma watched_has_all:
  assumes "seqs_ok r" and "\<forall>f \<in> set fs. task_like f" and "rr_seq_counter (run_steps fs r) \<le> int BACKLOG_MAXLEN"
    and "rr_backlog (run_steps fs r) = es @ [e]" and "\<forall>x \<in> set es. \<not> is_terminal x" and "is_terminal e"
  shows "data_of (vw_frames (watched ticks fs r)) = rr_backlog (run_steps fs r)"
proof -
  obtain fs1 v1 r1 where w: "watch (ticks @ replicate (length fs) Task) fs (connect 0) r = (fs1, v1, r1)" by (metis prod_cases3)
  from watch_invariant [OF w assms(2,1) connect_ok] have "fs1 = []" and i1: "seqs_ok r1" "viewer_ok r1 v1" "vw_after v1 = 0"
    and "same_run (run_steps fs1 r1) (run_steps fs r)" by (auto simp: connect_def)
  then have s1: "rr_backlog r1 = es @ [e]" "rr_seq_counter r1 \<le> int BACKLOG_MAXLEN"
    using same_run_reads [of r1 "run_steps fs r"] assms(3,4) by simp_all
  obtain v2 r2 where p: "pull_out v1 r1 = (v2, r2)" by fastforce
  from resumes_invariant [OF p [unfolded pull_out_def] i1(1,2)] have i2: "seqs_ok r2" "viewer_ok r2 v2" "vw_after v2 = 0"
    and "same_run r2 r1" using i1(3) by auto
  then have s2: "rr_backlog r2 = es @ [e]" "rr_seq_counter r2 \<le> int BACKLOG_MAXLEN"
    using same_run_reads [of r2 r1] s1 by simp_all
  let ?u = "time_out v2"
  have iu: "viewer_ok r2 ?u" "vw_after ?u = 0" using i2(2,3) by (simp_all add: time_out_ok) (simp add: time_out_def)
  obtain v3 r3 where q: "pull_out ?u r2 = (v3, r3)" by fastforce
  from resumes_invariant [OF q [unfolded pull_out_def] i2(1) iu(1)] have i3: "seqs_ok r3" "viewer_ok r3 v3" "vw_after v3 = 0"
    and "same_run r3 r2" using iu(2) by auto
  then have s3: "rr_backlog r3 = es @ [e]" "rr_seq_counter r3 \<le> int BACKLOG_MAXLEN"
    using same_run_reads [of r3 r2] s2 by simp_all
  have "vw_phase v3 = Closed"
  proof (cases "vw_phase v2 = Closed")
    case True
    then have "vw_phase ?u = Closed" by (simp add: time_out_def)
    with q show ?thesis by (simp add: pull_out_def resumes_Closed del: resumes.simps)
  next
    case False
    with pull_out_settles [OF i1(1,2) s1(2)] p have "vw_phase v2 = Waiting" by auto
    then have "vw_phase ?u = Ready" "vw_phase ?u \<noteq> Closed" by (simp_all add: time_out_def)
    with pull_out_settles [OF i2(1) iu(1) s2(2)] waiting_misses_end [OF i2(1) iu(1) s2(2) iu(2) s2(1) assms(6)] q
    show ?thesis by simp
  qed
  from closed_has_all [OF i3(1,2) s3(2) i3(3) s3(1) assms(5) this] w p q s3(1) assms(4) show ?thesis
    by (simp add: watched_def)
qed

lemma until_stop_all:
  "\<forall>e \<in> set (butlast es). \<not> is_terminal e \<Longrightarrow> until_stop run_ended batch es = batch @ map envelope_dict es"
  by (induction es arbitrary: batch) (auto simp: run_ended_def split: if_splits)

lemma client_reads_run:
  assumes "r = drive_run P clock us fin r0" and "seqs_ok r0" and "rr_seq_counter r \<le> int BACKLOG_MAXLEN" and "all_readable r"
    and "\<forall>e \<in> set (butlast (rr_backlog r)). \<not> is_terminal e" and "is_terminal (last (rr_backlog r))" and "rr_backlog r \<noteq> []"
  shows "read_stream run_ended [] (py_splitlines (watched_text P ticks (drive_steps P clock us fin) r0)) = Inr (map envelope_dict (rr_backlog r))"
proof -
  have r: "run_steps (drive_steps P clock us fin) r0 = r" by (simp add: assms(1) drive_run_steps)
  have "rr_backlog r = butlast (rr_backlog r) @ [last (rr_backlog r)]" using assms(7) by simp
  from watched_has_all [OF assms(2) drive_steps_task, of P clock us fin, unfolded r, OF assms(3) this assms(5,6)]
  have d: "data_of (vw_frames (watched ticks (drive_steps P clock us fin) r0)) = rr_backlog r" .
  with assms(4) read_frames [of "vw_frames (watched ticks (drive_steps P clock us fin) r0)" run_ended "[]" P]
    until_stop_all [OF assms(5), of "[]"]
  show ?thesis by (simp add: watched_text_def all_readable_def)
qed

end
