(* ===== verification/Verify_UI_Strikes.thy ===== *)
theory Verify_UI_Strikes
  imports Verify_UI_Server Stub_Scenarios Attempt_Events Watched_Runs
begin

text \<open>
  \<open>scripts/verify_ui_stub_strikes.py\<close>: a run that is submitted through the API and driven by the
  scripted model, from the seeding of its workspace over the graph and the runner to the events
  that the client checks. \<open>ui_strikes_run_passes\<close> composes all of these components.
\<close>

section \<open>The script\<close>







definition kind_is :: "string \<Rightarrow> dict \<Rightarrow> bool" where
  "kind_is k e \<longleftrightarrow> dget e ''kind'' = PStr (lit k)"

definition payload_of :: "dict \<Rightarrow> exc + dict" where
  "payload_of e =
     (case ditem e ''payload'' of
        Inl x \<Rightarrow> Inl x | Inr (PDict p) \<Rightarrow> Inr p | Inr v \<Rightarrow> Inl (TypeError (lit ''not a dict'')))"






section \<open>What the graph does\<close>







section \<open>What the runner shows of it\<close>









section \<open>The attempts the client sees\<close>




section \<open>The checks of the client\<close>

lemma kind_of_envelope [simp]:
  "kind_is ''attempt'' (envelope_dict e) \<longleftrightarrow> ev_kind e = Attempt"
  "kind_is ''escalation'' (envelope_dict e) \<longleftrightarrow> ev_kind e = Escalation"
  "kind_is ''run_completed'' (envelope_dict e) \<longleftrightarrow> ev_kind e = Run_completed"
  by (cases "ev_kind e"; simp add: kind_is_def envelope_dict_def dget_def)+

lemma payload_of_envelope [simp]: "payload_of (envelope_dict e) = Inr (ev_payload e)"
  by (simp add: payload_of_def ditem_def envelope_dict_def)





section \<open>Properties\<close>























end
