(* ===== verification/Typing.thy ===== *)
theory Typing
  imports Graph
begin

text \<open>
  The types that the annotations of \<open>syndicate/nodes.py\<close> promise but Python does not check. A
  \<open>KeyError\<close>, \<open>TypeError\<close>, \<open>AttributeError\<close> or \<open>IndexError\<close> is how a wrong type shows itself; it
  ends the run. \<open>safe_prog\<close> is a triple for programs that cannot raise one: the world keeps an
  invariant and the value satisfies a postcondition. The locales \<open>typed_sandbox\<close> and
  \<open>typed_model\<close> state what the two seams owe: both backends give the first, the second is about
  what a model answers. Then every node, and so every run of the graph, is type safe
  (\<open>graph_type_safe\<close>).
\<close>

section \<open>Programs without type errors\<close>

fun is_type_error :: "exc \<Rightarrow> bool" where
  "is_type_error (KeyError _) = True"
| "is_type_error (TypeError _) = True"
| "is_type_error (AttributeError _) = True"
| "is_type_error (IndexError _) = True"
| "is_type_error _ = False"

definition safe_result :: "('a \<Rightarrow> bool) \<Rightarrow> exc + 'a \<Rightarrow> bool" where
  "safe_result Q r = (case r of Inl e \<Rightarrow> \<not> is_type_error e | Inr a \<Rightarrow> Q a)"

definition safe_prog :: "('w \<Rightarrow> bool) \<Rightarrow> ('w, 'a) prog \<Rightarrow> ('a \<Rightarrow> bool) \<Rightarrow> bool" where
  "safe_prog good m Q \<longleftrightarrow> (\<forall>w. good w \<longrightarrow> good (snd (m w)) \<and> safe_result Q (fst (m w)))"

named_theorems safe_rules

lemma safe_result_simps [simp]:
  "safe_result Q (Inl e) \<longleftrightarrow> \<not> is_type_error e" "safe_result Q (Inr a) \<longleftrightarrow> Q a"
  by (simp_all add: safe_result_def)

lemma safe_result_mono: "safe_result Q r \<Longrightarrow> (\<And>a. Q a \<Longrightarrow> R a) \<Longrightarrow> safe_result R r"
  by (cases r) simp_all

lemma safe_progD:
  assumes "safe_prog good m Q" and "good w" and "m w = (r, w')"
  shows "good w' \<and> safe_result Q r"
  using assms by (auto simp: safe_prog_def)

lemma safe_weaken: "safe_prog good m Q \<Longrightarrow> (\<And>a. Q a \<Longrightarrow> R a) \<Longrightarrow> safe_prog good m R"
  by (auto simp: safe_prog_def intro: safe_result_mono)

lemma safe_ret [safe_rules]: "Q a \<Longrightarrow> safe_prog good (ret a) Q"
  by (simp add: safe_prog_def)

lemma safe_raise [safe_rules]: "\<not> is_type_error e \<Longrightarrow> safe_prog good (raise e) Q"
  by (simp add: safe_prog_def)

lemma safe_of_result [safe_rules]: "safe_result Q r \<Longrightarrow> safe_prog good (of_result r) Q"
  by (simp add: safe_prog_def)

lemma safe_bnd:
  assumes "safe_prog good m Q" and "\<And>a. Q a \<Longrightarrow> safe_prog good (f a) R"
  shows "safe_prog good (bnd m f) R"
  unfolding safe_prog_def
proof (intro allI impI)
  fix w assume g: "good w"
  obtain r w' where m: "m w = (r, w')" by fastforce
  have s: "good w'" "safe_result Q r" using safe_progD [OF assms(1) g m] by simp_all
  show "good (snd (bnd m f w)) \<and> safe_result R (fst (bnd m f w))"
  proof (cases r)
    case (Inl e)
    with m s show ?thesis by simp
  next
    case (Inr a)
    with s(2) have "safe_prog good (f a) R" by (simp add: assms(2))
    with m s(1) Inr show ?thesis by (simp add: safe_prog_def)
  qed
qed

lemma safe_catch:
  assumes "safe_prog good m Q" and "\<And>e. p e \<Longrightarrow> safe_prog good (h e) Q"
  shows "safe_prog good (catch m p h) Q"
  unfolding safe_prog_def
proof (intro allI impI)
  fix w assume g: "good w"
  obtain r w' where m: "m w = (r, w')" by fastforce
  have s: "good w'" "safe_result Q r" using safe_progD [OF assms(1) g m] by simp_all
  show "good (snd (catch m p h w)) \<and> safe_result Q (fst (catch m p h w))"
  proof (cases r)
    case (Inl e)
    with m s assms(2) [of e] show ?thesis by (simp add: safe_prog_def)
  next
    case (Inr a)
    with m s show ?thesis by simp
  qed
qed

lemma safe_if [safe_rules]:
  "(b \<Longrightarrow> safe_prog good m Q) \<Longrightarrow> (\<not> b \<Longrightarrow> safe_prog good n Q) \<Longrightarrow> safe_prog good (if b then m else n) Q"
  by simp

section \<open>Typed values\<close>

fun is_str :: "pyval \<Rightarrow> bool" where
  "is_str (PStr _) = True"
| "is_str _ = False"

lemma is_strE: "is_str v \<Longrightarrow> (\<And>s. v = PStr s \<Longrightarrow> thesis) \<Longrightarrow> thesis"
  by (cases v) auto

definition str_or_falsy :: "pyval \<Rightarrow> bool" where
  "str_or_falsy v \<longleftrightarrow> truthy v \<longrightarrow> is_str v"

fun is_str_list :: "pyval \<Rightarrow> bool" where
  "is_str_list (PList vs) = list_all is_str vs"
| "is_str_list _ = False"

definition strs_or_falsy :: "pyval \<Rightarrow> bool" where
  "strs_or_falsy v \<longleftrightarrow> truthy v \<longrightarrow> is_str_list v"

text \<open>\<open>str | None\<close>.\<close>

definition opt_str :: "pyval \<Rightarrow> bool" where
  "opt_str v \<longleftrightarrow> is_str v \<or> v = PNone"

lemma opt_str_simps [simp]: "opt_str (PStr s)" "opt_str PNone"
  by (simp_all add: opt_str_def)

text \<open>
  A ticket: its command, workspace and ids are strings, its files lists of strings; a key may be
  absent or carry a falsy value where the code falls back on a default. An id that is absent
  everywhere must be \<open>None\<close>, as it is passed on.
\<close>

definition typed_ticket :: "dict \<Rightarrow> bool" where
  "typed_ticket t \<longleftrightarrow>
     str_or_falsy (dget t ''verification_command'') \<and> str_or_falsy (dget t ''workspace_dir'')
     \<and> str_or_falsy (dget t ''id'') \<and> opt_str (dget t ''ticket_id'')
     \<and> strs_or_falsy (dget t ''files_changed'') \<and> strs_or_falsy (dget t ''target_files'')"

definition typed_state :: "agent_state \<Rightarrow> bool" where
  "typed_state s \<longleftrightarrow> typed_ticket (ticket_of s)"

text \<open>The architect's reading of a model's plan.\<close>

definition typed_plan :: "dict \<Rightarrow> bool" where
  "typed_plan d \<longleftrightarrow> str_or_falsy (dget d ''verification_command'') \<and> strs_or_falsy (dget d ''files_changed'')"

text \<open>
  The inputs of the two Anthropic-defined tools, as their documentation gives them. A tool of
  another name may have any input.
\<close>

definition has_str :: "dict \<Rightarrow> string \<Rightarrow> bool" where
  "has_str d k = (case map_of d (lit k) of None \<Rightarrow> False | Some v \<Rightarrow> is_str v)"

definition typed_tool_input :: "str \<Rightarrow> dict \<Rightarrow> bool" where
  "typed_tool_input name d =
     (if name = lit ''bash'' then truthy (dget d ''restart'') \<or> has_str d ''command''
      else if name = lit ''str_replace_based_edit_tool'' then
        has_str d ''command'' \<and> has_str d ''path''
        \<and> (dget d ''command'' = PStr (lit ''create'') \<longrightarrow> has_str d ''file_text'')
        \<and> (dget d ''command'' = PStr (lit ''str_replace'') \<longrightarrow> has_str d ''old_str'' \<and> has_str d ''new_str'')
      else True)"

fun typed_block :: "block \<Rightarrow> bool" where
  "typed_block (ToolUseBlock i name inp) = typed_tool_input name inp"
| "typed_block _ = True"

text \<open>A response; without tools it is read as a plan.\<close>

definition typed_response :: "pyval list \<Rightarrow> response \<Rightarrow> bool" where
  "typed_response tools r \<longleftrightarrow> list_all typed_block (rsp_content r)
     \<and> (tools = [] \<longrightarrow> (\<forall>d. json_loads (text_of (rsp_content r)) = Some (PDict d) \<longrightarrow> typed_plan d))"

section \<open>The contract of a sandbox\<close>

locale typed_sandbox =
  fixes client :: "'w runtime_client" and good :: "'w \<Rightarrow> bool"
  assumes run_action_typed: "is_str command \<Longrightarrow> opt_str cwd \<Longrightarrow>
      safe_prog good (rc_run_action client command cwd t) (\<lambda>_. True)"
    and read_typed: "is_str path \<Longrightarrow> safe_prog good (rc_read_file client path) is_str"
    and write_typed: "is_str path \<Longrightarrow> is_str content \<Longrightarrow>
      safe_prog good (rc_write_file client path content) (\<lambda>_. True)"
    and edit_typed: "is_str path \<Longrightarrow> is_str old \<Longrightarrow> is_str new \<Longrightarrow>
      safe_prog good (rc_edit_file client path old new) (\<lambda>_. True)"
begin

lemma ditem_typed: "has_str d k \<Longrightarrow> safe_prog good (of_result (ditem d k)) (\<lambda>v. is_str v \<and> v = dget d k)"
  by (auto simp: has_str_def ditem_def dget_def intro!: safe_of_result split: option.splits)

lemma bash_tool_typed:
  assumes "typed_tool_input (lit ''bash'') inp" and "opt_str cwd"
  shows "safe_prog good (run_bash_tool E client inp cwd) (\<lambda>_. True)"
proof (cases "truthy (dget inp ''restart'')")
  case True
  then show ?thesis by (simp add: run_bash_tool_def safe_rules)
next
  case False
  with assms(1) have "has_str inp ''command''" by (simp add: typed_tool_input_def)
  then show ?thesis
    unfolding run_bash_tool_def using assms(2) False
    by (auto intro!: safe_rules safe_bnd [OF ditem_typed] safe_bnd [OF run_action_typed])
qed

lemma edit_tool_typed:
  assumes "typed_tool_input (lit ''str_replace_based_edit_tool'') inp"
  shows "safe_prog good (run_edit_tool E client inp) (\<lambda>_. True)"
proof -
  have h: "has_str inp ''command''" "has_str inp ''path''"
    "dget inp ''command'' = PStr (lit ''create'') \<Longrightarrow> has_str inp ''file_text''"
    "dget inp ''command'' = PStr (lit ''str_replace'') \<Longrightarrow> has_str inp ''old_str'' \<and> has_str inp ''new_str''"
    using assms by (simp_all add: typed_tool_input_def)
  show ?thesis
    unfolding run_edit_tool_def using h
    by (auto intro!: safe_rules safe_bnd [OF ditem_typed] safe_bnd [OF read_typed] safe_bnd [OF write_typed]
        safe_bnd [OF edit_typed])
qed

lemma run_tool_typed:
  assumes "typed_tool_input name inp" and "opt_str cwd"
  shows "safe_prog good (run_tool E client name inp cwd) (\<lambda>_. True)"
proof -
  have "\<not> is_type_error e" if "is_file_not_found e \<or> is_value_error e" for e
    using that by (cases e) simp_all
  with assms show ?thesis unfolding run_tool_def
    by (auto intro!: safe_catch safe_rules bash_tool_typed edit_tool_typed)
qed

lemma tool_blocks_typed:
  assumes "opt_str cwd"
  shows "list_all typed_block bs \<Longrightarrow> safe_prog good (run_tool_blocks E client cwd bs) (\<lambda>_. True)"
proof (induction bs)
  case (Cons b bs)
  show ?case
  proof (cases b)
    case (ToolUseBlock i name inp)
    have "safe_prog good (run_tool E client name inp cwd) (\<lambda>_. True)"
      using Cons.prems ToolUseBlock assms by (intro run_tool_typed) simp_all
    then show ?thesis using Cons ToolUseBlock
      by (auto intro!: safe_bnd [where Q = "\<lambda>_. True"] safe_rules)
  qed (use Cons in simp_all)
qed (simp add: safe_rules)

lemma fast_checks_typed:
  assumes "opt_str cwd"
  shows "safe_prog good (run_fast_checks client cwd) (\<lambda>_. True)"
proof -
  have "safe_prog good (fast_checks_from client cwd as) (\<lambda>_. True)" for as
    using assms by (induction as) (auto intro!: safe_rules safe_bnd [OF run_action_typed])
  then show ?thesis by (simp add: run_fast_checks_def)
qed

lemma dummy_actions_typed: "safe_prog good (run_dummy_actions E client as alog) (\<lambda>_. True)"
  by (induction as arbitrary: alog) (auto intro!: safe_rules safe_bnd [OF run_action_typed])

lemma detect_typed: "safe_prog good (detect_verification_command client wd) (\<lambda>_. True)"
proof -
  have "safe_prog good (detect_from client wd ms) (\<lambda>_. True)" for ms
  proof (induction ms)
    case (Cons m ms)
    obtain f c where m: "m = (f, c)" by (cases m)
    show ?case unfolding safe_prog_def
    proof (intro allI impI)
      fix w assume g: "good w"
      obtain r w' where r: "rc_read_file client (PStr (wd @ lit ''/'' @ f)) w = (r, w')" by fastforce
      with g have "good w' \<and> safe_result is_str r" by (intro safe_progD [OF read_typed g r]) simp
      with Cons.IH m r show "good (snd (detect_from client wd (m # ms) w))
          \<and> safe_result (\<lambda>_. True) (fst (detect_from client wd (m # ms) w))"
        by (auto simp: safe_prog_def split: sum.splits)
    qed
  qed (simp add: safe_prog_def)
  then show ?thesis by (simp add: detect_verification_command_def)
qed

lemma git_run_typed: "opt_str wd \<Longrightarrow> safe_prog good (git_run client wd g c) (\<lambda>_. True)"
  unfolding git_run_def by (auto intro!: safe_rules safe_bnd [OF run_action_typed])

end

section \<open>The contract of a model\<close>

locale typed_model =
  fixes llm :: "'w llm_client" and good :: "'w \<Rightarrow> bool"
  assumes answers_typed: "safe_prog good (messages_create llm m n tools messages) (typed_response tools)"
begin

lemma agentic_turns_typed:
  assumes "typed_sandbox client good" and "opt_str cwd"
  shows "safe_prog good (agentic_turns E client llm cwd k messages) (\<lambda>_. True)"
proof (induction k arbitrary: messages)
  case (Suc k)
  show ?case unfolding agentic_turns.simps
  proof (rule safe_bnd [OF answers_typed])
    fix rsp assume "typed_response EXECUTOR_TOOLS rsp"
    then have "list_all typed_block (rsp_content rsp)" by (simp add: typed_response_def)
    then have "safe_prog good (run_tool_blocks E client cwd (rsp_content rsp)) (\<lambda>_. True)"
      by (rule typed_sandbox.tool_blocks_typed [OF assms])
    from safe_bnd [OF this Suc.IH]
    show "safe_prog good (let messages1 = messages @ [\<lparr>msg_role = Assistant, msg_content = CBlocks (rsp_content rsp)\<rparr>]
        in if stop_reason rsp \<noteq> lit ''tool_use'' then ret (text_of (rsp_content rsp), messages1)
           else bnd (run_tool_blocks E client cwd (rsp_content rsp)) (\<lambda>tool_results.
                  agentic_turns E client llm cwd k (messages1 @ [\<lparr>msg_role = User, msg_content = CResults tool_results\<rparr>])))
      (\<lambda>_. True)"
      by (simp add: Let_def safe_ret)
  qed
qed (simp add: safe_rules)

lemma plan_typed:
  "safe_prog good (bnd (messages_create llm m n [] ms) (\<lambda>rsp. of_result (parse_llm_json E (text_of (rsp_content rsp))))) typed_plan"
proof (rule safe_bnd [OF answers_typed], rule safe_of_result)
  fix rsp assume t: "typed_response [] rsp"
  show "safe_result typed_plan (parse_llm_json E (text_of (rsp_content rsp)))"
  proof (cases "parse_llm_json E (text_of (rsp_content rsp))")
    case (Inl e)
    then show ?thesis by (auto dest: parse_llm_json_Inl)
  next
    case (Inr d)
    with t have "typed_plan d" by (simp add: parse_llm_json_Inr typed_response_def)
    with Inr show ?thesis by simp
  qed
qed

end

text \<open>
  An environment whose seams give clients that keep their contracts. A model client may rely on more of
  the world than holds before it is made (the stub on its own object in the store), so its invariant
  is one of a family that every sandbox keeps.
\<close>

definition typed_env :: "('w \<Rightarrow> bool) \<Rightarrow> ('w \<Rightarrow> bool) set \<Rightarrow> 'w node_env \<Rightarrow> bool" where
  "typed_env good invs E \<longleftrightarrow>
     good \<in> invs \<and> (\<forall>inv \<in> invs. \<forall>w. inv w \<longrightarrow> good w)
     \<and> safe_prog good (ne_get_runtime_client E) (\<lambda>client. \<forall>inv \<in> invs. typed_sandbox client inv)
     \<and> (\<forall>ticket_id w. opt_str ticket_id \<longrightarrow> good w \<longrightarrow>
          (case ne_get_llm_client E ticket_id w of
             (Inl e, w') \<Rightarrow> good w' \<and> \<not> is_type_error e
           | (Inr llm, w') \<Rightarrow> \<exists>inv \<in> invs. inv w' \<and> typed_model llm inv))"

lemma typed_env_client:
  "typed_env good invs E \<Longrightarrow> safe_prog good (ne_get_runtime_client E) (\<lambda>c. \<forall>inv \<in> invs. typed_sandbox c inv)"
  by (simp add: typed_env_def)

lemma typed_env_good: "typed_env good invs E \<Longrightarrow> \<forall>inv \<in> invs. typed_sandbox c inv \<Longrightarrow> typed_sandbox c good"
  by (simp add: typed_env_def)

lemma with_llm_typed:
  assumes E: "typed_env good invs E" and i: "opt_str tid"
    and f: "\<And>llm inv. inv \<in> invs \<Longrightarrow> typed_model llm inv \<Longrightarrow> safe_prog inv (f llm) R"
  shows "safe_prog good (bnd (ne_get_llm_client E tid) f) R"
  unfolding safe_prog_def
proof (intro allI impI)
  fix w assume g: "good w"
  obtain r w1 where r: "ne_get_llm_client E tid w = (r, w1)" by fastforce
  have c: "case ne_get_llm_client E tid w of (Inl e, w') \<Rightarrow> good w' \<and> \<not> is_type_error e
      | (Inr llm, w') \<Rightarrow> \<exists>inv \<in> invs. inv w' \<and> typed_model llm inv"
    using conjunct2 [OF conjunct2 [OF conjunct2 [OF E [unfolded typed_env_def]]]] i g by (simp only: simp_thms)
  show "good (snd (bnd (ne_get_llm_client E tid) f w)) \<and> safe_result R (fst (bnd (ne_get_llm_client E tid) f w))"
  proof (cases r)
    case (Inl e)
    with r c show ?thesis by simp
  next
    case (Inr llm)
    with r c have "\<exists>inv \<in> invs. inv w1 \<and> typed_model llm inv" by simp
    then obtain inv where v: "inv \<in> invs" "inv w1" "typed_model llm inv" by blast
    have s: "inv (snd (f llm w1))" "safe_result R (fst (f llm w1))"
      using f [OF v(1,3)] v(2) by (simp_all add: safe_prog_def)
    have "good (snd (f llm w1))" using E v(1) s(1) unfolding typed_env_def by blast
    with s(2) r Inr show ?thesis by simp
  qed
qed

section \<open>The nodes\<close>

lemma typed_workspace: "typed_ticket t \<Longrightarrow> opt_str (workspace_of t)"
  by (auto simp: typed_ticket_def workspace_of_def py_or_def str_or_falsy_def opt_str_def)

lemma typed_ticket_id: "typed_ticket t \<Longrightarrow> opt_str (ticket_id_of t)"
  by (auto simp: typed_ticket_def ticket_id_of_def py_or_def str_or_falsy_def opt_str_def)

lemma typed_state_merge:
  assumes "typed_state s" and "list_all is_ticket_update d"
  shows "typed_state (merge s d)"
  using assms merge_ticket_updates(3) [OF assms(2), of s] by (simp add: typed_state_def ticket_of_def)

lemma safe_ret_update:
  "typed_state s \<Longrightarrow> list_all is_ticket_update d \<Longrightarrow> safe_prog good (ret d) (\<lambda>d. typed_state (merge s d))"
  by (rule safe_ret) (rule typed_state_merge)

lemma call_llm_typed:
  assumes "typed_env good invs E"
  shows "safe_prog good (call_llm_json E key m p n) typed_plan"
  unfolding call_llm_json_def
  by (rule with_llm_typed [OF assms]) (auto intro: typed_model.plan_typed)

lemma agentic_loop_typed:
  assumes "typed_env good invs E" and "\<forall>inv \<in> invs. typed_sandbox client inv" and "opt_str cwd" and "opt_str tid"
  shows "safe_prog good (run_agentic_loop E client tp fb cwd tid) (\<lambda>_. True)"
  unfolding run_agentic_loop_def
proof (rule with_llm_typed [OF assms(1,4)])
  fix llm inv assume v: "inv \<in> invs" "typed_model llm inv"
  with assms(2) have "typed_sandbox client inv" by blast
  from typed_model.agentic_turns_typed [OF v(2) this assms(3)]
  show "safe_prog inv (bnd (agentic_turns E client llm cwd MAX_TOOL_CALLS [opening_message tp fb])
      (\<lambda>(summary, messages). ret summary)) (\<lambda>_. True)"
    by (rule safe_bnd) (simp add: safe_ret split: prod.splits)
qed

lemma analyzer_typed:
  assumes "typed_env good invs E" and "typed_state s"
  shows "safe_prog good (analyzer_node E s) (\<lambda>d. typed_state (merge s d))"
proof (cases "issue s")
  case None
  have "typed_ticket stub_ticket"
    by (simp add: typed_ticket_def stub_ticket_def dget_def str_or_falsy_def strs_or_falsy_def)
  with None assms(2) show ?thesis
    by (simp add: analyzer_node_def typed_state_def ticket_of_def safe_rules)
next
  case (Some i)
  with assms(2) show ?thesis
    by (auto simp: analyzer_node_def typed_state_def ticket_of_def
        intro!: safe_bnd [OF call_llm_typed [OF assms(1)]] safe_rules)
qed

lemma typed_planned_ticket:
  assumes "typed_plan p" and "str_or_falsy vc"
  shows "typed_ticket (planned_ticket i p vc)"
  using assms
  by (auto simp: typed_ticket_def planned_ticket_def dget_def typed_plan_def str_or_falsy_def strs_or_falsy_def py_or_def)

lemma architect_ticket_typed:
  assumes "typed_plan p"
  shows "safe_result (\<lambda>d. typed_state (merge s d)) (architect_ticket i detected p)"
proof -
  let ?vc = "py_or (dget p ''verification_command'') (case detected of None \<Rightarrow> PNone | Some c \<Rightarrow> PStr c)"
  have "str_or_falsy ?vc"
    using assms by (auto simp: typed_plan_def str_or_falsy_def py_or_def split: option.splits)
  with assms show ?thesis
    by (auto simp: architect_ticket_def Let_def typed_state_def ticket_of_def intro: typed_planned_ticket)
qed

lemma architect_typed:
  assumes "typed_env good invs E" and "typed_state s"
  shows "safe_prog good (architect_node E s) (\<lambda>d. typed_state (merge s d))"
proof (cases "issue s = None \<or> issue_analysis s = None")
  case True
  with assms(2) show ?thesis by (auto simp: architect_node_def intro: safe_rules split: option.splits)
next
  case False
  then show ?thesis
    by (auto simp: architect_node_def intro!: safe_bnd [OF typed_env_client [OF assms(1)]]
        safe_bnd [OF typed_sandbox.detect_typed [OF typed_env_good [OF assms(1)]]] safe_bnd [OF call_llm_typed [OF assms(1)]]
        safe_of_result architect_ticket_typed)
qed

lemma executor_loop_safe:
  assumes "typed_env good invs E" and "\<forall>inv \<in> invs. typed_sandbox client inv" and "opt_str wd" and "opt_str tid"
  shows "good w \<Longrightarrow> good (snd (executor_loop E client tp wd tid k fb alog w))
    \<and> safe_result (\<lambda>_. True) (fst (executor_loop E client tp wd tid k fb alog w))"
  using assms
proof (induction E client tp wd tid k fb alog w rule: executor_loop.induct)
  case (1 E client tp wd tid k fb alog w)
  show ?case
  proof (cases "k < MAX_STRIKES")
    case False
    with "1.prems"(1) show ?thesis by (simp add: executor_loop.simps)
  next
    case True
    obtain r w1 where a: "run_agentic_loop E client tp fb wd tid w = (r, w1)" by fastforce
    have g1: "good w1 \<and> safe_result (\<lambda>_. True) r"
      using safe_progD [OF agentic_loop_typed [OF "1.prems"(2-5)] "1.prems"(1) a] .
    show ?thesis
    proof (cases r)
      case (Inl e)
      with True a g1 show ?thesis by (subst executor_loop.simps, subst executor_loop.simps) simp
    next
      case (Inr summ)
      obtain c w2 where f: "run_fast_checks client wd w1 = (c, w2)" by fastforce
      have g2: "good w2 \<and> safe_result (\<lambda>_. True) c"
        using safe_progD [OF typed_sandbox.fast_checks_typed [OF typed_env_good [OF "1.prems"(2,3)] "1.prems"(4)] _ f] g1 by blast
      show ?thesis
      proof (cases c)
        case (Inl e)
        with True a Inr f g2 show ?thesis by (subst executor_loop.simps, subst executor_loop.simps) simp
      next
        case (Inr check)
        show ?thesis
        proof (cases "exit_code check = 0")
          case z: True
          show ?thesis using True a \<open>r = Inr summ\<close> f Inr g2 z
            by (subst executor_loop.simps, subst executor_loop.simps) (simp add: Let_def)
        next
          case nz: False
          let ?l = "alog @ [summary_line E (k + 1) summ, fast_check_line E (k + 1) check]"
          have eq: "executor_loop E client tp wd tid k fb alog w =
              executor_loop E client tp wd tid (k + 1) (Some (output check)) ?l w2"
            using True a \<open>r = Inr summ\<close> f Inr nz by (subst executor_loop.simps) (simp add: Let_def)
          show ?thesis unfolding eq
            by (rule "1.IH" [OF True _ _ refl nz]) (use a \<open>r = Inr summ\<close> f Inr g2 "1.prems"(2-5) in simp_all)
        qed
      qed
    qed
  qed
qed

lemma executor_typed:
  assumes "typed_env good invs E" and "typed_state s"
  shows "safe_prog good (executor_node E s) (\<lambda>d. typed_state (merge s d))"
  unfolding executor_node_def
proof (rule safe_bnd [OF typed_env_client [OF assms(1)]])
  fix client assume i: "\<forall>inv \<in> invs. typed_sandbox client inv"
  have c: "typed_sandbox client good" by (rule typed_env_good [OF assms(1) i])
  have t: "typed_ticket (ticket_of s)" using assms(2) by (simp add: typed_state_def)
  let ?loop = "executor_loop E client (lit ''Ticket: '' @ py_repr (ne_printable E) (PDict (ticket_of s)))
    (workspace_of (ticket_of s)) (ticket_id_of (ticket_of s)) (strikes s) (feedback_of s) (log_of s)"
  have "safe_prog good ?loop (\<lambda>d. typed_state (merge s d))"
    unfolding safe_prog_def
  proof (intro allI impI)
    fix w assume g: "good w"
    obtain r w' where r: "?loop w = (r, w')" by fastforce
    have "good w' \<and> safe_result (\<lambda>_. True) r"
      using executor_loop_safe [OF assms(1) i typed_workspace [OF t] typed_ticket_id [OF t] g] r by (metis fst_conv snd_conv)
    moreover have "typed_state (merge s d)" if "r = Inr d" for d
    proof -
      from executor_loop_result [OF r [unfolded that]] have "list_all is_ticket_update d" by auto
      with assms(2) show ?thesis by (rule typed_state_merge)
    qed
    ultimately show "good (snd (?loop w)) \<and> safe_result (\<lambda>d. typed_state (merge s d)) (fst (?loop w))"
      using r by (cases r) simp_all
  qed
  moreover have "safe_prog good (bnd (run_dummy_actions E client DUMMY_ACTIONS (log_of s)) (\<lambda>alog.
      ret [Set_attempt_log alog, Set_ticket_status LOCAL_PASS])) (\<lambda>d. typed_state (merge s d))"
    by (rule safe_bnd [OF typed_sandbox.dummy_actions_typed [OF c]]) (simp add: safe_ret_update assms(2))
  ultimately show "safe_prog good
      (if rc_is_mock client
       then bnd (run_dummy_actions E client DUMMY_ACTIONS (log_of s)) (\<lambda>alog.
              ret [Set_attempt_log alog, Set_ticket_status LOCAL_PASS])
       else ?loop) (\<lambda>d. typed_state (merge s d))"
    by (intro safe_if)
qed

lemma truncate_typed: "safe_result (\<lambda>_. True) (truncate_diagnosis out)"
  by (auto simp: truncate_diagnosis_def Let_def safe_result_def py_encode_def surrogate_error_def split: sum.splits if_splits)

lemma validator_typed:
  assumes "typed_env good invs E" and "typed_state s"
  shows "safe_prog good (validator_node E s) (\<lambda>d. typed_state (merge s d))"
  unfolding validator_node_def
proof (rule safe_bnd [OF typed_env_client [OF assms(1)]])
  fix client assume i: "\<forall>inv \<in> invs. typed_sandbox client inv"
  have c: "typed_sandbox client good" by (rule typed_env_good [OF assms(1) i])
  have t: "typed_ticket (ticket_of s)" using assms(2) by (simp add: typed_state_def)
  let ?cmd = "py_or (dget (ticket_of s) ''verification_command'') (PStr DEFAULT_VERIFICATION_COMMAND)"
  have cmd: "is_str ?cmd" using t by (auto simp: typed_ticket_def str_or_falsy_def py_or_def)
  have "safe_prog good (bnd (rc_run_action client ?cmd (workspace_of (ticket_of s)) (Some VALIDATOR_TIMEOUT_SECONDS)) (\<lambda>result.
      if exit_code result = 0
      then ret [Set_last_validation_passed True, Set_validation_diagnosis None]
      else bnd (of_result (truncate_diagnosis (output result))) (\<lambda>diagnosis.
             ret [Set_last_validation_passed False, Set_validation_diagnosis (Some diagnosis),
                  Set_strike_count (strikes s + 1)]))) (\<lambda>d. typed_state (merge s d))"
    by (rule safe_bnd [OF typed_sandbox.run_action_typed [OF c cmd typed_workspace [OF t]]])
      (auto intro!: safe_rules typed_state_merge [OF assms(2)] safe_bnd [OF safe_of_result [OF truncate_typed]])
  then show "safe_prog good
      (if rc_is_mock client then ret [Set_last_validation_passed True]
       else (let ticket = ticket_of s; command = py_or (dget ticket ''verification_command'') (PStr DEFAULT_VERIFICATION_COMMAND);
                 cwd = workspace_of ticket
             in bnd (rc_run_action client command cwd (Some VALIDATOR_TIMEOUT_SECONDS)) (\<lambda>result.
                  if exit_code result = 0
                  then ret [Set_last_validation_passed True, Set_validation_diagnosis None]
                  else bnd (of_result (truncate_diagnosis (output result))) (\<lambda>diagnosis.
                         ret [Set_last_validation_passed False, Set_validation_diagnosis (Some diagnosis),
                              Set_strike_count (strikes s + 1)])))) (\<lambda>d. typed_state (merge s d))"
    by (simp add: Let_def safe_ret_update assms(2))
qed

lemma quote_values_typed: "list_all is_str vs \<Longrightarrow> \<exists>qs. quote_values vs = Inr qs"
  by (induction vs) (auto simp: quote_value_def elim!: is_strE)

lemma quoted_paths_typed:
  assumes "typed_ticket t" and "truthy (files_of t)"
  shows "safe_result (\<lambda>_. True) (quoted_paths (files_of t))"
proof -
  have "is_str_list (files_of t)"
    using assms by (auto simp: typed_ticket_def files_of_def py_or_def strs_or_falsy_def split: if_splits)
  then obtain vs where "files_of t = PList vs" "list_all is_str vs" by (cases "files_of t") auto
  with quote_values_typed show ?thesis by (fastforce simp: quoted_paths_def)
qed

text \<open>The commit node; every command runs in the workspace.\<close>

lemma commit_half_typed:
  assumes c: "typed_sandbox client good" and s: "typed_state s"
  shows "safe_prog good (verify_head E client s hb g) (\<lambda>d. typed_state (merge s d))"
    and "safe_prog good (commit_staged E client s hb g) (\<lambda>d. typed_state (merge s d))"
    and "truthy (files_of (ticket_of s)) \<Longrightarrow> safe_prog good (oversight_commit E client s g) (\<lambda>d. typed_state (merge s d))"
proof -
  have t: "typed_ticket (ticket_of s)" using s by (simp add: typed_state_def)
  note run = typed_sandbox.git_run_typed [OF c typed_workspace [OF t]]
  have up: "list_all is_ticket_update (git_strike s g why)" for g why by (simp add: git_strike_def)
  show v: "safe_prog good (verify_head E client s hb g) (\<lambda>d. typed_state (merge s d))" for hb g
    unfolding verify_head_def by (rule safe_bnd [OF run]) (simp add: Let_def up safe_ret_update s split: prod.splits)
  show k: "safe_prog good (commit_staged E client s hb g) (\<lambda>d. typed_state (merge s d))" for hb g
    unfolding commit_staged_def by (rule safe_bnd [OF run]) (simp add: v up safe_ret_update s split: prod.splits)
  show "safe_prog good (oversight_commit E client s g) (\<lambda>d. typed_state (merge s d))"
    if f: "truthy (files_of (ticket_of s))"
    unfolding oversight_commit_def Let_def
    by (rule safe_bnd [OF run]; clarify; rule safe_bnd [OF safe_of_result [OF quoted_paths_typed [OF t f]]];
        rule safe_bnd [OF run]; clarify) (simp add: k up safe_ret_update s)
qed

lemma oversight_typed:
  assumes "typed_env good invs E" and "typed_state s"
  shows "safe_prog good (oversight_git_node E s) (\<lambda>d. typed_state (merge s d))"
  unfolding oversight_git_node_def
proof (rule safe_bnd [OF typed_env_client [OF assms(1)]])
  fix client assume i: "\<forall>inv \<in> invs. typed_sandbox client inv"
  have c: "typed_sandbox client good" by (rule typed_env_good [OF assms(1) i])
  have t: "typed_ticket (ticket_of s)" using assms(2) by (simp add: typed_state_def)
  note run = typed_sandbox.git_run_typed [OF c typed_workspace [OF t]]
  let ?wd = "workspace_of (ticket_of s)"
  have init: "safe_prog good (if b then bnd (git_run client ?wd g CMD_INIT) (\<lambda>(_, g). ret g) else ret g) (\<lambda>_. True)" for b g
    by (auto intro!: safe_rules safe_bnd [OF run])
  have rest: "safe_prog good (if \<not> truthy (files_of (ticket_of s)) then ret [Set_attempt_log (log_of s @ g)]
      else oversight_commit E client s g) (\<lambda>d. typed_state (merge s d))" for g
    using commit_half_typed(3) [OF c assms(2)] by (simp add: safe_ret_update assms(2))
  show "safe_prog good
      (let ticket = ticket_of s; workspace_dir = workspace_of ticket
       in bnd (git_run client workspace_dir [] CMD_IS_REPO) (\<lambda>(is_repo, g1).
          bnd (if exit_code is_repo \<noteq> 0
               then bnd (git_run client workspace_dir g1 CMD_INIT) (\<lambda>(_, g). ret g)
               else ret g1) (\<lambda>g2.
          bnd (git_run client workspace_dir g2 CMD_NAME) (\<lambda>(_, g3).
          bnd (git_run client workspace_dir g3 CMD_EMAIL) (\<lambda>(_, g4).
            if \<not> truthy (files_of ticket) then ret [Set_attempt_log (log_of s @ g4)]
            else oversight_commit E client s g4))))) (\<lambda>d. typed_state (merge s d))"
    unfolding Let_def
    by (rule safe_bnd [OF run]; clarify; rule safe_bnd [OF init]; rule safe_bnd [OF run]; clarify;
        rule safe_bnd [OF run]; clarify; rule rest)
qed

lemma node_typed:
  assumes "typed_env good invs E" and "typed_state s"
  shows "safe_prog good (node_fun E n s) (\<lambda>d. typed_state (merge s d))"
proof (cases n)
  case Escalate
  have "typed_state (merge s (escalate_node E s))"
    using assms(2) by (simp add: escalate_node_def Let_def typed_state_def ticket_of_def)
  with Escalate show ?thesis by (simp add: safe_ret)
next
  case Advance
  have "typed_state (merge s (advance_node s))"
    using assms(2) by (simp add: advance_node_def typed_state_def ticket_of_def)
  with Advance show ?thesis by (simp add: safe_ret)
qed (simp_all add: analyzer_typed [OF assms] architect_typed [OF assms] executor_typed [OF assms]
  validator_typed [OF assms] oversight_typed [OF assms] dispatch_node_def safe_ret assms(2))

lemma run_from_typed:
  assumes "typed_env good invs E"
  shows "run_from E k n s w = (us, out, s', w') \<Longrightarrow> typed_state s \<Longrightarrow> good w \<Longrightarrow>
    typed_state s' \<and> good w' \<and> (\<forall>e. out = Raised e \<longrightarrow> \<not> is_type_error e)"
proof (induction k arbitrary: n s w us)
  case (Suc k)
  obtain r w1 where r: "node_fun E n s w = (r, w1)" by fastforce
  have g: "good w1 \<and> safe_result (\<lambda>d. typed_state (merge s d)) r"
    by (rule safe_progD [OF node_typed [OF assms Suc.prems(2)] Suc.prems(3) r])
  show ?case
  proof (cases r)
    case (Inl e)
    with Suc.prems r g show ?thesis by auto
  next
    case (Inr d)
    with g have d: "typed_state (merge s d)" by simp
    show ?thesis
    proof (cases "next_node n (merge s d)")
      case None
      with Suc.prems r g d Inr show ?thesis by auto
    next
      case (Some m)
      with Suc.prems(1) r Inr obtain us' where "run_from E k m (merge s d) w1 = (us', out, s', w')"
        by (auto split: prod.splits)
      from Suc.IH [OF this d] g show ?thesis by simp
    qed
  qed
qed auto

end
