(* ===== verification/Typed_System.thy ===== *)
theory Typed_System
  imports Typing Entry_Points
begin

text \<open>
  The clients of the repository keep the contracts of \<open>Typing\<close>: the mock and the OpenHands adapter
  that of a sandbox, the scripted model that of a model when its scripts do. So a run in the
  environment \<open>system_env\<close> raises no type error. What is assumed is about code that is not here:
  the HTTP library, the Anthropic client and what a model answers.
\<close>

section \<open>Sandboxes\<close>

definition str_files :: "mock_files \<Rightarrow> bool" where
  "str_files f \<longleftrightarrow> (\<forall>k v. f k = Some v \<longrightarrow> is_str v)"

lemma str_replace_typed:
  assumes "is_str c" and "is_str old" and "is_str new"
  shows "safe_result is_str (str_replace P c old new path)"
  using assms by (auto simp: str_replace_def elim!: is_strE)

lemma mock_read_typed: "is_str p \<Longrightarrow> safe_prog str_files (mock_read_file P p) is_str"
  by (auto simp: safe_prog_def mock_read_file_def str_files_def elim!: is_strE split: option.splits)

lemma mock_write_typed: "is_str p \<Longrightarrow> is_str c \<Longrightarrow> safe_prog str_files (mock_write_file p c) (\<lambda>_. True)"
  by (auto simp: safe_prog_def mock_write_file_def str_files_def elim!: is_strE split: if_splits)

lemma edit_rule_typed:
  assumes "safe_prog good read is_str" and "\<And>v. is_str v \<Longrightarrow> safe_prog good (wr v) (\<lambda>_. True)"
    and "is_str old" and "is_str new"
  shows "safe_prog good (bnd read (\<lambda>content. bnd (of_result (str_replace P content old new path)) wr)) (\<lambda>_. True)"
  by (rule safe_bnd [OF assms(1)], rule safe_bnd [OF safe_of_result [OF str_replace_typed [OF _ assms(3,4)]] assms(2)])

interpretation mock_typed: typed_sandbox "mock_client P" str_files
proof unfold_locales
  fix path old new assume a: "is_str path" "is_str old" "is_str new"
  from edit_rule_typed [OF mock_read_typed mock_write_typed a(2,3)] a(1)
  show "safe_prog str_files (rc_edit_file (mock_client P) path old new) (\<lambda>_. True)"
    by (simp add: mock_client_def mock_edit_file_def)
qed (simp_all add: mock_client_def mock_run_action_def safe_ret mock_read_typed mock_write_typed)

text \<open>
  \<open>httpx\<close> raises its own errors only, and so does its parsing of a body. A body that is not the
  object \<open>BashOutput\<close> describes is outside the service's contract.
\<close>

definition typed_http :: "'h http \<Rightarrow> bool" where
  "typed_http h \<longleftrightarrow>
     (\<forall>cfg u p t. safe_prog (\<lambda>_. True) (http_post_json h cfg u p t) (\<lambda>r. safe_result (\<lambda>_. True) (resp_json r)))
     \<and> (\<forall>cfg u. safe_prog (\<lambda>_. True) (http_get h cfg u) (\<lambda>_. True))
     \<and> (\<forall>cfg u n b. safe_prog (\<lambda>_. True) (http_post_file h cfg u n b) (\<lambda>_. True))"

lemma raise_for_status_typed: "safe_result (\<lambda>_. True) (raise_for_status r)"
  by (simp add: raise_for_status_def)

lemma openhands_read_typed: "typed_http h \<Longrightarrow> safe_prog (\<lambda>_. True) (openhands_read_file P h cfg p) is_str"
  unfolding openhands_read_file_def
  by (rule safe_bnd [where Q = "\<lambda>_. True"])
    (auto simp: typed_http_def intro!: safe_rules safe_bnd [OF safe_of_result [OF raise_for_status_typed]])

lemma openhands_write_typed:
  assumes "typed_http h" and "is_str p" and "is_str c"
  shows "safe_prog (\<lambda>_. True) (openhands_write_file P h cfg p c) (\<lambda>_. True)"
proof -
  obtain x y where e: "p = PStr x" "c = PStr y" using assms(2,3) by (auto elim!: is_strE)
  have enc: "safe_result (\<lambda>_. True) (py_encode y)" by (simp add: py_encode_def surrogate_error_def Let_def)
  have post: "safe_prog (\<lambda>_. True) (http_post_file h cfg u n b) (\<lambda>_. True)" for u n b
    using assms(1) by (simp add: typed_http_def)
  show ?thesis unfolding openhands_write_file_def e pyval.case Let_def
    by (rule safe_bnd [OF safe_of_result [OF enc]]; rule safe_bnd [OF post]; rule safe_of_result; rule raise_for_status_typed)
qed

lemma openhands_run_typed:
  assumes "typed_http h"
  shows "safe_prog (\<lambda>_. True) (openhands_run_action P h cfg a c t) (\<lambda>_. True)"
  unfolding openhands_run_action_def
proof (rule safe_bnd)
  show "safe_prog (\<lambda>_. True) (http_post_json h cfg (lit ''/api/bash/execute_bash_command'') (bash_payload a c t)
      (case t of None \<Rightarrow> hc_timeout cfg | Some t \<Rightarrow> t + 30)) (\<lambda>r. safe_result (\<lambda>_. True) (resp_json r))"
    using assms by (simp add: typed_http_def)
  fix r :: http_response assume j: "safe_result (\<lambda>_. True) (resp_json r)"
  show "safe_prog (\<lambda>_. True) (bnd (of_result (raise_for_status r)) (\<lambda>_. bnd (of_result (resp_json r)) (\<lambda>data.
       case bo_exit_code data of
         None \<Rightarrow> raise (RuntimeError (lit ''OpenHands runtime returned no exit_code for action '' @ py_repr P a @ lit '': '' @ bo_repr data))
       | Some ec \<Rightarrow> ret \<lparr>exit_code = ec, output = (case bo_stdout data of None \<Rightarrow> [] | Some t \<Rightarrow> t)
                         @ (case bo_stderr data of None \<Rightarrow> [] | Some t \<Rightarrow> t)\<rparr>))) (\<lambda>_. True)"
    by (rule safe_bnd [OF safe_of_result [OF raise_for_status_typed]]; rule safe_bnd [OF safe_of_result [OF j]])
      (simp add: safe_raise safe_ret split: option.split)
qed

lemma openhands_typed:
  assumes "typed_http h"
  shows "typed_sandbox (openhands_client P h cfg) (\<lambda>_. True)"
proof unfold_locales
  fix path old new assume a: "is_str path" "is_str old" "is_str new"
  from edit_rule_typed [OF openhands_read_typed openhands_write_typed a(2,3)] assms a(1)
  show "safe_prog (\<lambda>_. True) (rc_edit_file (openhands_client P h cfg) path old new) (\<lambda>_. True)"
    by (simp add: openhands_client_def openhands_edit_file_def)
qed (simp_all add: openhands_client_def openhands_run_typed openhands_read_typed openhands_write_typed assms)

section \<open>The scripted model\<close>

definition typed_text :: "str \<Rightarrow> bool" where
  "typed_text t \<longleftrightarrow> (case json_loads t of Some (PDict d) \<Rightarrow> typed_plan d | _ \<Rightarrow> True)"

definition typed_turn :: "stub_turn \<Rightarrow> bool" where
  "typed_turn t \<longleftrightarrow> (if st_done t then typed_text (st_text t)
     else list_all (\<lambda>c. typed_tool_input (stc_name c) (stc_input c)) (st_tool_calls t))"

definition typed_stub :: "stub_state \<Rightarrow> bool" where
  "typed_stub s \<longleftrightarrow> (\<forall>k sc. ss_scripts s k = Some sc \<longrightarrow> list_all typed_turn sc)
     \<and> list_all (\<lambda>c. sc_script c \<noteq> [] \<and> list_all typed_turn (sc_script c)) (ss_heap s)"

lemma stub_blocks_typed:
  "list_all (\<lambda>c. typed_tool_input (stc_name c) (stc_input c)) ts \<Longrightarrow> list_all typed_block (stub_blocks ci i ts)"
  "text_of (stub_blocks ci i ts) = []"
  by (induction ts arbitrary: i) (simp_all add: text_of_def)

lemma list_all_update: "list_all Q xs \<Longrightarrow> Q x \<Longrightarrow> list_all Q (xs[i := x])"
  by (auto simp: list_all_iff dest!: set_update_subset_insert [THEN subsetD])

interpretation stub_typed: typed_model "stub_llm_client a" "\<lambda>s. typed_stub s \<and> a < length (ss_heap s)"
proof
  fix m n tools messages
  have empty: "json_loads [] = None" by (simp add: json_loads_def json_ws_def)
  show "safe_prog (\<lambda>s. typed_stub s \<and> a < length (ss_heap s)) (messages_create (stub_llm_client a) m n tools messages)
      (typed_response tools)"
    unfolding safe_prog_def
  proof (intro allI impI)
    fix s assume s: "typed_stub s \<and> a < length (ss_heap s)"
    let ?c = "ss_heap s ! a"
    obtain rsp c' where r: "stub_create m n tools messages ?c = (rsp, c')" by fastforce
    have c: "sc_script ?c \<noteq> []" "list_all typed_turn (sc_script ?c)"
      using s by (auto simp: typed_stub_def list_all_length)
    let ?t = "sc_script ?c ! min (call_index ?c) (length (sc_script ?c) - 1)"
    have "?t \<in> set (sc_script ?c)" using c(1) by (intro nth_mem) (cases "sc_script ?c"; simp add: min_def less_Suc_eq_le)
    with c(2) have t: "typed_turn ?t" by (simp add: list_all_iff)
    have c': "sc_script c' = sc_script ?c"
      using r by (auto simp: stub_create_def next_turn_def Let_def split: if_splits)
    have rsp: "typed_response tools rsp"
      using r t by (auto simp: stub_create_def next_turn_def Let_def typed_response_def typed_turn_def typed_text_def
          stub_blocks_typed empty text_of_def [of "[x]" for x] split: if_splits)
    have ok: "sc_script c' \<noteq> [] \<and> list_all typed_turn (sc_script c')" using c unfolding c' by simp
    have "typed_stub (s\<lparr>ss_heap := (ss_heap s)[a := c']\<rparr>)"
      using s list_all_update [where Q = "\<lambda>c. sc_script c \<noteq> [] \<and> list_all typed_turn (sc_script c)", OF _ ok, of "ss_heap s" a] by (simp add: typed_stub_def)
    with s rsp r show "(typed_stub (snd (messages_create (stub_llm_client a) m n tools messages s))
        \<and> a < length (ss_heap (snd (messages_create (stub_llm_client a) m n tools messages s))))
      \<and> safe_result (typed_response tools) (fst (messages_create (stub_llm_client a) m n tools messages s))"
      by (simp add: stub_llm_client_def stub_messages_create_def)
  qed
qed

section \<open>The environment of the nodes\<close>

text \<open>The mock's files are text and the stub's store satisfies \<open>F\<close>.\<close>

definition sys_inv :: "(stub_state \<Rightarrow> bool) \<Rightarrow> ('h, 'l) sys_world \<Rightarrow> bool" where
  "sys_inv F w \<longleftrightarrow> str_files (sw_mock w) \<and> F (sw_stub w)"

definition stub_invs :: "(stub_state \<Rightarrow> bool) set" where
  "stub_invs = insert typed_stub (range (\<lambda>a s. typed_stub s \<and> a < length (ss_heap s)))"

lemma safe_on_mock: "safe_prog str_files m Q \<Longrightarrow> safe_prog (sys_inv F) (on_mock m) Q"
  by (auto simp: safe_prog_def on_mock_def sys_inv_def split: prod.splits)

lemma safe_on_net: "safe_prog (\<lambda>_. True) m Q \<Longrightarrow> safe_prog (sys_inv F) (on_net m) Q"
  by (simp add: safe_prog_def on_net_def sys_inv_def split_beta)

lemma safe_on_llm: "safe_prog (\<lambda>_. True) m Q \<Longrightarrow> safe_prog (sys_inv F) (on_llm m) Q"
  by (simp add: safe_prog_def on_llm_def sys_inv_def split_beta)

lemma safe_on_stub: "safe_prog F m Q \<Longrightarrow> safe_prog (sys_inv F) (on_stub m) Q"
  by (auto simp: safe_prog_def on_stub_def sys_inv_def split: prod.splits)

interpretation sys_mock_typed: typed_sandbox "sys_mock_client P" "sys_inv F"
  using mock_typed.run_action_typed mock_typed.read_typed mock_typed.write_typed mock_typed.edit_typed
  by unfold_locales (simp_all add: sys_mock_client_def mock_client_def safe_on_mock)

lemma sys_openhands_typed:
  assumes "typed_http h"
  shows "typed_sandbox (sys_openhands_client P h cfg) (sys_inv F)"
  using typed_sandbox.run_action_typed [OF openhands_typed [OF assms]] typed_sandbox.read_typed [OF openhands_typed [OF assms]]
    typed_sandbox.write_typed [OF openhands_typed [OF assms]] typed_sandbox.edit_typed [OF openhands_typed [OF assms]]
  by unfold_locales (simp_all add: sys_openhands_client_def openhands_client_def safe_on_net)

interpretation sys_stub_typed: typed_model "sys_stub_client a" "sys_inv (\<lambda>s. typed_stub s \<and> a < length (ss_heap s))"
  using stub_typed.answers_typed
  by unfold_locales (simp add: sys_stub_client_def stub_llm_client_def safe_on_stub)

lemma anthropic_typed: "typed_model c (\<lambda>_. True) \<Longrightarrow> typed_model (sys_anthropic_client c) (sys_inv F)"
  by (simp add: typed_model_def sys_anthropic_client_def safe_on_llm)

lemma base_url_typed: "safe_result (\<lambda>_. True) (runtime_base_url env)"
  by (auto simp: runtime_base_url_def urlparse_port_def Let_def split: option.splits)

lemma safe_parts:
  "(\<And>x. safe_result Q (f x)) \<Longrightarrow> safe_result Q (let x = v in f x)"
  "(\<And>x y. safe_result Q (g x y)) \<Longrightarrow> safe_result Q (case p of (x, y) \<Rightarrow> g x y)"
  "safe_result Q a \<Longrightarrow> (\<And>x xs. safe_result Q (g' x xs)) \<Longrightarrow> safe_result Q (case l of [] \<Rightarrow> a | x # xs \<Rightarrow> g' x xs)"
  "safe_result Q a \<Longrightarrow> (\<And>x. safe_result Q (f' x)) \<Longrightarrow> safe_result Q (case z of None \<Rightarrow> a | Some x \<Rightarrow> f' x)"
  "safe_result Q a \<Longrightarrow> safe_result Q b \<Longrightarrow> safe_result Q (if c then a else b)"
  by (simp_all split: prod.split list.split option.split)

lemma float_typed: "safe_result (\<lambda>_. True) (py_float t)"
  unfolding py_float_def by (subst Let_def) (intro safe_parts; simp)

lemma get_runtime_client_typed:
  assumes "typed_http h"
  shows "safe_prog (sys_inv F) (get_runtime_client P h env) (\<lambda>c. \<forall>G. typed_sandbox c (sys_inv G))"
proof -
  have "safe_prog (sys_inv F) (\<lambda>w. (Inr (sys_mock_client P), w\<lparr>sw_mock := Map.empty\<rparr>)) (\<lambda>c. \<forall>G. typed_sandbox c (sys_inv G))"
    by (auto simp: safe_prog_def sys_inv_def str_files_def intro: sys_mock_typed.typed_sandbox_axioms)
  moreover have "safe_result (\<lambda>_. True) (case env k of None \<Rightarrow> Inr 300 | Some t \<Rightarrow> py_float t)" for k
    by (simp add: float_typed split: option.split)
  ultimately show ?thesis unfolding get_runtime_client_def
    by (intro safe_if) (auto intro!: safe_bnd [OF safe_of_result [OF base_url_typed]] safe_bnd [OF safe_of_result]
        safe_ret sys_openhands_typed assms)
qed

lemma get_stub_client_typed:
  assumes "opt_str tid" and "typed_stub s" and "get_stub_client P (py_or tid (PStr [])) s = (r, s')"
  shows "case r of Inl e \<Rightarrow> typed_stub s' \<and> \<not> is_type_error e | Inr a \<Rightarrow> typed_stub s' \<and> a < length (ss_heap s')"
proof -
  have "is_str (py_or tid (PStr []))" using assms(1) by (auto simp: opt_str_def py_or_def)
  then obtain k where "py_or tid (PStr []) = PStr k" by (rule is_strE)
  with assms(2,3) show ?thesis
    by (auto simp: get_stub_client_def stub_init_def typed_stub_def split: option.splits if_splits)
qed

lemma get_llm_client_typed:
  assumes "safe_prog (\<lambda>_. True) anthropic (\<lambda>c. typed_model c (\<lambda>_. True))" and "opt_str tid" and g: "sys_inv typed_stub w"
  shows "case get_llm_client P anthropic env tid w of
      (Inl e, w') \<Rightarrow> sys_inv typed_stub w' \<and> \<not> is_type_error e
    | (Inr llm, w') \<Rightarrow> \<exists>inv \<in> sys_inv ` stub_invs. inv w' \<and> typed_model llm inv"
proof (cases "env (lit ''SYNDICATE_STUB_LLM'') = Some (lit ''1'')")
  case True
  obtain r s' where r: "get_stub_client P (py_or tid (PStr [])) (sw_stub w) = (r, s')" by fastforce
  have "typed_stub (sw_stub w)" using g by (simp add: sys_inv_def)
  from get_stub_client_typed [OF assms(2) this r] True r g sys_stub_typed.typed_model_axioms show ?thesis
    by (cases r) (auto simp: get_llm_client_def on_stub_def bnd_app sys_inv_def stub_invs_def)
next
  case False
  obtain r w' where r: "on_llm anthropic w = (r, w')" by fastforce
  have "sys_inv typed_stub w' \<and> safe_result (\<lambda>c. typed_model c (\<lambda>_. True)) r"
    by (rule safe_progD [OF safe_on_llm [OF assms(1)] g r])
  with False r show ?thesis
    by (cases r) (auto simp: get_llm_client_def bnd_app stub_invs_def intro: anthropic_typed)
qed

lemma system_env_typed:
  assumes "typed_http h" and "safe_prog (\<lambda>_. True) anthropic (\<lambda>c. typed_model c (\<lambda>_. True))"
  shows "typed_env (sys_inv typed_stub) (sys_inv ` stub_invs) (system_env P h anthropic env m)"
  unfolding typed_env_def
proof (intro conjI)
  show "sys_inv typed_stub \<in> sys_inv ` stub_invs" by (simp add: stub_invs_def)
  show "\<forall>inv \<in> sys_inv ` stub_invs. \<forall>w. inv w \<longrightarrow> sys_inv typed_stub w" by (auto simp: stub_invs_def sys_inv_def)
  show "safe_prog (sys_inv typed_stub) (ne_get_runtime_client (system_env P h anthropic env m))
      (\<lambda>client. \<forall>inv \<in> sys_inv ` stub_invs. typed_sandbox client inv)"
    unfolding system_env_def node_env.simps by (rule safe_weaken [OF get_runtime_client_typed [OF assms(1)]]) blast
  show "\<forall>tid w. opt_str tid \<longrightarrow> sys_inv typed_stub w \<longrightarrow>
      (case ne_get_llm_client (system_env P h anthropic env m) tid w of
         (Inl e, w') \<Rightarrow> sys_inv typed_stub w' \<and> \<not> is_type_error e
       | (Inr llm, w') \<Rightarrow> \<exists>inv \<in> sys_inv ` stub_invs. inv w' \<and> typed_model llm inv)"
    unfolding system_env_def node_env.simps by (intro allI impI) (rule get_llm_client_typed [OF assms(2)])
qed

section \<open>Properties\<close>

text \<open>
  C9: a run of the graph never ends with a type error (\<open>KeyError\<close>, \<open>TypeError\<close>, \<open>AttributeError\<close>
  or \<open>IndexError\<close>), whatever the process environment selects (mock or agent server, scripted model
  or Anthropic), when it starts from a typed ticket or none, the HTTP library and the Anthropic client
  raise only errors of their own, and what a model answers is typed: tool inputs as the tools document
  them, a plan with a string as command and a list of strings as files. The ticket stays typed.
\<close>

theorem run_type_safe:
  assumes "typed_http h" and "safe_prog (\<lambda>_. True) anthropic (\<lambda>c. typed_model c (\<lambda>_. True))"
    and "typed_state s" and "str_files (sw_mock w)" and "typed_stub (sw_stub w)"
    and "run_graph (system_env P h anthropic env m) k s w = (us, out, s', w')"
  shows "typed_state s' \<and> (\<forall>e. out = Raised e \<longrightarrow> \<not> is_type_error e)"
proof -
  have "sys_inv typed_stub w" using assms(4,5) by (simp add: sys_inv_def)
  from run_from_typed [OF system_env_typed [OF assms(1,2)] assms(6) [unfolded run_graph_def] assms(3) this]
  show ?thesis by blast
qed

text \<open>A server without files that answers every command with exit code 0.\<close>

definition calm_http :: "unit http" where
  "calm_http =
     \<lparr>http_post_json = (\<lambda>c u p t. ret \<lparr>status_code = 200, resp_text = [],
        resp_json = Inr \<lparr>bo_exit_code = Some 0, bo_stdout = Some [], bo_stderr = None, bo_repr = []\<rparr>\<rparr>),
      http_get = (\<lambda>c u. ret \<lparr>status_code = 404, resp_text = [], resp_json = Inl (JSONDecodeError [])\<rparr>),
      http_post_file = (\<lambda>c u n b. ret \<lparr>status_code = 200, resp_text = [], resp_json = Inl (JSONDecodeError [])\<rparr>),
      http_aclose = (\<lambda>c. ret ())\<rparr>"

text \<open>
  The witness: a model whose plan is \<open>{}\<close> and which then calls \<open>bash\<close> and the edit tool, an issue
  to plan a ticket from.
\<close>

definition typed_script :: "stub_turn list" where
  "typed_script =
     [tool_turn [(lit ''bash'', [(lit ''restart'', PBool True)]),
        (lit ''str_replace_based_edit_tool'', [(lit ''command'', PStr (lit ''create'')), (lit ''path'', PStr (lit ''/a'')),
           (lit ''file_text'', PStr (lit ''x''))])],
      complete_turn (lit ''ok'')]"

definition typed_world :: "(unit, unit) sys_world" where
  "typed_world = \<lparr>sw_mock = Map.empty, sw_net = (),
     sw_stub = \<lparr>ss_scripts = [PStr (lit ''T1'') \<mapsto> typed_script], ss_history = Map.empty, ss_heap = []\<rparr>, sw_llm = ()\<rparr>"

definition calm_environ :: environ where
  "calm_environ = [lit ''SYNDICATE_RUNTIME_URL'' \<mapsto> lit ''http://localhost:8000'', lit ''SYNDICATE_STUB_LLM'' \<mapsto> lit ''1'']"

definition typed_demo :: agent_state where
  "typed_demo = empty_state\<lparr>active_ticket := Some demo_ticket\<rparr>"

theorem run_type_safe_witness:
  "\<exists>us out s' w'. run_graph (system_env (\<lambda>_. True) calm_http (raise (ExternalError [])) calm_environ 3) 25 typed_demo typed_world
       = (us, out, s', w') \<and> typed_state s' \<and> (\<forall>e. out = Raised e \<longrightarrow> \<not> is_type_error e)"
proof -
  have h: "typed_http calm_http" by (simp add: typed_http_def calm_http_def safe_ret)
  have a: "safe_prog (\<lambda>_. True) (raise (ExternalError []) :: (unit, unit llm_client) prog) (\<lambda>c. typed_model c (\<lambda>_. True))"
    by (rule safe_raise) simp
  have s: "typed_state typed_demo"
    by (simp add: typed_state_def typed_demo_def ticket_of_def typed_ticket_def demo_ticket_def dget_def str_or_falsy_def strs_or_falsy_def)
  have f: "str_files (sw_mock typed_world)" by (simp add: typed_world_def str_files_def)
  have "typed_text (lit ''ok'')" by code_simp
  then have t: "typed_stub (sw_stub typed_world)"
    by (simp add: typed_world_def typed_stub_def typed_script_def typed_turn_def tool_turn_def complete_turn_def
        typed_tool_input_def dget_def has_str_def)
  obtain us out s' w' where r: "run_graph (system_env (\<lambda>_. True) calm_http (raise (ExternalError [])) calm_environ 3) 25
      typed_demo typed_world = (us, out, s', w')" by (metis prod_cases4)
  from run_type_safe [OF h a s f t r] r show ?thesis by blast
qed

end
