(* ===== verification/Checkpoints.thy ===== *)
theory Checkpoints
  imports Verify_Nodes Typed_System
begin

text \<open>
  \<open>server/checkpointer.py\<close> and \<open>scripts/verify_checkpoint_roundtrip.py\<close>. What LangGraph does is a
  parameter. \<open>open_saver\<close> is its SQLite saver: for the allow-list of the serializer, what writing and
  reading the values of a thread does to a database; \<open>saver_keeps\<close> is its documented behaviour: values
  whose classes are on the list come back as they were, and threads do not disturb one another.
  \<open>engine\<close> is a graph compiled with a saver and run on a thread; \<open>langgraph_persists\<close> is the documented
  behaviour: the input is written over what the thread already stores, the run starts at the entry
  point from there, and whatever it writes in between, the last checkpoint it writes holds the state
  after the last node that finished.
\<close>

section \<open>The saver and the values of a state\<close>

definition ALLOWED_MSGPACK_MODULES :: "(str \<times> str) list" where
  "ALLOWED_MSGPACK_MODULES =
     [(lit ''syndicate.state'', lit ''DecisionSummary''), (lit ''syndicate.state'', lit ''TicketStatus''),
      (lit ''syndicate.state'', lit ''RunStatus'')]"

record 'd saver =
  saver_put :: "str \<Rightarrow> dict \<Rightarrow> 'd \<Rightarrow> 'd"
  saver_get :: "str \<Rightarrow> 'd \<Rightarrow> dict option"

definition checkpointer_from_path :: "((str \<times> str) list \<Rightarrow> 'd saver) \<Rightarrow> 'd saver" where
  "checkpointer_from_path open_saver = open_saver ALLOWED_MSGPACK_MODULES"

text \<open>
  What \<open>lifespan\<close> of \<open>server/app.py\<close> puts into \<open>app.state\<close> when the server starts: the saver its graph
  is built with, and an empty registry.
\<close>

record 'd app_state =
  app_saver :: "'d saver"
  app_registry :: registry

definition lifespan :: "((str \<times> str) list \<Rightarrow> 'd saver) \<Rightarrow> 'd app_state" where
  "lifespan open_saver = \<lparr>app_saver = checkpointer_from_path open_saver, app_registry = new_registry\<rparr>"

text \<open>The classes of a value that are not built in.\<close>

fun classes_of :: "pyval \<Rightarrow> (str \<times> str) list" and classes_of_list :: "pyval list \<Rightarrow> (str \<times> str) list"
and classes_of_items :: "dict \<Rightarrow> (str \<times> str) list" where
  "classes_of (PSummary d) = [(lit ''syndicate.state'', lit ''DecisionSummary'')]"
| "classes_of (PTicketStatus t) = [(lit ''syndicate.state'', lit ''TicketStatus'')]"
| "classes_of (PRunStatus t) = [(lit ''syndicate.state'', lit ''RunStatus'')]"
| "classes_of (PList vs) = classes_of_list vs"
| "classes_of (PDict d) = classes_of_items d"
| "classes_of v = []"
| "classes_of_list [] = []"
| "classes_of_list (v # vs) = classes_of v @ classes_of_list vs"
| "classes_of_items [] = []"
| "classes_of_items ((k, v) # d) = classes_of v @ classes_of_items d"

definition saver_keeps :: "((str \<times> str) list \<Rightarrow> 'd saver) \<Rightarrow> bool" where
  "saver_keeps open_saver \<longleftrightarrow>
     (\<forall>allowed i values d. set (classes_of_items values) \<subseteq> set allowed \<longrightarrow>
        saver_get (open_saver allowed) i (saver_put (open_saver allowed) i values d) = Some values)
     \<and> (\<forall>allowed i j values d. i \<noteq> j \<longrightarrow>
        saver_get (open_saver allowed) j (saver_put (open_saver allowed) i values d) = saver_get (open_saver allowed) j d)"

text \<open>The state as a dict: the keys that are present.\<close>

definition opt_item :: "string \<Rightarrow> ('a \<Rightarrow> pyval) \<Rightarrow> 'a option \<Rightarrow> dict" where
  "opt_item k f x = (case x of None \<Rightarrow> [] | Some a \<Rightarrow> [(lit k, f a)])"

definition issue_dict :: "github_issue \<Rightarrow> dict" where
  "issue_dict i = opt_item ''repo'' PStr (gi_repo i) @ opt_item ''number'' PInt (gi_number i) @ opt_item ''title'' PStr (gi_title i)
     @ opt_item ''body'' PStr (gi_body i) @ opt_item ''workspace_dir'' PStr (gi_workspace_dir i)"

definition state_dict :: "agent_state \<Rightarrow> dict" where
  "state_dict s =
     opt_item ''issue'' (\<lambda>i. PDict (issue_dict i)) (issue s) @ opt_item ''issue_analysis'' PDict (issue_analysis s)
     @ opt_item ''active_ticket'' PDict (active_ticket s) @ opt_item ''attempt_log'' (\<lambda>l. PList (map PStr l)) (attempt_log s)
     @ opt_item ''decision_ledger'' (\<lambda>l. PList (map PSummary l)) (decision_ledger s)
     @ opt_item ''ticket_status'' PTicketStatus (ticket_status s)
     @ opt_item ''last_validation_passed'' PBool (last_validation_passed s) @ opt_item ''strike_count'' PInt (strike_count s)
     @ opt_item ''validation_diagnosis'' (\<lambda>d. case d of None \<Rightarrow> PNone | Some t \<Rightarrow> PStr t) (validation_diagnosis s)
     @ opt_item ''escalation_count'' PInt (escalation_count s) @ opt_item ''run_status'' PRunStatus (run_status s)"

text \<open>And back: the state a thread's stored values stand for. A thread that stores nothing has no key.\<close>

definition opt_of :: "string \<Rightarrow> (pyval \<Rightarrow> 'a) \<Rightarrow> dict \<Rightarrow> 'a option" where
  "opt_of k f d = map_option f (map_of d (lit k))"

definition str_in :: "pyval \<Rightarrow> str" where
  "str_in v = (case v of PStr t \<Rightarrow> t | _ \<Rightarrow> [])"

definition int_in :: "pyval \<Rightarrow> int" where
  "int_in v = (case v of PInt n \<Rightarrow> n | _ \<Rightarrow> 0)"

definition bool_in :: "pyval \<Rightarrow> bool" where
  "bool_in v = (case v of PBool b \<Rightarrow> b | _ \<Rightarrow> False)"

definition dict_in :: "pyval \<Rightarrow> dict" where
  "dict_in v = (case v of PDict d \<Rightarrow> d | _ \<Rightarrow> [])"

definition list_in :: "(pyval \<Rightarrow> 'a) \<Rightarrow> pyval \<Rightarrow> 'a list" where
  "list_in f v = (case v of PList vs \<Rightarrow> map f vs | _ \<Rightarrow> [])"

definition summary_in :: "pyval \<Rightarrow> decision_summary" where
  "summary_in v = (case v of PSummary e \<Rightarrow> e | _ \<Rightarrow> \<lparr>summary = [], attempt_count = 0\<rparr>)"

definition issue_of_dict :: "dict \<Rightarrow> github_issue" where
  "issue_of_dict d = \<lparr>gi_repo = opt_of ''repo'' str_in d, gi_number = opt_of ''number'' int_in d, gi_title = opt_of ''title'' str_in d,
     gi_body = opt_of ''body'' str_in d, gi_workspace_dir = opt_of ''workspace_dir'' str_in d\<rparr>"

definition state_of_dict :: "dict \<Rightarrow> agent_state" where
  "state_of_dict d =
     \<lparr>issue = opt_of ''issue'' (\<lambda>v. issue_of_dict (dict_in v)) d, issue_analysis = opt_of ''issue_analysis'' dict_in d,
      active_ticket = opt_of ''active_ticket'' dict_in d, attempt_log = opt_of ''attempt_log'' (list_in str_in) d,
      decision_ledger = opt_of ''decision_ledger'' (list_in summary_in) d,
      ticket_status = opt_of ''ticket_status'' (\<lambda>v. case v of PTicketStatus t \<Rightarrow> t | _ \<Rightarrow> PENDING) d,
      last_validation_passed = opt_of ''last_validation_passed'' bool_in d, strike_count = opt_of ''strike_count'' int_in d,
      validation_diagnosis = opt_of ''validation_diagnosis'' (\<lambda>v. case v of PStr t \<Rightarrow> Some t | _ \<Rightarrow> None) d,
      escalation_count = opt_of ''escalation_count'' int_in d,
      run_status = opt_of ''run_status'' (\<lambda>v. case v of PRunStatus t \<Rightarrow> t | _ \<Rightarrow> RUNNING) d\<rparr>"

section \<open>A run on a thread\<close>

definition stored_state :: "'d saver \<Rightarrow> str \<Rightarrow> 'd \<Rightarrow> agent_state" where
  "stored_state saver i d = (case saver_get saver i d of None \<Rightarrow> empty_state | Some values \<Rightarrow> state_of_dict values)"

definition over :: "'a option \<Rightarrow> 'a option \<Rightarrow> 'a option" where
  "over a b = (case b of None \<Rightarrow> a | Some x \<Rightarrow> Some x)"

definition overlay :: "agent_state \<Rightarrow> agent_state \<Rightarrow> agent_state" where
  \<comment> \<open>the keys that are present in \<open>input\<close> written over those of \<open>s\<close>\<close>
  "overlay s input =
     \<lparr>issue = over (issue s) (issue input), issue_analysis = over (issue_analysis s) (issue_analysis input),
      active_ticket = over (active_ticket s) (active_ticket input), attempt_log = over (attempt_log s) (attempt_log input),
      decision_ledger = over (decision_ledger s) (decision_ledger input), ticket_status = over (ticket_status s) (ticket_status input),
      last_validation_passed = over (last_validation_passed s) (last_validation_passed input),
      strike_count = over (strike_count s) (strike_count input),
      validation_diagnosis = over (validation_diagnosis s) (validation_diagnosis input),
      escalation_count = over (escalation_count s) (escalation_count input), run_status = over (run_status s) (run_status input)\<rparr>"

type_synonym ('w, 'd) engine =
  "'d saver \<Rightarrow> 'w node_env \<Rightarrow> str \<Rightarrow> agent_state \<Rightarrow> 'w \<times> 'd \<Rightarrow> (node_name \<times> delta) list \<times> outcome \<times> agent_state \<times> 'w \<times> 'd"

fun put_all :: "'d saver \<Rightarrow> str \<Rightarrow> dict list \<Rightarrow> 'd \<Rightarrow> 'd" where
  "put_all saver i [] d = d"
| "put_all saver i (values # vs) d = put_all saver i vs (saver_put saver i values d)"

definition langgraph_persists :: "('w, 'd) engine \<Rightarrow> bool" where
  "langgraph_persists engine \<longleftrightarrow>
     (\<forall>saver E i input w d. \<exists>written.
        case run_graph E RECURSION_LIMIT (overlay (stored_state saver i d) input) w of
          (us, out, s', w') \<Rightarrow>
            engine saver E i input (w, d) = (us, out, s', w', put_all saver i (written @ [state_dict s']) d))"

section \<open>verify_checkpoint_roundtrip.py\<close>

definition write_environ :: "environ \<Rightarrow> environ" where
  "write_environ env = setdefault ''SYNDICATE_MOCK_CLIENT'' ''1'' env"

text \<open>\<open>await graph.ainvoke({}, config)\<close>; what the script prints of the result is left out.\<close>

definition do_write ::
  "(('h, 'l) sys_world, 'd) engine \<Rightarrow> ((str \<times> str) list \<Rightarrow> 'd saver) \<Rightarrow> (int \<Rightarrow> bool) \<Rightarrow> 'h http \<Rightarrow> ('l, 'l llm_client) prog
   \<Rightarrow> environ \<Rightarrow> int \<Rightarrow> str \<Rightarrow> (('h, 'l) sys_world \<times> 'd, unit) prog" where
  "do_write engine open_saver P h anthropic env max_escalations thread_id wd =
     (case engine (checkpointer_from_path open_saver) (system_env P h anthropic (write_environ env) max_escalations)
             thread_id empty_state wd of
        (us, out, final, wd') \<Rightarrow>
          (case out of
             Finished \<Rightarrow> Inr ()
           | Raised e \<Rightarrow> Inl e
           | Out_of_steps \<Rightarrow> Inl (ExternalError (lit ''Recursion limit reached'')), wd'))"

fun is_summary :: "pyval \<Rightarrow> bool" where
  "is_summary (PSummary d) = True"
| "is_summary v = False"

definition do_read :: "((str \<times> str) list \<Rightarrow> 'd saver) \<Rightarrow> str \<Rightarrow> ('w \<times> 'd, unit) prog" where
  "do_read open_saver thread_id wd =
     (case saver_get (checkpointer_from_path open_saver) thread_id (snd wd) of
        None \<Rightarrow> raise (AssertionError (lit ''no checkpointed state found'')) wd
      | Some values \<Rightarrow>
          bnd (of_result (py_iter (py_or (dget values ''decision_ledger'') (PList [])))) (\<lambda>ledger.
          bnd (py_assert (list_all is_summary ledger) ''expected a real DecisionSummary instance after round-trip'') (\<lambda>_.
            py_assert (dget values ''attempt_log'' = PList [])
              ''expected attempt_log cleared post-advance, as pre-persistence'')) wd)"

text \<open>Importing \<open>syndicate.nodes\<close> reads the escalation budget before anything else happens.\<close>

definition checkpoint_main ::
  "(('h, 'l) sys_world, 'd) engine \<Rightarrow> ((str \<times> str) list \<Rightarrow> 'd saver) \<Rightarrow> (int \<Rightarrow> bool) \<Rightarrow> 'h http \<Rightarrow> ('l, 'l llm_client) prog \<Rightarrow> environ
   \<Rightarrow> str list \<Rightarrow> (('h, 'l) sys_world \<times> 'd, int) prog" where
  "checkpoint_main engine open_saver P h anthropic env argv =
     bnd (of_result (max_escalations_of env)) (\<lambda>m.
       case argv of
         [script, mode, thread_id, db_path] \<Rightarrow>
           if mode = lit ''write'' then bnd (do_write engine open_saver P h anthropic env m thread_id) (\<lambda>_. ret 0)
           else if mode = lit ''read'' then bnd (do_read open_saver thread_id) (\<lambda>_. ret 0)
           else ret 2
       | _ \<Rightarrow> ret 2)"

section \<open>What comes back\<close>

lemma classes_allowed:
  "set (classes_of v) \<subseteq> set ALLOWED_MSGPACK_MODULES" "set (classes_of_list vs) \<subseteq> set ALLOWED_MSGPACK_MODULES"
  "set (classes_of_items d) \<subseteq> set ALLOWED_MSGPACK_MODULES"
  by (induction v and vs and d rule: classes_of_classes_of_list_classes_of_items.induct)
     (simp_all add: ALLOWED_MSGPACK_MODULES_def)

lemma map_of_opt_item [simp]:
  "map_of (opt_item k f x) (lit j) = (if j = k then map_option f x else None)"
  "map_of (opt_item k f x @ d) (lit j) = (if j = k \<and> x \<noteq> None then map_option f x else map_of d (lit j))"
  by (auto simp: opt_item_def split: option.splits)

lemma state_dict_reads:
  "map_of (state_dict s) (lit ''attempt_log'') = map_option (\<lambda>l. PList (map PStr l)) (attempt_log s)"
  "map_of (state_dict s) (lit ''decision_ledger'') = map_option (\<lambda>l. PList (map PSummary l)) (decision_ledger s)"
  by (auto simp: state_dict_def simp del: map_of_append)

lemma opt_of_item [simp]:
  "opt_of j g (opt_item k f x) = (if j = k then map_option (\<lambda>a. g (f a)) x else None)"
  "opt_of j g (opt_item k f x @ d) = (if j = k \<and> x \<noteq> None then map_option (\<lambda>a. g (f a)) x else opt_of j g d)"
  by (auto simp: opt_of_def option.map_comp comp_def simp del: map_of_append)

lemma list_in_map: "(\<And>x. g (f x) = x) \<Longrightarrow> list_in g (PList (map f xs)) = xs"
  by (simp add: list_in_def map_idI)

lemma in_simps [simp]:
  "str_in (PStr t) = t" "int_in (PInt n) = n" "bool_in (PBool b) = b" "dict_in (PDict d) = d" "summary_in (PSummary e) = e"
  by (simp_all add: str_in_def int_in_def bool_in_def dict_in_def summary_in_def)

lemma issue_of_issue_dict: "issue_of_dict (issue_dict i) = i"
  by (cases i) (simp add: issue_of_dict_def issue_dict_def map_option.identity [unfolded id_def])

lemma diagnosis_in: "(case (case x of None \<Rightarrow> PNone | Some t \<Rightarrow> PStr t) of PStr t \<Rightarrow> Some t | _ \<Rightarrow> None) = x"
  by (cases x) simp_all

lemma state_of_state_dict: "state_of_dict (state_dict s) = s"
  by (cases s) (simp add: state_of_dict_def state_dict_def issue_of_issue_dict list_in_map diagnosis_in
      map_option.identity [unfolded id_def])

lemma overlay_empty [simp]: "overlay empty_state s = s" "overlay s empty_state = s"
  by (cases s, simp add: overlay_def over_def empty_state_def split: option.split)+

lemma stored_unknown: "saver_get saver i d \<in> {None, Some []} \<Longrightarrow> stored_state saver i d = empty_state"
  using state_of_state_dict [of empty_state]
  by (auto simp: stored_state_def) (simp add: state_dict_def empty_state_def opt_item_def)

lemma saver_roundtrip:
  "saver_keeps open_saver \<Longrightarrow>
   saver_get (checkpointer_from_path open_saver) i (saver_put (checkpointer_from_path open_saver) i (state_dict s) d) = Some (state_dict s)"
  using classes_allowed(3) unfolding saver_keeps_def checkpointer_from_path_def by blast

lemma put_all_append: "put_all saver i (vs @ us) d = put_all saver i us (put_all saver i vs d)"
  by (induction vs arbitrary: d) simp_all

lemma put_all_others:
  assumes "saver_keeps open_saver" and "i \<noteq> j"
  shows "saver_get (checkpointer_from_path open_saver) j (put_all (checkpointer_from_path open_saver) i vs d)
    = saver_get (checkpointer_from_path open_saver) j d"
proof (induction vs arbitrary: d)
  case (Cons v vs)
  have "saver_get (checkpointer_from_path open_saver) j (saver_put (checkpointer_from_path open_saver) i v d)
      = saver_get (checkpointer_from_path open_saver) j d"
    using assms unfolding saver_keeps_def checkpointer_from_path_def by blast
  with Cons.IH show ?case by simp
qed simp

text \<open>The two hypotheses together: what a run leaves on its thread is read back as it was.\<close>

lemma engine_run:
  assumes "saver_keeps open_saver" and "langgraph_persists engine"
    and "run_graph E RECURSION_LIMIT (overlay (stored_state (checkpointer_from_path open_saver) i d) input) w = (us, out, s', w')"
  obtains d' where "engine (checkpointer_from_path open_saver) E i input (w, d) = (us, out, s', w', d')"
    and "saver_get (checkpointer_from_path open_saver) i d' = Some (state_dict s')"
    and "stored_state (checkpointer_from_path open_saver) i d' = s'"
    and "\<forall>j. j \<noteq> i \<longrightarrow> saver_get (checkpointer_from_path open_saver) j d' = saver_get (checkpointer_from_path open_saver) j d"
proof -
  let ?S = "checkpointer_from_path open_saver"
  have "\<exists>written. engine ?S E i input (w, d) = (us, out, s', w', put_all ?S i (written @ [state_dict s']) d)"
    using assms(2) [unfolded langgraph_persists_def, rule_format, where saver = ?S and E = E and i = i and input = input and w = w and d = d]
    by (simp add: assms(3))
  then obtain written where e: "engine ?S E i input (w, d) = (us, out, s', w', put_all ?S i (written @ [state_dict s']) d)" by blast
  have g: "saver_get ?S i (put_all ?S i (written @ [state_dict s']) d) = Some (state_dict s')"
    by (simp add: put_all_append saver_roundtrip [OF assms(1)])
  then have st: "stored_state ?S i (put_all ?S i (written @ [state_dict s']) d) = s'"
    by (simp add: stored_state_def state_of_state_dict)
  show thesis by (rule that [OF e g st]) (auto intro!: put_all_others [OF assms(1)])
qed

lemma run_from_folds:
  "run_from E k n s w = (us, out, s', w') \<Longrightarrow> s' = foldl (\<lambda>s u. merge s (snd u)) s us"
  by (induction E k n s w arbitrary: us rule: run_from.induct) (auto split: prod.splits sum.splits option.splits)

lemma merge_keeps_ticket: "active_ticket s \<noteq> None \<Longrightarrow> active_ticket (merge s d) \<noteq> None"
proof (induction d arbitrary: s)
  case (Cons u d)
  then show ?case by (cases u) simp_all
qed simp

lemma folds_keep_ticket: "active_ticket s \<noteq> None \<Longrightarrow> active_ticket (foldl (\<lambda>s u. merge s (snd u)) s us) \<noteq> None"
  by (induction us arbitrary: s) (simp_all add: merge_keeps_ticket del: not_None_eq)

lemma map_of_redact_items: "map_of (redact_items d) k = map_option redact_value (map_of d k)"
  by (induction d) auto

lemma map_of_set_item: "map_of (set_item k v d) j = (if j = k then Some v else map_of d j)"
  by (induction d) auto

lemma redact_values_map: "redact_values vs = map redact_value vs"
  by (induction vs) simp_all

lemma ledger_read:
  "py_iter (py_or (dget (state_dict s) ''decision_ledger'') (PList [])) = Inr (map PSummary (ledger_of s))"
  by (auto simp: dget_def state_dict_reads ledger_of_def py_or_def split: option.splits)

text \<open>What a client is to see of a state: its keys as they are, and always a ledger, as JSON objects.\<close>

definition state_json :: "agent_state \<Rightarrow> dict" where
  "state_json s = state_dict (s\<lparr>decision_ledger := None\<rparr>)
     @ [(lit ''decision_ledger'', PList (map (\<lambda>e. PDict (asdict e)) (ledger_of s)))]"

lemma map_of_opt_item_at:
  "map_of (opt_item j f x @ d) k = (if k = lit j \<and> x \<noteq> None then map_option f x else map_of d k)"
  "map_of (opt_item j f x) k = (if k = lit j \<and> x \<noteq> None then map_option f x else None)"
  by (auto simp: opt_item_def split: option.splits)

lemma state_json_map:
  "map_of (set_item (lit ''decision_ledger'') (PList (map (\<lambda>e. PDict (asdict e)) (ledger_of s))) (state_dict s)) k
   = map_of (state_json s) k"
proof (cases "k = lit ''decision_ledger''")
  case True
  then show ?thesis by (simp add: map_of_set_item state_json_def state_dict_def del: map_of_append)
next
  case False
  then show ?thesis
    by (simp add: map_of_set_item state_json_def state_dict_def map_of_opt_item_at del: map_of_append map_of_opt_item)
qed

lemma state_json_reads:
  "map_of (state_json s) (lit ''decision_ledger'') = Some (PList (map (\<lambda>e. PDict (asdict e)) (ledger_of s)))"
  "map_of (state_json s) (lit ''ticket_status'') = map_option PTicketStatus (ticket_status s)"
  unfolding state_json_map [symmetric] by (simp_all add: map_of_set_item) (simp add: state_dict_def del: map_of_append)

lemma build_initial_state_ticket: "active_ticket (build_initial_state i raw) \<noteq> None"
  by (simp add: build_initial_state_def)

lemma get_run_state_of_dict:
  assumes "active_ticket s \<noteq> None"
  shows "\<exists>body. get_run_state P i (Some (state_dict s)) = Inr (Reply 200 (PDict body))
    \<and> (\<forall>k. map_of body k = map_option redact_value (map_of (state_json s) k))"
proof -
  let ?L = "PList (map (\<lambda>e. PDict (asdict e)) (ledger_of s))"
  have "state_dict s \<noteq> []" using assms by (auto simp: state_dict_def opt_item_def)
  then have "get_run_state P i (Some (state_dict s))
      = Inr (Reply 200 (PDict (redact_items (set_item (lit ''decision_ledger'') ?L (state_dict s)))))"
    by (simp add: get_run_state_def ledger_read comp_def)
  then show ?thesis by (simp add: map_of_redact_items state_json_map)
qed

section \<open>The script in mock mode\<close>

lemma sys_mock_action [simp]:
  "rc_is_mock (sys_mock_client P)"
  "rc_run_action (sys_mock_client P) a c t w = (Inr \<lparr>exit_code = 0, output = lit ''[mock] '' @ py_str P a\<rparr>, w)"
  by (simp_all add: sys_mock_client_def on_mock_def mock_run_action_def)

lemma sys_mock_run:
  assumes "env (lit ''SYNDICATE_MOCK_CLIENT'') = Some (lit ''1'')"
  shows "case run_graph (system_env P h anthropic env m) 25 empty_state w of
     (us, out, s', w') \<Rightarrow> out = Finished \<and> issue s' = None \<and> active_ticket s' = Some stub_ticket \<and> dispatch_router s' = None"
proof -
  have c: "ne_get_runtime_client (system_env P h anthropic env m) w = (Inr (sys_mock_client P), w\<lparr>sw_mock := Map.empty\<rparr>)" for w
    by (simp add: system_env_def get_runtime_client_mock [where env = env, OF assms])
  show ?thesis
  by (simp add: run_graph_def eval_nat_numeral entry_point_def empty_state_def analyzer_node_def
        architect_node_def dispatch_node_def dispatch_router_def executor_node_def validator_node_def
        c DUMMY_ACTIONS_def oversight_git_node_def git_run_def git_commands
        validator_router_def oversight_git_router_def advance_node_def
        ticket_of_def log_of_def ledger_of_def strikes_def validated_def stub_ticket_def files_of_def dget_def py_or_def
        workspace_of_def prog_simps split_beta Let_def)
qed

lemma fresh_graph_run:
  assumes "run_graph E k empty_state w = (us, Finished, s', w')"
  shows "attempt_log s' = Some []"
  using finished_run_one_decision [OF assms fresh_empty] by blast

lemma do_read_passes:
  assumes "saver_get (checkpointer_from_path open_saver) i d = Some (state_dict s)" and "attempt_log s = Some []"
  shows "do_read open_saver i (w, d) = (Inr (), (w, d))"
proof -
  have "list_all is_summary (map PSummary ds)" for ds by (induction ds) simp_all
  moreover have "dget (state_dict s) ''attempt_log'' = PList []"
    using assms(2) by (simp add: dget_def state_dict_reads)
  ultimately show ?thesis using assms(1) by (simp add: do_read_def ledger_read)
qed

lemma settled_run:
  assumes "issue s = None" and "active_ticket s = Some t" and "t \<noteq> []" and "dispatch_router s = None"
  shows "\<exists>us. run_graph E RECURSION_LIMIT s w = (us, Finished, s, w)"
proof -
  have e: "s\<lparr>active_ticket := Some t\<rparr> = s" using assms(2) by (cases s) simp
  show ?thesis
    by (simp add: assms e run_graph_def RECURSION_LIMIT_def eval_nat_numeral entry_point_def analyzer_node_def architect_node_def
        dispatch_node_def ticket_of_def)
qed

lemma write_environ_mock:
  "env (lit ''SYNDICATE_MOCK_CLIENT'') \<in> {None, Some (lit ''1'')} \<Longrightarrow> write_environ env (lit ''SYNDICATE_MOCK_CLIENT'') = Some (lit ''1'')"
  by (auto simp: write_environ_def setdefault_def)

section \<open>Properties\<close>

text \<open>
  C26: the two processes of \<open>verify_checkpoint_roundtrip.py\<close> both exit 0 on a thread of their own. Take a
  saver that keeps what its allow-list admits, an engine that persists what it runs, and a database that
  holds nothing of the thread. A \<open>write\<close> in mock mode runs the graph to a state and returns; a \<open>read\<close> of
  the thread on the database it left, in a process with any environment, passes: real \<open>DecisionSummary\<close>
  entries and a cleared log; the thread stores exactly that state, and other threads are as they were.
  A second \<open>write\<close> resumes the thread: it ends in the state that is stored, and a \<open>read\<close> passes again.
  On a thread that stores another state the script promises nothing, since the graph goes on from there.
\<close>

theorem checkpoint_roundtrip:
  assumes "saver_keeps open_saver" and "langgraph_persists engine"
    and "saver_get (checkpointer_from_path open_saver) i d \<in> {None, Some []}"
    and "env (lit ''SYNDICATE_MOCK_CLIENT'') \<in> {None, Some (lit ''1'')}"
    and "max_escalations_of env = Inr m" and "max_escalations_of env2 = Inr m2"
  shows "\<exists>us s' w' d'. run_graph (system_env P h anthropic (write_environ env) m) RECURSION_LIMIT empty_state w = (us, Finished, s', w')
    \<and> checkpoint_main engine open_saver P h anthropic env [script, lit ''write'', i, db] (w, d) = (Inr 0, (w', d'))
    \<and> saver_get (checkpointer_from_path open_saver) i d' = Some (state_dict s') \<and> state_of_dict (state_dict s') = s'
    \<and> (\<forall>w2. checkpoint_main engine open_saver P2 h2 anthropic2 env2 [script, lit ''read'', i, db] (w2, d') = (Inr 0, (w2, d')))
    \<and> (\<forall>j. j \<noteq> i \<longrightarrow> saver_get (checkpointer_from_path open_saver) j d' = saver_get (checkpointer_from_path open_saver) j d)
    \<and> (\<forall>w2. \<exists>d2. checkpoint_main engine open_saver P h anthropic env [script, lit ''write'', i, db] (w2, d') = (Inr 0, (w2, d2))
        \<and> saver_get (checkpointer_from_path open_saver) i d2 = Some (state_dict s')
        \<and> (\<forall>w3. checkpoint_main engine open_saver P2 h2 anthropic2 env2 [script, lit ''read'', i, db] (w3, d2) = (Inr 0, (w3, d2))))"
proof -
  let ?E = "system_env P h anthropic (write_environ env) m" and ?S = "checkpointer_from_path open_saver"
  obtain us s' w' where r: "run_graph ?E RECURSION_LIMIT empty_state w = (us, Finished, s', w')"
    and s': "issue s' = None" "active_ticket s' = Some stub_ticket" "dispatch_router s' = None"
    using sys_mock_run [of "write_environ env" P h anthropic m w] write_environ_mock [of env] assms(4) by (auto simp: RECURSION_LIMIT_def split: prod.splits)
  have "run_graph ?E RECURSION_LIMIT (overlay (stored_state ?S i d) empty_state) w = (us, Finished, s', w')"
    using r by (simp add: stored_unknown [OF assms(3)])
  from engine_run [OF assms(1,2) this] obtain d' where d': "engine ?S ?E i empty_state (w, d) = (us, Finished, s', w', d')"
    "saver_get ?S i d' = Some (state_dict s')" "stored_state ?S i d' = s'" "\<forall>j. j \<noteq> i \<longrightarrow> saver_get ?S j d' = saver_get ?S j d"
    by metis
  have rd: "checkpoint_main engine open_saver P2 h2 anthropic2 env2 [script, lit ''read'', i, db] (w2, e) = (Inr 0, (w2, e))"
    if "saver_get ?S i e = Some (state_dict s')" for w2 e
    using assms(6) do_read_passes [OF that fresh_graph_run [OF r], of w2] by (simp add: checkpoint_main_def bnd_app)
  have again: "\<exists>d2. checkpoint_main engine open_saver P h anthropic env [script, lit ''write'', i, db] (w2, d') = (Inr 0, (w2, d2))
      \<and> saver_get ?S i d2 = Some (state_dict s')" for w2
  proof -
    obtain us2 where "run_graph ?E RECURSION_LIMIT s' w2 = (us2, Finished, s', w2)"
      using settled_run [OF s'(1,2) _ s'(3), of ?E w2] by (auto simp: stub_ticket_def)
    then have "run_graph ?E RECURSION_LIMIT (overlay (stored_state ?S i d') empty_state) w2 = (us2, Finished, s', w2)"
      by (simp add: d'(3))
    from engine_run [OF assms(1,2) this] obtain d2 where "engine ?S ?E i empty_state (w2, d') = (us2, Finished, s', w2, d2)"
      "saver_get ?S i d2 = Some (state_dict s')" by metis
    with assms(5) show ?thesis by (simp add: checkpoint_main_def do_write_def bnd_app)
  qed
  have wr: "checkpoint_main engine open_saver P h anthropic env [script, lit ''write'', i, db] (w, d) = (Inr 0, (w', d'))"
    using assms(5) d'(1) by (simp add: checkpoint_main_def do_write_def bnd_app)
  have "\<forall>w2. \<exists>d2. checkpoint_main engine open_saver P h anthropic env [script, lit ''write'', i, db] (w2, d') = (Inr 0, (w2, d2))
      \<and> saver_get ?S i d2 = Some (state_dict s')
      \<and> (\<forall>w3. checkpoint_main engine open_saver P2 h2 anthropic2 env2 [script, lit ''read'', i, db] (w3, d2) = (Inr 0, (w3, d2)))"
    using again rd by meson
  then show ?thesis
    by (intro exI conjI) (rule r wr d'(2) state_of_state_dict d'(4) | assumption | intro allI rd d'(2))+
qed

text \<open>A saver that drops a state with a class it does not know, and an engine that writes the last state only.\<close>

definition strict_saver :: "(str \<times> str) list \<Rightarrow> (str \<Rightarrow> dict option) saver" where
  "strict_saver allowed =
     \<lparr>saver_put = (\<lambda>i values d. d(i := if set (classes_of_items values) \<subseteq> set allowed then Some values else None)),
      saver_get = (\<lambda>i d. d i)\<rparr>"

lemma strict_saver_keeps: "saver_keeps strict_saver"
  by (simp add: saver_keeps_def strict_saver_def)

definition last_engine :: "('w, 'd) engine" where
  "last_engine saver E i input wd =
     (case run_graph E RECURSION_LIMIT (overlay (stored_state saver i (snd wd)) input) (fst wd) of
        (us, out, s', w') \<Rightarrow> (us, out, s', w', saver_put saver i (state_dict s') (snd wd)))"

lemma last_engine_persists: "langgraph_persists last_engine"
  unfolding langgraph_persists_def
  by (intro allI exI [of _ "[]"]) (simp add: last_engine_def split: prod.splits)

theorem checkpoint_roundtrip_witness:
  "\<exists>w' d'. checkpoint_main last_engine strict_saver (\<lambda>_. True) calm_http (raise (ExternalError [])) Map.empty [[], lit ''write'', lit ''t'', []]
       (typed_world, Map.empty) = (Inr 0, (w', d'))
     \<and> checkpoint_main last_engine strict_saver (\<lambda>_. True) calm_http (raise (ExternalError [])) Map.empty [[], lit ''read'', lit ''t'', []]
       (typed_world, d') = (Inr 0, (typed_world, d'))"
proof -
  have m: "max_escalations_of Map.empty = Inr 3" by (simp add: max_escalations_of_def)
  have e: "(Map.empty :: environ) (lit ''SYNDICATE_MOCK_CLIENT'') \<in> {None, Some (lit ''1'')}" by simp
  have u: "saver_get (checkpointer_from_path strict_saver) (lit ''t'') Map.empty \<in> {None, Some []}"
    by (simp add: checkpointer_from_path_def strict_saver_def)
  from checkpoint_roundtrip [OF strict_saver_keeps last_engine_persists u e m m, of "\<lambda>_. True" calm_http "raise (ExternalError [])"
      typed_world "[]" "[]" "\<lambda>_. True" calm_http "raise (ExternalError [])"]
  show ?thesis by blast
qed

text \<open>
  C25: a restarted server still answers for a run. Take a saver that keeps what its allow-list admits, an
  engine that persists what it runs, and a run that the API started, on a thread of its own. Whatever the
  sandbox and the model did, and however the run ended, the state route of a server that starts
  afterwards, whose registry knows no run, answers 200 with the state after the last node that finished:
  every key of it and no other, redacted, the ledger as JSON objects and present even when nothing was
  decided.
\<close>

theorem restart_serves_last_state:
  assumes "saver_keeps open_saver" and "langgraph_persists engine"
    and "saver_get (checkpointer_from_path open_saver) i d \<in> {None, Some []}"
    and "run_graph E RECURSION_LIMIT (build_initial_state i raw) w = (us, out, s', w')"
  shows "\<exists>d' body. engine (app_saver (lifespan open_saver)) E i (build_initial_state i raw) (w, d) = (us, out, s', w', d')
    \<and> get_record i (app_registry (lifespan open_saver)) = None
    \<and> get_run_state P i (saver_get (app_saver (lifespan open_saver)) i d') = Inr (Reply 200 (PDict body))
    \<and> (\<forall>k. map_of body k = map_option redact_value (map_of (state_json s') k))
    \<and> dget body ''decision_ledger'' = PList (map (\<lambda>e. redact_value (PDict (asdict e))) (ledger_of s'))
    \<and> dget body ''ticket_status'' =
        (case ticket_status s' of None \<Rightarrow> PNone | Some t \<Rightarrow> PStr (redact_text (ticket_status_value t)))"
proof -
  let ?S = "checkpointer_from_path open_saver"
  have "run_graph E RECURSION_LIMIT (overlay (stored_state ?S i d) (build_initial_state i raw)) w = (us, out, s', w')"
    using assms(4) by (simp add: stored_unknown [OF assms(3)])
  from engine_run [OF assms(1,2) this] obtain d' where d': "engine ?S E i (build_initial_state i raw) (w, d) = (us, out, s', w', d')"
    "saver_get ?S i d' = Some (state_dict s')" by metis
  have "s' = foldl (\<lambda>s u. merge s (snd u)) (build_initial_state i raw) us"
    using run_from_folds [of E RECURSION_LIMIT entry_point "build_initial_state i raw" w us out s' w'] assms(4) by (simp add: run_graph_def)
  then have "active_ticket s' \<noteq> None" using folds_keep_ticket by (metis build_initial_state_ticket)
  from get_run_state_of_dict [OF this, of P i] obtain body where b: "get_run_state P i (Some (state_dict s')) = Inr (Reply 200 (PDict body))"
    "\<forall>k. map_of body k = map_option redact_value (map_of (state_json s') k)" by blast
  from b(2) have "dget body ''decision_ledger'' = PList (map (\<lambda>e. redact_value (PDict (asdict e))) (ledger_of s'))"
    "dget body ''ticket_status'' = (case ticket_status s' of None \<Rightarrow> PNone | Some t \<Rightarrow> PStr (redact_text (ticket_status_value t)))"
    by (simp_all add: dget_def state_json_reads redact_values_map comp_def split: option.split)
  with b d' show ?thesis by (simp add: lifespan_def new_registry_def get_record_def)
qed

theorem restart_serves_last_state_witness:
  "\<exists>us out s' w' d' body. last_engine (app_saver (lifespan strict_saver))
       (system_env (\<lambda>_. True) calm_http (raise (ExternalError [])) calm_environ 3) (lit ''t'') (build_initial_state (lit ''t'') (lit ''fix'')) (typed_world, Map.empty)
       = (us, out, s', w', d')
     \<and> get_run_state (\<lambda>_. True) (lit ''t'') (saver_get (app_saver (lifespan strict_saver)) (lit ''t'') d') = Inr (Reply 200 (PDict body))
     \<and> dget body ''decision_ledger'' = PList (map (\<lambda>e. redact_value (PDict (asdict e))) (ledger_of s'))"
proof -
  let ?E = "system_env (\<lambda>_. True) calm_http (raise (ExternalError [])) calm_environ 3" and ?s = "build_initial_state (lit ''t'') (lit ''fix'')"
  obtain us out s' w' where r: "run_graph ?E RECURSION_LIMIT ?s typed_world = (us, out, s', w')" by (metis prod_cases4)
  have u: "saver_get (checkpointer_from_path strict_saver) (lit ''t'') Map.empty \<in> {None, Some []}"
    by (simp add: checkpointer_from_path_def strict_saver_def)
  from restart_serves_last_state [OF strict_saver_keeps last_engine_persists u r, of "\<lambda>_. True"] show ?thesis by blast
qed

end
