(* ===== verification/Local_Git.thy ===== *)
theory Local_Git
  imports Oversight
begin

text \<open>
  The two git doubles of \<open>tests/conftest.py\<close> and what the tests use them for.
  \<open>LocalGitRuntimeClient\<close> runs every command as a subprocess; the shell and the git it starts are the
  parameter \<open>spawn\<close>, whose answer is the return code and the bytes of the joined output.
  \<open>LyingCommitRuntimeClient\<close> claims that a commit succeeded without running it. The node under test
  does not believe it: its check of HEAD turns the claim into a strike.
\<close>

section \<open>The clients\<close>

type_synonym 'w spawn = "str \<Rightarrow> pyval \<Rightarrow> ('w, int option \<times> int list) prog"

record 'w local_git =
  lg_commands :: "pyval list"
  lg_machine :: 'w

definition log_command :: "pyval \<Rightarrow> ('w local_git, unit) prog" where
  "log_command action = (\<lambda>w. (Inr (), w\<lparr>lg_commands := lg_commands w @ [action]\<rparr>))"

definition on_machine :: "('w, 'a) prog \<Rightarrow> ('w local_git, 'a) prog" where
  "on_machine m = (\<lambda>w. case m (lg_machine w) of (r, v) \<Rightarrow> (r, w\<lparr>lg_machine := v\<rparr>))"

text \<open>\<open>proc.returncode or 0\<close>: a missing code counts as success, as 0 does.\<close>

definition local_run_action ::
  "'w spawn \<Rightarrow> pyval \<Rightarrow> pyval \<Rightarrow> rat option \<Rightarrow> ('w local_git, action_result) prog" where
  "local_run_action spawn action cwd timeout =
     bnd (log_command action) (\<lambda>_.
       case action of
         PStr a \<Rightarrow> bnd (on_machine (spawn a cwd)) (\<lambda>(returncode, stdout).
           ret \<lparr>exit_code = (case returncode of None \<Rightarrow> 0 | Some c \<Rightarrow> c), output = py_decode_replace stdout\<rparr>)
       | _ \<Rightarrow> raise (ValueError (lit ''cmd must be a string'')))"

definition local_git_client :: "'w spawn \<Rightarrow> 'w local_git runtime_client" where
  "local_git_client spawn = \<lparr>rc_is_mock = False, rc_run_action = local_run_action spawn,
     rc_read_file = (\<lambda>_. raise (ExternalError (lit ''NotImplementedError''))),
     rc_write_file = (\<lambda>_ _. raise (ExternalError (lit ''NotImplementedError''))),
     rc_edit_file = (\<lambda>_ _ _. raise (ExternalError (lit ''NotImplementedError''))),
     rc_aclose = ret ()\<rparr>"

definition lying_run_action ::
  "'w spawn \<Rightarrow> pyval \<Rightarrow> pyval \<Rightarrow> rat option \<Rightarrow> ('w local_git, action_result) prog" where
  "lying_run_action spawn action cwd timeout =
     (case action of
        PStr a \<Rightarrow>
          if is_prefix (lit ''git commit'') a
          then bnd (log_command action) (\<lambda>_.
            ret \<lparr>exit_code = 0, output = lit ''[lying] pretending to commit''\<rparr>)
          else local_run_action spawn action cwd timeout
      | _ \<Rightarrow> raise (AttributeError (lit ''object has no attribute startswith'')))"

definition lying_client :: "'w spawn \<Rightarrow> 'w local_git runtime_client" where
  "lying_client spawn = (local_git_client spawn)\<lparr>rc_run_action := lying_run_action spawn\<rparr>"

section \<open>A commit that is only claimed\<close>

text \<open>
  What is used of git: what \<open>git rev-parse HEAD\<close> answers is a function \<open>head\<close> of the machine, and
  neither asking for it nor staging paths changes it.
\<close>

definition reads_head :: "'w spawn \<Rightarrow> pyval \<Rightarrow> ('w \<Rightarrow> int option \<times> int list) \<Rightarrow> bool" where
  "reads_head spawn cwd head \<longleftrightarrow>
     (\<forall>v a v'. spawn CMD_HEAD cwd v = (Inr a, v') \<longrightarrow> a = head v \<and> head v' = head v)
     \<and> (\<forall>paths v a v'. spawn (cmd_add paths) cwd v = (Inr a, v') \<longrightarrow> head v' = head v)"

lemma lying_passes_on:
  assumes "\<not> is_prefix (lit ''git commit'') a" and "rc_run_action (lying_client spawn) (PStr a) cwd None w = (Inr r, w')"
  obtains x where "spawn a cwd (lg_machine w) = (Inr x, lg_machine w')"
    and "r = \<lparr>exit_code = (case fst x of None \<Rightarrow> 0 | Some c \<Rightarrow> c), output = py_decode_replace (snd x)\<rparr>"
  using assms
  by (auto simp: lying_client_def lying_run_action_def local_run_action_def log_command_def on_machine_def bnd_app
        split: prod.splits sum.splits)

lemma lying_commit_runs_nothing:
  "rc_run_action (lying_client spawn) (PStr (cmd_commit m)) cwd None w = (Inr r, w') \<Longrightarrow> lg_machine w' = lg_machine w"
  by (auto simp: lying_client_def lying_run_action_def log_command_def cmd_commit_def lit_def bnd_app)

lemma not_commit: "\<not> is_prefix (lit ''git commit'') CMD_HEAD" "\<not> is_prefix (lit ''git commit'') (cmd_add paths)"
  by (simp_all add: CMD_HEAD_def cmd_add_def lit_def)

text \<open>
  Against such a client the node never reports \<open>DONE\<close>: a ticket that declares files costs a strike,
  as \<open>test_oversight_git.py\<close> expects of one repository.
\<close>

lemma lying_commit_never_done:
  assumes "oversight_git_node E s w = (Inr d, w')" and "ne_get_runtime_client E = ret (lying_client spawn)"
    and "reads_head spawn (workspace_of (ticket_of s)) head" and "ticket_status s \<noteq> Some DONE"
  shows "ticket_status (merge s d) \<noteq> Some DONE"
proof
  let ?cwd = "workspace_of (ticket_of s)" and ?c = "lying_client spawn"
  assume "ticket_status (merge s d) = Some DONE"
  with assms(1,4) have "commit_landed E s w w'" by (intro done_commit_landed)
  then obtain pre paths rb ra rc rh w0 where
    "executed ?c ?cwd (pre @ [(CMD_HEAD, rb), (cmd_add paths, ra), (cmd_commit (commit_message E s), rc), (CMD_HEAD, rh)]) w0 w'"
    and moved: "head_of rh \<noteq> head_of rb"
    by (auto simp: commit_landed_def assms(2))
  then obtain w1 w2 w3 w4 where
    b: "rc_run_action ?c (PStr CMD_HEAD) ?cwd None w1 = (Inr rb, w2)"
    and a: "rc_run_action ?c (PStr (cmd_add paths)) ?cwd None w2 = (Inr ra, w3)"
    and m: "rc_run_action ?c (PStr (cmd_commit (commit_message E s))) ?cwd None w3 = (Inr rc, w4)"
    and h: "rc_run_action ?c (PStr CMD_HEAD) ?cwd None w4 = (Inr rh, w')"
    by (auto simp: executed_append)
  have "head (lg_machine w4) = head (lg_machine w3)" using lying_commit_runs_nothing [OF m] by simp
  moreover have "head (lg_machine w3) = head (lg_machine w2)"
    using assms(3) a by (auto simp: reads_head_def elim!: lying_passes_on [OF not_commit(2)])
  moreover obtain x where x: "spawn CMD_HEAD ?cwd (lg_machine w1) = (Inr x, lg_machine w2)"
    "rb = \<lparr>exit_code = (case fst x of None \<Rightarrow> 0 | Some c \<Rightarrow> c), output = py_decode_replace (snd x)\<rparr>"
    using b by (rule lying_passes_on [OF not_commit(1)])
  moreover obtain y where y: "spawn CMD_HEAD ?cwd (lg_machine w4) = (Inr y, lg_machine w')"
    "rh = \<lparr>exit_code = (case fst y of None \<Rightarrow> 0 | Some c \<Rightarrow> c), output = py_decode_replace (snd y)\<rparr>"
    using h by (rule lying_passes_on [OF not_commit(1)])
  ultimately have "y = x" using assms(3) unfolding reads_head_def by metis
  with x(2) y(2) moved show False by simp
qed

end
