(* ===== verification/Graph_Paths.thy ===== *)
theory Graph_Paths
  imports Graph
begin

text \<open>
  The routes of \<open>build_graph\<close>: which sequences of nodes a run can visit. They are written down as an
  explicit list, independent of the model's edges: planning, at most three rounds of work, of which
  all but the last lead back to the executor, and one of three ways out. \<open>continues\<close> says what may
  still come from a node in a state; a run is followed through it from its end to its start.
\<close>

section \<open>The legal paths\<close>

definition work_rounds :: "node_name list list" where
  \<comment> \<open>a validation that fails, a commit that does not land\<close>
  "work_rounds = [[Executor, Validator], [Executor, Validator, Oversight_git]]"

definition endings :: "node_name list list" where
  "endings =
     [[Executor, Validator, Oversight_git, Advance, Dispatch],
      [Executor, Validator, Escalate, Advance, Dispatch],
      [Executor, Validator, Oversight_git, Escalate, Advance, Dispatch]]"

definition legal_paths :: "node_name list list" where
  "legal_paths =
     [Analyzer, Architect, Dispatch]
     # map (\<lambda>(rs, e). [Analyzer, Architect, Dispatch] @ concat rs @ e)
         (List.product (concat (map (\<lambda>n. List.n_lists n work_rounds) [0, 1, 2])) endings)"






section \<open>What may follow a node\<close>









section \<open>Property\<close>



lemma legal_paths_count: "length legal_paths = 22 \<and> distinct legal_paths"
  by code_simp

end
