(* ===== verification/Spec2Isabelle.thy ===== *)
theory Spec2Isabelle
  imports Entry_Points Json_Roundtrip Lifecycle Verify_Step6 Stub_Scenarios Stub_Happy Attempt_Events Verify_UI_Strikes Typed_System Checkpoints Local_Git Graph_Paths
begin

text \<open>
  The verification library of Syndicate, an orchestrator that turns a GitHub issue into a commit: a
  LangGraph state machine (\<open>syndicate/\<close>) plans a ticket, lets a model edit a sandboxed checkout,
  validates the result and commits it, and a FastAPI service (\<open>server/\<close>) runs the machine and
  streams its progress to a browser.

  \<^bold>\<open>Conventions.\<close> Text is a list of code points (\<open>str\<close>). A value of unknown Python type is a
  \<open>pyval\<close>; tickets, tool inputs and payloads are dicts, that is association lists in insertion
  order. An effectful function is a \<open>prog\<close>: it takes a world and returns an exception or a value
  together with the new world, so every raise of the source is a branch and effects before an
  exception stay. \<open>P\<close> is the interpreter's table of printable code points, which \<open>repr\<close> consults.
  What is not under \<open>src/\<close> is an argument: the HTTP library (\<open>http\<close>), the model's client
  (\<open>llm_client\<close>), the process environment (\<open>environ\<close>), the clock, the checkpoints.

  \<^bold>\<open>Parts and theories.\<close>
    \<^item> \<open>Prelude\<close>, \<open>Py_Str\<close>, \<open>Utf8\<close>, \<open>Shell\<close>, \<open>Json\<close>: the parts of Python's language and library that
      the source uses (string methods, the UTF-8 codec, \<open>shlex.quote\<close> with the POSIX word
      splitting it is meant for, \<open>json\<close>).
    \<^item> \<open>State\<close> (\<open>syndicate/state.py\<close>): enums, the issue, the agent state; a node's partial result is
      a list of \<open>update\<close>s and \<open>merge\<close> writes the keys that are present.
    \<^item> \<open>Runtime\<close>, \<open>Factory\<close> (\<open>syndicate/runtime/\<close>): the sandbox protocol, the mock, the HTTP adapter,
      and the choice between them. The locale \<open>sandbox_backend\<close> is the contract of an edit, given by
      both backends; \<open>file_store\<close> extends it with the laws of a map, given by the mock.
    \<^item> \<open>Llm\<close> (\<open>syndicate/stub_llm.py\<close>): messages, responses and the scripted stand-in. Its client
      objects live in a heap because the history and the running loop share them.
    \<^item> \<open>Agent_Loop\<close>, \<open>Scripted\<close> (\<open>_run_tool\<close>, \<open>_run_agentic_loop\<close>; \<open>tests/conftest.py\<close>): one attempt of
      the model, and the scripted sandbox with which witnesses compute.
    \<^item> \<open>Executor\<close>, \<open>Planning\<close>, \<open>Oversight\<close> (the node functions of \<open>syndicate/nodes.py\<close>). The locale
      \<open>ticket_node\<close> is what the graph relies on: a node that works on a ticket writes only ticket
      fields and never lowers the strike count; the three ticket nodes interpret it.
    \<^item> \<open>Local_Git\<close> (\<open>tests/conftest.py\<close>): the two git doubles of the tests, and that the commit node
      does not believe the one that only claims to commit.
    \<^item> \<open>Graph\<close> (\<open>build_graph\<close>): nodes and edges as an \<open>inductive\<close> step relation and as the executable
      \<open>run_graph\<close>; \<open>graph_inv\<close> is the invariant of each node, \<open>steps_left\<close> the termination measure.
    \<^item> \<open>Graph_Paths\<close>: the routes through \<open>build_graph\<close> as an explicit list of node sequences, and that every
      finished run takes one of them.
    \<^item> \<open>Events\<close>, \<open>Registry\<close>, \<open>Runner\<close>, \<open>Event_Stream\<close>, \<open>Server_App\<close> (\<open>server/\<close>): redaction and
      envelopes, run records and the one-run slot (locale \<open>run_slot\<close>), the driver of a run, the
      stream generator interleaved with the run's task, the routes and the server as a whole.
    \<^item> \<open>Entry_Points\<close>: \<open>scripts/run_real_issue.py\<close> and what \<open>scripts/smoke_e2e_mock.py\<close> expects.
    \<^item> \<open>Lifecycle\<close>: the abstract machine of a ticket (planning, working, verdict, closed), which the
      graph refines: \<open>life_of\<close> is the abstraction of a configuration.
    \<^item> \<open>Json_Roundtrip\<close>: \<open>json.loads\<close> inverts \<open>json.dumps\<close>, and what a client parses of a frame.
    \<^item> \<open>Typing\<close>, \<open>Typed_System\<close>: the types the annotations promise, as predicates, and that nodes, clients and
      runs keep them. \<open>safe_prog\<close> is the triple, the locales \<open>typed_sandbox\<close> and \<open>typed_model\<close> are what
      the two seams owe; the mock, the adapter and the scripted model give them.
    \<^item> \<open>Attempt_Events\<close>: the incremental \<open>_extract_attempts\<close> of \<open>server/runner.py\<close> against its
      reference, a reading of the executor's last log at once.
    \<^item> \<open>Readable_Events\<close>, \<open>Watched_Runs\<close>: the runs whose stream a client parses back to the events sent,
      and a client that follows the stream while the run goes on.
    \<^item> \<open>Checkpoints\<close>: \<open>server/checkpointer.py\<close>, the two processes of
      \<open>scripts/verify_checkpoint_roundtrip.py\<close>, and the state route after a restart. LangGraph's engine and
      its saver are parameters; \<open>langgraph_persists\<close> and \<open>saver_keeps\<close> state what is documented of them: a
      run starts from the stored state of its thread overlaid with the input, and leaves its final state.
    \<^item> \<open>Verify_Nodes\<close>, \<open>Verify_Step6\<close>, \<open>Stub_Runs\<close>, \<open>Verify_Stub\<close>, \<open>Stub_Scenarios\<close>, \<open>Stub_Happy\<close>,
      \<open>Verify_UI\<close>, \<open>Verify_UI_Server\<close>, \<open>Verify_UI_Strikes\<close>: the acceptance scripts of \<open>scripts/\<close> as programs
      whose assertions raise; \<open>ui_driver\<close> is the server as a subprocess and its HTTP client. The
      locale \<open>text_files\<close> of \<open>Verify_Nodes\<close> is the contract of a file store that the mock and an agent
      server give. \<open>Stub_Runs\<close> says how an attempt with the scripted model goes.
  The root holds the properties that span several of them.

  \<^bold>\<open>Interaction.\<close> A graph node receives the state and an environment with the two seams of
  \<open>nodes.py\<close>, \<open>get_runtime_client\<close> and \<open>_get_llm_client\<close>, talks to the sandbox and the model through
  the clients they return, and gives a partial state; the edge function of the node reads the
  merged state. \<open>drive_run\<close> consumes the stream of these partial states and appends envelopes to
  the record of the run, which viewers read at their own pace; \<open>_run_and_release\<close> frees the slot.

  \<^bold>\<open>What the lemmas show.\<close> Commit truth: \<open>DONE\<close> means that git moved HEAD, at the node
  (\<open>oversight_cases\<close> lists the exact commands of every way through it) and for whole runs. Budgets:
  attempts, strikes and escalations are bounded and accounted for. Termination: every run stops
  within 15 nodes, on one of 22 paths. Shell safety: the git lines have exactly the declared arguments. Planning:
  verification commands are never made up. Secrets: no emitted string value matches a secret
  pattern; the five patterns are terms of a regular expression type whose matcher computes and is
  related to its language. Streams: order, completeness and catching up of viewers; no attempt is lost or
  shown twice. Admission: one run at a time. Clients: edits are unique replacements, results are the server's. Refinement: the
  graph refines the life cycle of a ticket. Scripts: for which sandboxes an acceptance script passes
  (\<open>answers\<close>, \<open>stores\<close> and \<open>serves_files\<close> say what the server has to do), and what a passing script
  certifies (a commit, a failed validation, consecutive event numbers); every server a script started is
  stopped. Types: no run ends with a type
  error if tickets, model answers and libraries keep their types. Checkpoints: what a run stored is
  what a restarted process reads and serves.

  \<^bold>\<open>Bounds and fuel.\<close> \<open>run_graph\<close> takes LangGraph's recursion limit (\<open>RECURSION_LIMIT\<close>, its default
  25); \<open>graph_terminates\<close> shows that 15 suffice for any strike count, so it is never the reason to
  stop. \<open>agentic_turns\<close> takes the source's own cap of 25 turns. \<open>json_value\<close> takes fuel, and
  \<open>json_loads\<close> supplies the length of the text plus one, which always suffices (\<open>json_fuel\<close>). The
  backlog keeps the source's 2000 envelopes. All other loops are structural or have a measure.

  \<^bold>\<open>Not modelled.\<close> The engines (LangGraph, FastAPI, asyncio's scheduler beyond the interleaving of
  suspension points, the SQLite saver: \<open>langgraph_persists\<close> and \<open>saver_keeps\<close> state what is relied on), pydantic validation, static
  files, uvicorn's start, logging, printing, cancellation of tasks, the interpreter's recursion limit,
  its limit of 4300 digits for the text of an int, the value of a JSON float (\<open>json_number\<close> keeps its
  numeral as it is written, where Python would print \<open>1.50\<close> as \<open>1.5\<close>), non-ASCII digits in \<open>int()\<close>,
  \<open>float()\<close> beyond decimal numerals, IDNA checks of \<open>urlparse\<close>. What
  argparse makes of the command line of \<open>scripts/run_real_issue.py\<close> is an argument (\<open>real_args\<close>). Of the
  acceptance scripts: printing and closing of the HTTP clients; a clock is an argument. The server of
  the UI scripts is a parameter, \<open>ui_driver\<close>. The test cases of \<open>tests/\<close> are not definitions: several of
  their scenarios are the witnesses of the properties. What is left of the source's lines is imports,
  docstrings, printing and the calls that start the frameworks above.
\<close>

section \<open>Properties across the components\<close>

text \<open>
  C1: a finished run that reports its ticket as \<open>DONE\<close> made a commit. From a state whose ticket is not
  yet \<open>DONE\<close>, the run reaches the commit node at a moment where the commands it then runs in the
  ticket's workspace are the preparation, \<open>git rev-parse HEAD\<close>, \<open>git add\<close> of the declared files,
  \<open>git commit\<close> and \<open>git rev-parse HEAD\<close>, with add, commit and the last check exiting 0 and HEAD
  naming another commit than before; and the ticket had passed its validation then.
\<close>

theorem done_run_committed:
  assumes "run_graph E k s0 w0 = (us, Finished, s', w')" and "fresh s0" and "ticket_status s' = Some DONE"
  shows "\<exists>s w w2 client w1 pre paths rb ra rc rh.
      reachable E (At entry_point s0 w0) (At Oversight_git s w) \<and> validated s
    \<and> ne_get_runtime_client E w = (Inr client, w1) \<and> is_prepare pre
    \<and> quoted_paths (files_of (ticket_of s)) = Inr paths
    \<and> executed client (workspace_of (ticket_of s))
        (pre @ [(CMD_HEAD, rb), (cmd_add paths, ra), (cmd_commit (commit_message E s), rc), (CMD_HEAD, rh)]) w1 w2
    \<and> exit_code ra = 0 \<and> exit_code rc = 0 \<and> exit_code rh = 0 \<and> head_of rh \<noteq> head_of rb"
proof -
  have r: "reachable E (At entry_point s0 w0) (Ended s' w')"
    using run_from_reaches [of E k entry_point s0 w0 us Finished s' w'] assms(1) by (simp add: run_graph_def)
  have "ticket_status (conf_state (At entry_point s0 w0)) \<noteq> Some DONE" using assms(2) by (simp add: fresh_def)
  from done_from_oversight [OF r this] assms(3) obtain s w w2
    where o: "reachable E (At entry_point s0 w0) (At Oversight_git s w)" and c: "commit_landed E s w w2" by auto
  from conf_inv_reachable [OF o assms(2)] have "validated s" by simp
  with o c show ?thesis unfolding commit_landed_def by blast
qed

theorem done_run_committed_witness:
  "\<exists>s w w2 client w1 rb rh.
      reachable (scripted_env ''ok'') (At entry_point demo_state commit_world) (At Oversight_git s w) \<and> validated s
    \<and> ne_get_runtime_client (scripted_env ''ok'') w = (Inr client, w1)
    \<and> (\<exists>cs. executed client (workspace_of (ticket_of s)) (cs @ [(CMD_HEAD, rh)]) w1 w2) \<and> head_of rh \<noteq> head_of rb"
proof -
  obtain us s' w' where r: "run_graph (scripted_env ''ok'') 25 demo_state commit_world = (us, Finished, s', w')"
    "ticket_status s' = Some DONE" using commit_run by blast
  have "fresh demo_state"
    by (simp add: fresh_def demo_state_def empty_state_def validated_def strikes_def escalations_def)
  from done_run_committed [OF r(1) this r(2)] obtain s w w2 client w1 pre paths rb ra rc rh
    where o: "reachable (scripted_env ''ok'') (At entry_point demo_state commit_world) (At Oversight_git s w)"
      "validated s" "ne_get_runtime_client (scripted_env ''ok'') w = (Inr client, w1)" "head_of rh \<noteq> head_of rb"
    and e: "executed client (workspace_of (ticket_of s))
        (pre @ [(CMD_HEAD, rb), (cmd_add paths, ra), (cmd_commit (commit_message (scripted_env ''ok'') s), rc), (CMD_HEAD, rh)]) w1 w2"
    by blast
  have "executed client (workspace_of (ticket_of s))
        ((pre @ [(CMD_HEAD, rb), (cmd_add paths, ra), (cmd_commit (commit_message (scripted_env ''ok'') s), rc)]) @ [(CMD_HEAD, rh)]) w1 w2"
    using e by simp
  with o show ?thesis by blast
qed

text \<open>
  The loop closes in mock mode, as \<open>scripts/smoke_e2e_mock.py\<close> asserts: from the empty state the
  graph visits exactly the expected nodes, finishes, and the attempt log is empty at the end.
\<close>

theorem mock_run_closes:
  "case run_graph mock_env RECURSION_LIMIT empty_state Map.empty of
     (us, out, s', w') \<Rightarrow> transitions us = EXPECTED_TRANSITIONS \<and> out = Finished \<and> attempt_log s' = Some []"
proof -
  obtain us out s' w' where r: "run_graph mock_env 25 empty_state Map.empty = (us, out, s', w')"
    by (cases "run_graph mock_env 25 empty_state Map.empty")
  with mock_run have m: "map fst us = [Analyzer, Architect, Dispatch, Executor, Validator, Oversight_git, Advance, Dispatch]"
    "out = Finished" "attempt_log s' = Some []" by simp_all
  have "transitions us = map node_label (map fst us) @ [lit ''END'']"
    by (simp add: transitions_def split_beta comp_def)
  with m r show ?thesis by (simp add: RECURSION_LIMIT_def EXPECTED_TRANSITIONS_def)
qed

text \<open>
  C21: what the server reports of a run is what the graph did. The status of the record is failed
  exactly when a node raised, and otherwise escalated exactly when the ticket ended so; the recursion
  limit is never the reason. A run that was submitted through the UI declares no files, so it ends
  passed or escalated and never \<open>DONE\<close>.
\<close>

theorem ui_run_reports_outcome:
  "case run_graph E RECURSION_LIMIT (build_initial_state run_id raw) w of
     (us, out, s', w') \<Rightarrow>
       snd (run_and_drive P clock E (new_record now run_id raw) w) = w'
       \<and> rr_status (fst (run_and_drive P clock E (new_record now run_id raw) w))
           = (case out of Raised e \<Rightarrow> Run_failed_state
              | _ \<Rightarrow> if ticket_status s' = Some ESCALATED then Escalated_state else Completed)
       \<and> (case out of
             Finished \<Rightarrow> ticket_status s' = Some ESCALATED \<or> ticket_status s' = Some LOCAL_PASS \<and> validated s'
           | Raised e \<Rightarrow> True
           | Out_of_steps \<Rightarrow> False)"
proof -
  let ?s0 = "build_initial_state run_id raw"
  obtain us out s' w' where r: "run_graph E RECURSION_LIMIT ?s0 w = (us, out, s', w')"
    by (cases "run_graph E RECURSION_LIMIT ?s0 w")
  have f: "fresh ?s0" by (rule fresh_initial_state)
  have st: "0 \<le> strikes ?s0" using f by (simp add: fresh_def)
  have "out \<noteq> Out_of_steps"
    using run_from_enough_steps(1) [OF entered_entry, of ?s0 RECURSION_LIMIT E w] steps_left_fresh [OF st] r
    by (simp add: run_graph_def RECURSION_LIMIT_def)
  moreover have "ticket_status s' = Some ESCALATED \<or> ticket_status s' = Some LOCAL_PASS \<and> validated s'"
    if fin: "out = Finished"
  proof -
    have x: "reachable E (At entry_point ?s0 w) (Ended s' w')"
      using run_from_reaches [of E RECURSION_LIMIT entry_point ?s0 w us Finished s' w'] r fin by (simp add: run_graph_def)
    have "\<not> truthy (files_of (ticket_of s'))"
      using same_ticket_reachable [OF x initial_ticket(1,2)] initial_ticket(3) [of run_id raw]
      by (simp add: same_ticket_def)
    with conf_inv_reachable [OF x f] show ?thesis
      by (auto simp: closed_with_def settled_def committed_end_def no_files_end_def escalated_end_def)
  qed
  moreover have "rr_status (fst (run_and_drive P clock E (new_record now run_id raw) w)) = end_state (stream_end out s')"
    "snd (run_and_drive P clock E (new_record now run_id raw) w) = w'"
    using r by (simp_all add: run_and_drive_def new_record_def drive_run_def on_end_extends(2))
  ultimately show ?thesis unfolding r
    by (cases out) (auto simp: end_state_def is_escalated_def split: option.splits)
qed

text \<open>
  C40: \<open>run_real_issue.py\<close> works off an issue (its command line having been parsed) and exits with 0 exactly
  when both variables are set, the body of the issue can be read, and a run of the graph on the issue,
  never in mock mode, finished with the ticket \<open>DONE\<close>; that ticket was then validated and declares
  files, nothing was escalated, and the ledger holds the one decision of this run.
\<close>

theorem real_issue_exit_zero:
  "fst (real_issue_main P h anthropic read_text env (Inr args) w) = Inr 0 \<longleftrightarrow>
     \<not> is_unset env ''ANTHROPIC_API_KEY'' \<and> \<not> is_unset env ''SYNDICATE_RUNTIME_URL''
     \<and> (\<exists>i m us s' w'. issue_of_args read_text args = Inr i
          \<and> max_escalations_of (env(lit ''SYNDICATE_MOCK_CLIENT'' := None)) = Inr m
          \<and> run_graph (system_env P h anthropic (env(lit ''SYNDICATE_MOCK_CLIENT'' := None)) m) RECURSION_LIMIT (issue_state i) w
              = (us, Finished, s', w')
          \<and> ticket_status s' = Some DONE \<and> validated s' \<and> truthy (files_of (ticket_of s'))
          \<and> escalations s' = 0 \<and> length (ledger_of s') = 1)"
proof -
  have end_facts: "validated s' \<and> truthy (files_of (ticket_of s')) \<and> escalations s' = 0 \<and> length (ledger_of s') = 1"
    if "run_graph E RECURSION_LIMIT (issue_state i) w = (us, Finished, s', w')" and d: "ticket_status s' = Some DONE"
    for E :: "('a, 'b) sys_world node_env" and i us s' w'
  proof -
    have x: "reachable E (At entry_point (issue_state i) w) (Ended s' w')"
      using run_from_reaches [of E RECURSION_LIMIT entry_point "issue_state i" w us Finished s' w'] that(1)
      by (simp add: run_graph_def)
    have "ledger_of (issue_state i) = []" by (simp add: issue_state_def empty_state_def ledger_of_def)
    with conf_inv_reachable [OF x fresh_issue_state] d show ?thesis
      by (auto simp: closed_with_def settled_def committed_end_def no_files_end_def escalated_end_def)
  qed
  show ?thesis
    using end_facts
    by (auto simp: real_issue_main_def Let_def split: sum.splits prod.splits outcome.splits if_splits)
qed

end
